(* ===== verification/Mcps_Prelude.thy ===== *)
theory Mcps_Prelude
  imports Main "HOL-Library.List_Lexorder" "HOL-Library.Sublist"
begin

text \<open>
  Shared vocabulary of the development: Rust's \<open>Result\<close> as a sum type with its
  \<open>?\<close> operator (\<open>and_then\<close>), the 64-bit integer range and its saturating
  operations, truncating division, strings as lists of Unicode scalar values, decimal
  rendering, and the length-prefixed field encoding that several composite keys of the
  program rely on. The named collections gather the facts that component proofs hand to
  the simplifier.
\<close>

named_theorems result_simps \<open>equations that invert a successful or failed chain of checks\<close>
named_theorems i64_simps \<open>the 64-bit bounds and the saturating operations, unfolded\<close>
named_theorems const_defs \<open>frozen string constants of the protocol\<close>
named_theorems eval_simps \<open>unfoldings that evaluate the model on a concrete input\<close>

section \<open>Results\<close>

text \<open>\<open>Inl\<close> is \<open>Err\<close>, \<open>Inr\<close> is \<open>Ok\<close>; \<open>and_then\<close> is the \<open>?\<close> operator.\<close>

abbreviation Ok :: "'a \<Rightarrow> 'e + 'a" where
  "Ok \<equiv> Inr"

abbreviation Err :: "'e \<Rightarrow> 'e + 'a" where
  "Err \<equiv> Inl"

primrec and_then :: "'e + 'a \<Rightarrow> ('a \<Rightarrow> 'e + 'b) \<Rightarrow> 'e + 'b" where
  "and_then (Inl e) f = Inl e"
| "and_then (Inr x) f = f x"

primrec map_err :: "('e \<Rightarrow> 'f) \<Rightarrow> 'e + 'a \<Rightarrow> 'f + 'a" where
  "map_err g (Inl e) = Inl (g e)"
| "map_err g (Inr x) = Inr x"

primrec ok_or :: "'e \<Rightarrow> 'a option \<Rightarrow> 'e + 'a" where
  "ok_or e None = Inl e"
| "ok_or e (Some x) = Inr x"

definition require :: "bool \<Rightarrow> 'e \<Rightarrow> 'e + unit" where
  "require b e = (if b then Inr () else Inl e)"

primrec collect :: "('e + 'a) list \<Rightarrow> 'e + 'a list" where
  "collect [] = Inr []"
| "collect (r # rs) = and_then r (\<lambda>x. and_then (collect rs) (\<lambda>xs. Inr (x # xs)))"

lemma and_then_eq_Inr [result_simps]:
  "and_then r f = Inr y \<longleftrightarrow> (\<exists>x. r = Inr x \<and> f x = Inr y)"
  by (cases r) auto

lemma and_then_eq_Inl [result_simps]:
  "and_then r f = Inl e \<longleftrightarrow> r = Inl e \<or> (\<exists>x. r = Inr x \<and> f x = Inl e)"
  by (cases r) auto

lemma map_err_eq_Inr [result_simps]: "map_err g r = Inr y \<longleftrightarrow> r = Inr y"
  by (cases r) auto

lemma map_err_eq_Inl [result_simps]: "map_err g r = Inl e \<longleftrightarrow> (\<exists>d. r = Inl d \<and> e = g d)"
  by (cases r) auto

lemma ok_or_eq_Inr [result_simps]: "ok_or e m = Inr y \<longleftrightarrow> m = Some y"
  by (cases m) auto

lemma ok_or_eq_Inl [result_simps]: "ok_or e m = Inl d \<longleftrightarrow> m = None \<and> d = e"
  by (cases m) auto

lemma require_eq_Inr [result_simps]: "require b e = Inr u \<longleftrightarrow> b"
  by (simp add: require_def)

lemma require_eq_Inl [result_simps]: "require b e = Inl d \<longleftrightarrow> \<not> b \<and> d = e"
  by (auto simp: require_def)

lemma require_simps [simp]: "require True e = Inr ()" "require False e = Inl e"
  by (simp_all add: require_def)

lemma and_then_assoc: "and_then (and_then r f) g = and_then r (\<lambda>x. and_then (f x) g)"
  by (cases r) auto

lemma and_then_cong [fundef_cong]:
  "r = r' \<Longrightarrow> (\<And>x. r' = Inr x \<Longrightarrow> f x = g x) \<Longrightarrow> and_then r f = and_then r' g"
  by (cases r') auto

lemma collect_eq_Inr: "collect rs = Inr xs \<longleftrightarrow> rs = map Inr xs"
proof (induction rs arbitrary: xs)
  case Nil
  then show ?case by auto
next
  case (Cons r rs)
  then show ?case by (cases xs) (auto simp: result_simps)
qed

lemma collect_map_Inr [simp]: "collect (map Inr xs) = Inr xs"
  by (simp add: collect_eq_Inr)

lemma collect_Inl_mem: "collect rs = Inl e \<Longrightarrow> Inl e \<in> set rs"
  by (induction rs) (auto simp: result_simps)

section \<open>64-bit signed integers\<close>

definition i64_min :: int where "i64_min = - (2 ^ 63)"
definition i64_max :: int where "i64_max = 2 ^ 63 - 1"

definition is_i64 :: "int \<Rightarrow> bool" where
  "is_i64 x \<longleftrightarrow> i64_min \<le> x \<and> x \<le> i64_max"

definition sat_i64 :: "int \<Rightarrow> int" where
  "sat_i64 x = max i64_min (min i64_max x)"

definition saturating_add :: "int \<Rightarrow> int \<Rightarrow> int" where
  "saturating_add a b = sat_i64 (a + b)"

definition saturating_sub :: "int \<Rightarrow> int \<Rightarrow> int" where
  "saturating_sub a b = sat_i64 (a - b)"

lemmas [i64_simps] = i64_min_def i64_max_def is_i64_def sat_i64_def
  saturating_add_def saturating_sub_def

lemma sat_i64_range [simp]: "is_i64 (sat_i64 x)"
  by (simp add: i64_simps)

lemma sat_i64_id [simp]: "is_i64 x \<Longrightarrow> sat_i64 x = x"
  by (simp add: i64_simps)

lemma saturating_add_range [simp]: "is_i64 (saturating_add a b)"
  by (simp add: saturating_add_def)

text \<open>Comparing a 64-bit value with a bound that saturates on its far side decides the exact
  comparison.\<close>

lemma le_saturating_add_iff:
  "is_i64 x \<Longrightarrow> i64_min \<le> a + b \<Longrightarrow> x \<le> saturating_add a b \<longleftrightarrow> x \<le> a + b"
  by (auto simp: i64_simps max_def min_def split: if_splits)

lemma saturating_sub_le_iff:
  "is_i64 x \<Longrightarrow> a - b \<le> i64_max \<Longrightarrow> saturating_sub a b \<le> x \<longleftrightarrow> a - b \<le> x"
  by (auto simp: i64_simps max_def min_def split: if_splits)

lemma saturating_add_mono: "b \<le> b' \<Longrightarrow> saturating_add a b \<le> saturating_add a b'"
  by (auto simp: i64_simps)

text \<open>Rust's \<open>/\<close> and \<open>%\<close> truncate towards zero.\<close>

definition rdiv :: "int \<Rightarrow> int \<Rightarrow> int" where
  "rdiv a b = sgn a * sgn b * (\<bar>a\<bar> div \<bar>b\<bar>)"

definition rrem :: "int \<Rightarrow> int \<Rightarrow> int" where
  "rrem a b = a - b * rdiv a b"

lemma rdiv_nonneg [simp]: "0 \<le> a \<Longrightarrow> 0 < b \<Longrightarrow> rdiv a b = a div b"
  by (cases "a = 0") (auto simp: rdiv_def sgn_if)

lemma rdiv_neg: "a < 0 \<Longrightarrow> 0 < b \<Longrightarrow> rdiv a b = - ((- a) div b)"
  by (auto simp: rdiv_def sgn_if)

lemma rrem_nonneg [simp]: "0 \<le> a \<Longrightarrow> 0 < b \<Longrightarrow> rrem a b = a mod b"
  by (simp add: rrem_def minus_mult_div_eq_mod)

section \<open>Strings and decimal numbers\<close>

text \<open>
  A Rust \<open>char\<close> is a Unicode scalar value, a \<open>String\<close> a list of them; a byte is a
  number below 256. \<open>lit\<close> turns an ASCII literal into such a string.
\<close>

type_synonym uchar = nat
type_synonym ustring = "uchar list"
type_synonym byte = nat
type_synonym bytes = "byte list"

definition lit :: "string \<Rightarrow> ustring" where
  "lit s = map of_char s"

lemma of_char_nat_inj: "inj (of_char :: char \<Rightarrow> nat)"
  by (rule injI) simp

lemma lit_eq_iff [simp]: "lit s = lit t \<longleftrightarrow> s = t"
  unfolding lit_def by (rule inj_map_eq_map [OF of_char_nat_inj])

lemma lit_Nil [simp]: "lit [] = []"
  by (simp add: lit_def)

lemma lit_eq_Nil_iff [simp]: "lit s = [] \<longleftrightarrow> s = []" "[] = lit s \<longleftrightarrow> s = []"
  by (simp_all add: lit_def)

lemma length_lit [simp]: "length (lit s) = length s"
  by (simp add: lit_def)

fun dec :: "nat \<Rightarrow> ustring" where
  "dec n = (if n < 10 then [48 + n] else dec (n div 10) @ [48 + n mod 10])"

declare dec.simps [simp del]

definition is_digit :: "uchar \<Rightarrow> bool" where
  "is_digit c \<longleftrightarrow> 48 \<le> c \<and> c \<le> 57"

primrec digits_value :: "nat \<Rightarrow> ustring \<Rightarrow> nat" where
  "digits_value acc [] = acc"
| "digits_value acc (c # cs) = digits_value (10 * acc + (c - 48)) cs"

lemma digits_value_append [simp]:
  "digits_value acc (xs @ ys) = digits_value (digits_value acc xs) ys"
  by (induction xs arbitrary: acc) auto

lemma digits_value_split: "digits_value acc xs = acc * 10 ^ length xs + digits_value 0 xs"
proof (induction xs arbitrary: acc)
  case (Cons c cs)
  show ?case
    using Cons.IH [of "10 * acc + (c - 48)"] Cons.IH [of "c - 48"]
    by (simp add: algebra_simps)
qed simp

lemma dec_nonempty [simp]: "dec n \<noteq> []"
  by (subst dec.simps) simp

lemma dec_digits: "c \<in> set (dec n) \<Longrightarrow> is_digit c"
proof (induction n rule: dec.induct)
  case (1 n)
  show ?case
  proof (cases "n < 10")
    case True
    with "1.prems" show ?thesis by (simp add: dec.simps [of n] is_digit_def)
  next
    case False
    from "1.prems" False have "c \<in> set (dec (n div 10)) \<or> c = 48 + n mod 10"
      by (auto simp: dec.simps [of n])
    then show ?thesis
    proof
      assume "c = 48 + n mod 10"
      moreover have "n mod 10 < 10" by simp
      ultimately show ?thesis unfolding is_digit_def by linarith
    qed (use "1.IH" False in simp)
  qed
qed

lemma digits_value_dec [simp]: "digits_value 0 (dec n) = n"
proof (induction n rule: dec.induct)
  case (1 n)
  then show ?case by (cases "n < 10") (simp_all add: dec.simps [of n])
qed

lemma dec_inj [simp]: "dec m = dec n \<longleftrightarrow> m = n"
  by (metis digits_value_dec)

lemma dec_hd: "hd (dec n) = 48 \<Longrightarrow> n = 0"
proof (induction n rule: dec.induct)
  case (1 n)
  show ?case
  proof (cases "n < 10")
    case True
    with "1.prems" show ?thesis by (simp add: dec.simps [of n])
  next
    case False
    with "1.prems" have "hd (dec (n div 10)) = 48"
      by (simp add: dec.simps [of n] hd_append)
    with "1.IH" False have "n div 10 = 0" by simp
    with False show ?thesis by simp
  qed
qed

lemma dec_0 [simp]: "dec 0 = [48]"
  by (simp add: dec.simps)

lemma length_dec_less: "0 < k \<Longrightarrow> n < 10 ^ k \<Longrightarrow> length (dec n) \<le> k"
proof (induction n arbitrary: k rule: dec.induct)
  case (1 n)
  show ?case
  proof (cases "n < 10")
    case True
    with "1.prems" show ?thesis by (simp add: dec.simps [of n])
  next
    case False
    with "1.prems" obtain j where k: "k = Suc j" "0 < j" by (cases k; cases "k - 1") auto
    with "1.prems" have "n div 10 < 10 ^ j" by (simp add: less_mult_imp_div_less)
    with "1.IH" False k have "length (dec (n div 10)) \<le> j" by simp
    with False k show ?thesis by (simp add: dec.simps [of n])
  qed
qed

section \<open>Length-prefixed fields\<close>

text \<open>
  A digit run followed by a separator that is no digit splits in only one way; with the
  byte length in front of it, a field of unknown content is delimited unambiguously.
\<close>

lemma digit_run_unique:
  assumes "xs @ s # us = ys @ s # vs"
    and "\<forall>c \<in> set xs. is_digit c" and "\<forall>c \<in> set ys. is_digit c" and "\<not> is_digit s"
  shows "xs = ys \<and> us = vs"
  using assms
proof (induction xs arbitrary: ys)
  case Nil
  then show ?case by (cases ys) auto
next
  case (Cons x xs)
  then show ?case by (cases ys) auto
qed

lemma dec_sep_unique:
  assumes "dec m @ s # us = dec n @ s # vs" and "\<not> is_digit s"
  shows "m = n \<and> us = vs"
  using digit_run_unique [OF assms(1)] assms(2) dec_digits by auto

text \<open>Two strings that start one common string and weigh the same are equal.\<close>

lemma weighted_prefix_unique:
  fixes w :: "'a \<Rightarrow> nat"
  assumes "xs @ us = ys @ vs" and "sum_list (map w xs) = sum_list (map w ys)"
    and pos: "\<And>c. 0 < w c"
  shows "xs = ys \<and> us = vs"
  using assms(1,2)
proof (induction xs arbitrary: ys)
  case Nil
  show ?case
  proof (cases ys)
    case (Cons y ys')
    with Nil.prems(2) pos [of y] show ?thesis by simp
  qed (use Nil in simp)
next
  case (Cons x xs)
  show ?case
  proof (cases ys)
    case Nil
    with Cons.prems(2) pos [of x] show ?thesis by simp
  next
    case (Cons y ys')
    with Cons.prems Cons.IH [of ys'] show ?thesis by simp
  qed
qed

end
