(* ===== verification/Unicode_Text.thy ===== *)
theory Unicode_Text
  imports Mcps_Prelude
begin

text \<open>
  The three views of a string that the program uses: Unicode scalar values
  (\<open>str::chars\<close>), UTF-8 bytes (\<open>str::as_bytes\<close>, \<open>String::into_bytes\<close>,
  \<open>str::from_utf8\<close>) and UTF-16 code units (\<open>str::encode_utf16\<close>). These are
  operations of the Rust standard library, defined here so that byte lengths, byte
  round trips and the member order of canonical JSON can be reasoned about.
\<close>

section \<open>Scalar values\<close>

definition is_scalar :: "uchar \<Rightarrow> bool" where
  "is_scalar c \<longleftrightarrow> c < 0xD800 \<or> (0xDFFF < c \<and> c \<le> 0x10FFFF)"

definition valid_str :: "ustring \<Rightarrow> bool" where
  "valid_str s \<longleftrightarrow> (\<forall>c \<in> set s. is_scalar c)"

lemma valid_str_simps [simp]:
  "valid_str []"
  "valid_str (c # s) \<longleftrightarrow> is_scalar c \<and> valid_str s"
  "valid_str (s @ t) \<longleftrightarrow> valid_str s \<and> valid_str t"
  by (auto simp: valid_str_def)

section \<open>UTF-8\<close>

definition utf8_char :: "uchar \<Rightarrow> bytes" where
  "utf8_char c =
     (if c < 0x80 then [c]
      else if c < 0x800 then [0xC0 + c div 64, 0x80 + c mod 64]
      else if c < 0x10000 then [0xE0 + c div 4096, 0x80 + c div 64 mod 64, 0x80 + c mod 64]
      else [0xF0 + c div 262144, 0x80 + c div 4096 mod 64, 0x80 + c div 64 mod 64, 0x80 + c mod 64])"

definition utf8 :: "ustring \<Rightarrow> bytes" where
  "utf8 s = concat (map utf8_char s)"

definition is_cont :: "byte \<Rightarrow> bool" where
  "is_cont b \<longleftrightarrow> 0x80 \<le> b \<and> b \<le> 0xBF"

text \<open>Decoding rejects stray or missing continuation bytes, overlong forms, surrogates and
  values above U+10FFFF, as \<open>str::from_utf8\<close> does.\<close>

fun from_utf8 :: "bytes \<Rightarrow> ustring option" where
  "from_utf8 [] = Some []"
| "from_utf8 (b # bs) =
     (if b < 0x80 then map_option ((#) b) (from_utf8 bs)
      else if 0xC2 \<le> b \<and> b \<le> 0xDF then
        (case bs of
           b1 # rest \<Rightarrow>
             if is_cont b1
             then map_option ((#) ((b - 0xC0) * 64 + (b1 - 0x80))) (from_utf8 rest)
             else None
         | _ \<Rightarrow> None)
      else if 0xE0 \<le> b \<and> b \<le> 0xEF then
        (case bs of
           b1 # b2 # rest \<Rightarrow>
             let c = (b - 0xE0) * 4096 + (b1 - 0x80) * 64 + (b2 - 0x80)
             in if is_cont b1 \<and> is_cont b2 \<and> 0x800 \<le> c \<and> is_scalar c
                then map_option ((#) c) (from_utf8 rest) else None
         | _ \<Rightarrow> None)
      else if 0xF0 \<le> b \<and> b \<le> 0xF4 then
        (case bs of
           b1 # b2 # b3 # rest \<Rightarrow>
             let c = (b - 0xF0) * 262144 + (b1 - 0x80) * 4096 + (b2 - 0x80) * 64 + (b3 - 0x80)
             in if is_cont b1 \<and> is_cont b2 \<and> is_cont b3 \<and> 0x10000 \<le> c \<and> is_scalar c
                then map_option ((#) c) (from_utf8 rest) else None
         | _ \<Rightarrow> None)
      else None)"

lemma utf8_simps [simp]:
  "utf8 [] = []"
  "utf8 (c # s) = utf8_char c @ utf8 s"
  "utf8 (s @ t) = utf8 s @ utf8 t"
  by (simp_all add: utf8_def)

lemma utf8_char_nonempty [simp]: "utf8_char c \<noteq> []"
  by (simp add: utf8_char_def)

lemma length_utf8_char_pos: "0 < length (utf8_char c)"
  by simp

lemma length_utf8: "length (utf8 s) = sum_list (map (\<lambda>c. length (utf8_char c)) s)"
  by (induction s) auto

lemma utf8_ascii: "\<forall>c \<in> set s. c < 0x80 \<Longrightarrow> utf8 s = s"
  by (induction s) (auto simp: utf8_char_def)

lemma utf8_lit_ascii: "\<forall>c \<in> set s. of_char c < (0x80 :: nat) \<Longrightarrow> utf8 (lit s) = lit s"
  by (rule utf8_ascii) (auto simp: lit_def)

lemma sextets_reassemble:
  fixes c :: nat
  shows "c div 64 * 64 + c mod 64 = c"
    and "c div 4096 * 4096 + c div 64 mod 64 * 64 + c mod 64 = c"
    and "c div 262144 * 262144 + c div 4096 mod 64 * 4096 + c div 64 mod 64 * 64 + c mod 64 = c"
proof -
  have "c div 4096 = c div 64 div 64" using div_mult2_eq [of c 64 64] by simp
  then have 1: "c div 64 = 64 * (c div 4096) + c div 64 mod 64" by simp
  have "c div 262144 = c div 4096 div 64" using div_mult2_eq [of c 4096 64] by simp
  then have 2: "c div 4096 = 64 * (c div 262144) + c div 4096 mod 64" by simp
  show 3: "c div 64 * 64 + c mod 64 = c" by simp
  from 1 3 show 4: "c div 4096 * 4096 + c div 64 mod 64 * 64 + c mod 64 = c" by linarith
  from 2 4 show "c div 262144 * 262144 + c div 4096 mod 64 * 4096 + c div 64 mod 64 * 64
    + c mod 64 = c" by linarith
qed

lemma from_utf8_utf8_char:
  assumes "is_scalar c"
  shows "from_utf8 (utf8_char c @ bs) = map_option ((#) c) (from_utf8 bs)"
proof -
  have low: "c mod 64 \<le> 63" "c div 64 mod 64 \<le> 63" "c div 4096 mod 64 \<le> 63" by linarith+
  note facts = low assms sextets_reassemble [of c]
  consider "c < 0x80" | "0x80 \<le> c" "c < 0x800" | "0x800 \<le> c" "c < 0x10000"
    | "0x10000 \<le> c" "c \<le> 0x10FFFF"
    using assms by (auto simp: is_scalar_def) linarith+
  then show ?thesis
  proof cases
    case 1
    then show ?thesis by (simp add: utf8_char_def)
  next
    case 2
    then have "utf8_char c = [0xC0 + c div 64, 0x80 + c mod 64]" by (simp add: utf8_char_def)
    moreover from 2 have "2 \<le> c div 64" "c div 64 \<le> 31" by auto
    ultimately show ?thesis using facts by (simp add: is_cont_def)
  next
    case 3
    then have "c div 4096 < 16" by auto
    with 3 facts show ?thesis by (simp add: utf8_char_def is_cont_def Let_def)
  next
    case 4
    then have "c div 262144 \<le> 4" by auto
    with 4 facts show ?thesis by (simp add: utf8_char_def is_cont_def Let_def)
  qed
qed

lemma from_utf8_utf8 [simp]: "valid_str s \<Longrightarrow> from_utf8 (utf8 s) = Some s"
  by (induction s) (simp_all add: from_utf8_utf8_char)

lemma utf8_inj: "valid_str s \<Longrightarrow> valid_str t \<Longrightarrow> utf8 s = utf8 t \<Longrightarrow> s = t"
  by (metis from_utf8_utf8 option.inject)

lemma from_utf8_valid: "from_utf8 bs = Some s \<Longrightarrow> valid_str s"
proof (induction bs arbitrary: s rule: from_utf8.induct)
  case 1
  then show ?case by simp
next
  case (2 b bs)
  show ?case
    using "2.prems" "2.IH"
    by (auto simp: Let_def is_scalar_def is_cont_def split: if_splits list.splits)
qed

lemma from_utf8_length: "from_utf8 bs = Some s \<Longrightarrow> length s \<le> length bs"
proof (induction bs arbitrary: s rule: from_utf8.induct)
  case (2 b bs)
  show ?case
    using "2.prems" "2.IH" by (fastforce simp: Let_def split: if_splits list.splits)
qed simp

lemma length_utf8_le: "length (utf8 s) \<le> 4 * length s"
  by (induction s) (auto simp: utf8_char_def)

section \<open>UTF-16\<close>

definition utf16_char :: "uchar \<Rightarrow> nat list" where
  "utf16_char c =
     (if c < 0x10000 then [c]
      else [0xD800 + (c - 0x10000) div 1024, 0xDC00 + (c - 0x10000) mod 1024])"

definition encode_utf16 :: "ustring \<Rightarrow> nat list" where
  "encode_utf16 s = concat (map utf16_char s)"

lemma encode_utf16_simps [simp]:
  "encode_utf16 [] = []"
  "encode_utf16 (c # s) = utf16_char c @ encode_utf16 s"
  by (simp_all add: encode_utf16_def)

lemma utf16_char_prefix_free:
  assumes "is_scalar c" "is_scalar d" "utf16_char c @ us = utf16_char d @ vs"
  shows "c = d \<and> us = vs"
proof -
  have inj: "x = y" if "x div 1024 = y div 1024" "x mod 1024 = y mod 1024" for x y :: nat
    using that by (metis div_mult_mod_eq)
  have hi: "(x - 0x10000) div 1024 < 1024" if "is_scalar x" for x
    using that by (auto simp: is_scalar_def)
  show ?thesis
    using assms inj [of "c - 0x10000" "d - 0x10000"] hi [of c] hi [of d]
    by (auto simp: utf16_char_def is_scalar_def split: if_splits)
qed

lemma encode_utf16_inj:
  "valid_str s \<Longrightarrow> valid_str t \<Longrightarrow> encode_utf16 s = encode_utf16 t \<Longrightarrow> s = t"
proof (induction s arbitrary: t)
  case Nil
  then show ?case by (cases t) (auto simp: utf16_char_def split: if_splits)
next
  case (Cons c s)
  show ?case
  proof (cases t)
    case Nil
    with Cons.prems show ?thesis by (auto simp: utf16_char_def split: if_splits)
  next
    case (Cons d t')
    with Cons.prems utf16_char_prefix_free [of c d "encode_utf16 s" "encode_utf16 t'"]
    have "c = d" and "encode_utf16 s = encode_utf16 t'" by auto
    with Cons Cons.prems Cons.IH show ?thesis by auto
  qed
qed

section \<open>Length-prefixed string fields\<close>

text \<open>\<open>format!("{}:{}", s.len(), s)\<close>: the byte length, a colon and the field.\<close>

definition prefixed_field :: "ustring \<Rightarrow> ustring" where
  "prefixed_field s = dec (length (utf8 s)) @ [58] @ s"

lemma prefixed_field_unique:
  assumes "prefixed_field s @ us = prefixed_field t @ vs"
  shows "s = t \<and> us = vs"
proof -
  have "\<not> is_digit 58" by (simp add: is_digit_def)
  moreover from assms
  have "dec (length (utf8 s)) @ 58 # (s @ us) = dec (length (utf8 t)) @ 58 # (t @ vs)"
    by (simp add: prefixed_field_def)
  ultimately have "length (utf8 s) = length (utf8 t)" and "s @ us = t @ vs"
    using dec_sep_unique by blast+
  then show ?thesis
    using weighted_prefix_unique [of s us t vs "\<lambda>c. length (utf8_char c)"]
    by (simp add: length_utf8)
qed

end
