(* ===== verification/Mcps_Error.thy ===== *)
theory Mcps_Error
  imports Unicode_Text
begin

text \<open>
  The frozen vocabulary of MCP-S Core: the error taxonomy with its wire tokens
  (\<open>error.rs\<close>), the identifiers that live inside signed \<open>_meta\<close> keys (\<open>ids.rs\<close>)
  and the audit events derived from the taxonomy (\<open>audit.rs\<close>).
\<close>

section \<open>Error taxonomy\<close>

datatype mcps_error =
    MissingEnvelope
  | UnsupportedVersion
  | InvalidSignature
  | CanonicalizationFailed
  | ExpiredRequest
  | ReplayDetected
  | InvalidAudience
  | ActorBindingFailed
  | TransportBindingFailed
  | AuthorizationHashMissing
  | OnBehalfOfMissing
  | OnBehalfOfInvalidFormat
  | ResponseSigInvalid
  | ResponseHashMismatch
  | DowngradeForbidden
  | BatchForbidden
  | NotificationForbidden
  | UnknownEnvelopeField
  | TrustResolverUnavailable
  | ReplayCacheUnavailable
  | CanonicalizationIdMissing
  | CanonicalizationIdUnknown
  | CanonicalizationIdNotAllowed
  | CanonicalizationIdMismatch
  | AuthorizationBindingMissing
  | AuthorizationBindingTypeUnsupported
  | AuthorizationBindingMalformed
  | AuthorizationBindingProfileRequired
  | AuthorizationBindingAmbiguousBytes

type_synonym 'a mcps_result = "mcps_error + 'a"

primrec wire_code :: "mcps_error \<Rightarrow> ustring" where
  "wire_code MissingEnvelope = lit ''mcps.missing_envelope''"
| "wire_code UnsupportedVersion = lit ''mcps.unsupported_version''"
| "wire_code InvalidSignature = lit ''mcps.invalid_signature''"
| "wire_code CanonicalizationFailed = lit ''mcps.canonicalization_failed''"
| "wire_code ExpiredRequest = lit ''mcps.expired_request''"
| "wire_code ReplayDetected = lit ''mcps.replay_detected''"
| "wire_code InvalidAudience = lit ''mcps.invalid_audience''"
| "wire_code ActorBindingFailed = lit ''mcps.actor_binding_failed''"
| "wire_code TransportBindingFailed = lit ''mcps.transport_binding_failed''"
| "wire_code AuthorizationHashMissing = lit ''mcps.authorization_hash_missing''"
| "wire_code OnBehalfOfMissing = lit ''mcps.on_behalf_of_missing''"
| "wire_code OnBehalfOfInvalidFormat = lit ''mcps.on_behalf_of_invalid_format''"
| "wire_code ResponseSigInvalid = lit ''mcps.response_sig_invalid''"
| "wire_code ResponseHashMismatch = lit ''mcps.response_hash_mismatch''"
| "wire_code DowngradeForbidden = lit ''mcps.downgrade_forbidden''"
| "wire_code BatchForbidden = lit ''mcps.batch_forbidden''"
| "wire_code NotificationForbidden = lit ''mcps.notification_forbidden''"
| "wire_code UnknownEnvelopeField = lit ''mcps.unknown_envelope_field''"
| "wire_code TrustResolverUnavailable = lit ''mcps.trust_resolver_unavailable''"
| "wire_code ReplayCacheUnavailable = lit ''mcps.replay_cache_unavailable''"
| "wire_code CanonicalizationIdMissing = lit ''mcps.canonicalization_id_missing''"
| "wire_code CanonicalizationIdUnknown = lit ''mcps.canonicalization_id_unknown''"
| "wire_code CanonicalizationIdNotAllowed = lit ''mcps.canonicalization_id_not_allowed''"
| "wire_code CanonicalizationIdMismatch = lit ''mcps.canonicalization_id_mismatch''"
| "wire_code AuthorizationBindingMissing = lit ''mcps.authorization_binding_missing''"
| "wire_code AuthorizationBindingTypeUnsupported =
     lit ''mcps.authorization_binding_type_unsupported''"
| "wire_code AuthorizationBindingMalformed = lit ''mcps.authorization_binding_malformed''"
| "wire_code AuthorizationBindingProfileRequired =
     lit ''mcps.authorization_binding_profile_required''"
| "wire_code AuthorizationBindingAmbiguousBytes =
     lit ''mcps.authorization_binding_ambiguous_bytes''"

section \<open>Frozen identifiers\<close>

definition EXTENSION_ID :: ustring where
  "EXTENSION_ID = lit ''se.syncom/mcps''"

definition REQUEST_META_KEY :: ustring where
  "REQUEST_META_KEY = lit ''se.syncom/mcps.request''"

definition RESPONSE_META_KEY :: ustring where
  "RESPONSE_META_KEY = lit ''se.syncom/mcps.response''"

definition VERIFIED_META_KEY :: ustring where
  "VERIFIED_META_KEY = lit ''se.syncom/mcps.verified''"

definition VERSION_DRAFT_01 :: ustring where
  "VERSION_DRAFT_01 = lit ''draft-01''"

definition VERSION_DRAFT_02 :: ustring where
  "VERSION_DRAFT_02 = lit ''draft-02''"

definition CANONICALIZATION_ID_INT53_V1 :: ustring where
  "CANONICALIZATION_ID_INT53_V1 = lit ''mcps-jcs-int53-json-v1''"

definition DRAFT_02_CANONICALIZATION_ALLOWLIST :: "ustring list" where
  "DRAFT_02_CANONICALIZATION_ALLOWLIST = [CANONICALIZATION_ID_INT53_V1]"

definition SIG_ALG_ED25519 :: ustring where
  "SIG_ALG_ED25519 = lit ''Ed25519''"

definition BINDING_TYPE_OPAQUE_BYTES :: ustring where
  "BINDING_TYPE_OPAQUE_BYTES = lit ''opaque-bytes''"

definition BINDING_TYPE_AUTHZ_SYSTEM_REFERENCE :: ustring where
  "BINDING_TYPE_AUTHZ_SYSTEM_REFERENCE = lit ''authz-system-reference''"

definition DIGEST_ALG_SHA256 :: ustring where
  "DIGEST_ALG_SHA256 = lit ''sha256''"

definition RESPONSE_WRAP_VALUE_KEY :: ustring where
  "RESPONSE_WRAP_VALUE_KEY = lit ''value''"

definition RESPONSE_WRAP_INNER_ERROR_KEY :: ustring where
  "RESPONSE_WRAP_INNER_ERROR_KEY = lit ''inner_error''"

definition OBSERVABILITY_META_KEYS :: "ustring list" where
  "OBSERVABILITY_META_KEYS = [lit ''traceparent'', lit ''tracestate'', lit ''baggage'']"

lemmas [const_defs] =
  EXTENSION_ID_def REQUEST_META_KEY_def RESPONSE_META_KEY_def VERIFIED_META_KEY_def
  VERSION_DRAFT_01_def VERSION_DRAFT_02_def CANONICALIZATION_ID_INT53_V1_def
  DRAFT_02_CANONICALIZATION_ALLOWLIST_def SIG_ALG_ED25519_def BINDING_TYPE_OPAQUE_BYTES_def
  BINDING_TYPE_AUTHZ_SYSTEM_REFERENCE_def DIGEST_ALG_SHA256_def RESPONSE_WRAP_VALUE_KEY_def
  RESPONSE_WRAP_INNER_ERROR_KEY_def OBSERVABILITY_META_KEYS_def

section \<open>Audit events\<close>

definition REQUEST_ACCEPTED :: ustring where
  "REQUEST_ACCEPTED = lit ''mcps.request.accepted''"

definition RESPONSE_SIGNED :: ustring where
  "RESPONSE_SIGNED = lit ''mcps.response.signed''"

definition REQUEST_REJECTED :: ustring where
  "REQUEST_REJECTED = lit ''mcps.request.rejected''"

definition RESPONSE_REJECTED :: ustring where
  "RESPONSE_REJECTED = lit ''mcps.response.rejected''"

definition SUCCESS_EVENT_TYPES :: "ustring list" where
  "SUCCESS_EVENT_TYPES = [REQUEST_ACCEPTED, RESPONSE_SIGNED]"

definition REJECTION_EVENT_TYPES :: "ustring list" where
  "REJECTION_EVENT_TYPES = [REQUEST_REJECTED, RESPONSE_REJECTED]"

lemmas [const_defs] = REQUEST_ACCEPTED_def RESPONSE_SIGNED_def REQUEST_REJECTED_def
  RESPONSE_REJECTED_def SUCCESS_EVENT_TYPES_def REJECTION_EVENT_TYPES_def

definition rejection_reason :: "mcps_error \<Rightarrow> ustring" where
  "rejection_reason err = wire_code err"

primrec reason_label :: "mcps_error \<Rightarrow> ustring" where
  "reason_label MissingEnvelope = lit ''Missing MCP-S envelope''"
| "reason_label UnsupportedVersion = lit ''Unsupported envelope version''"
| "reason_label InvalidSignature = lit ''Invalid signature''"
| "reason_label CanonicalizationFailed = lit ''Canonicalization failed''"
| "reason_label ExpiredRequest = lit ''Expired request''"
| "reason_label ReplayDetected = lit ''Replay detected''"
| "reason_label InvalidAudience = lit ''Invalid audience''"
| "reason_label ActorBindingFailed = lit ''Signer trust binding failed''"
| "reason_label TransportBindingFailed = lit ''Transport binding failed''"
| "reason_label AuthorizationHashMissing = lit ''Authorization hash missing''"
| "reason_label OnBehalfOfMissing = lit ''on_behalf_of missing''"
| "reason_label OnBehalfOfInvalidFormat = lit ''on_behalf_of malformed''"
| "reason_label ResponseSigInvalid = lit ''Invalid response signature''"
| "reason_label ResponseHashMismatch = lit ''Response/request hash mismatch''"
| "reason_label DowngradeForbidden = lit ''Security downgrade forbidden''"
| "reason_label BatchForbidden = lit ''JSON-RPC batch forbidden''"
| "reason_label NotificationForbidden = lit ''Security notification forbidden''"
| "reason_label UnknownEnvelopeField = lit ''Unknown envelope field''"
| "reason_label TrustResolverUnavailable = lit ''Trust resolver unavailable''"
| "reason_label ReplayCacheUnavailable = lit ''Replay cache unavailable''"
| "reason_label CanonicalizationIdMissing = lit ''canonicalization_id missing''"
| "reason_label CanonicalizationIdUnknown = lit ''canonicalization_id unknown''"
| "reason_label CanonicalizationIdNotAllowed = lit ''canonicalization_id not allowed by profile''"
| "reason_label CanonicalizationIdMismatch = lit ''canonicalization_id mismatch''"
| "reason_label AuthorizationBindingMissing = lit ''authorization_binding missing''"
| "reason_label AuthorizationBindingTypeUnsupported = lit ''authorization_binding type unsupported''"
| "reason_label AuthorizationBindingMalformed = lit ''authorization_binding malformed''"
| "reason_label AuthorizationBindingProfileRequired = lit ''authorization_binding profile required''"
| "reason_label AuthorizationBindingAmbiguousBytes = lit ''authorization_binding ambiguous bytes''"

datatype audit_decision = Accepted | Signed | Rejected

record audit_event =
  ae_event_type :: ustring
  ae_decision :: audit_decision
  ae_reason :: "ustring option"
  ae_reason_label :: "ustring option"

definition request_accepted :: audit_event where
  "request_accepted = \<lparr>ae_event_type = REQUEST_ACCEPTED, ae_decision = Accepted,
     ae_reason = None, ae_reason_label = None\<rparr>"

definition response_signed :: audit_event where
  "response_signed = \<lparr>ae_event_type = RESPONSE_SIGNED, ae_decision = Signed,
     ae_reason = None, ae_reason_label = None\<rparr>"

definition request_rejected :: "mcps_error \<Rightarrow> audit_event" where
  "request_rejected err = \<lparr>ae_event_type = REQUEST_REJECTED, ae_decision = Rejected,
     ae_reason = Some (rejection_reason err), ae_reason_label = Some (reason_label err)\<rparr>"

definition response_rejected :: "mcps_error \<Rightarrow> audit_event" where
  "response_rejected err = \<lparr>ae_event_type = RESPONSE_REJECTED, ae_decision = Rejected,
     ae_reason = Some (rejection_reason err), ae_reason_label = Some (reason_label err)\<rparr>"

section \<open>The wire tokens identify the errors\<close>

definition all_errors :: "mcps_error list" where
  "all_errors = [MissingEnvelope, UnsupportedVersion, InvalidSignature, CanonicalizationFailed,
     ExpiredRequest, ReplayDetected, InvalidAudience, ActorBindingFailed, TransportBindingFailed,
     AuthorizationHashMissing, OnBehalfOfMissing, OnBehalfOfInvalidFormat, ResponseSigInvalid,
     ResponseHashMismatch, DowngradeForbidden, BatchForbidden, NotificationForbidden,
     UnknownEnvelopeField, TrustResolverUnavailable, ReplayCacheUnavailable,
     CanonicalizationIdMissing, CanonicalizationIdUnknown, CanonicalizationIdNotAllowed,
     CanonicalizationIdMismatch, AuthorizationBindingMissing,
     AuthorizationBindingTypeUnsupported, AuthorizationBindingMalformed,
     AuthorizationBindingProfileRequired, AuthorizationBindingAmbiguousBytes]"

lemma all_errors_complete: "err \<in> set all_errors"
  by (cases err) (simp_all add: all_errors_def)

lemma wire_codes_distinct: "distinct (map wire_code all_errors)"
  by (simp add: all_errors_def)

lemma wire_code_eq_iff: "wire_code a = wire_code b \<longleftrightarrow> a = b"
proof
  assume "wire_code a = wire_code b"
  moreover have "inj_on wire_code (set all_errors)"
    using wire_codes_distinct by (simp add: distinct_map)
  ultimately show "a = b" using all_errors_complete by (auto dest: inj_onD)
qed simp

lemma wire_code_not_event: "wire_code err \<notin> set SUCCESS_EVENT_TYPES \<union> set REJECTION_EVENT_TYPES"
  by (cases err) (simp_all add: const_defs)

lemma lit_prefix_iff [simp]: "prefix (lit s) (lit t) \<longleftrightarrow> prefix s t"
proof (induction s arbitrary: t)
  case (Cons c s)
  then show ?case by (cases t) (auto simp: lit_def)
qed simp

lemma wire_code_namespaced: "prefix (lit ''mcps.'') (wire_code err)"
  by (cases err) simp_all

section \<open>Properties\<close>

text \<open>
  an audit rejection identifies the error it reports: the reason is a token of the
  \<open>mcps.\<close> namespace, differs for different errors, and is never one of the event types, so no
  rejection reason can be read as a success event.
\<close>

theorem audit_reason_identifies_error:
  "(ae_reason (request_rejected a) = ae_reason (request_rejected b) \<longleftrightarrow> a = b) \<and>
   (ae_reason (response_rejected a) = ae_reason (response_rejected b) \<longleftrightarrow> a = b) \<and>
   prefix (lit ''mcps.'') (rejection_reason a) \<and>
   rejection_reason a \<notin> set SUCCESS_EVENT_TYPES \<union> set REJECTION_EVENT_TYPES \<and>
   ae_reason request_accepted = None \<and> ae_reason response_signed = None"
  using wire_code_not_event [of a] wire_code_namespaced [of a]
  by (simp add: request_rejected_def response_rejected_def request_accepted_def response_signed_def
      rejection_reason_def wire_code_eq_iff)

end
