(* ===== verification/Timestamps.thy ===== *)
theory Timestamps
  imports Mcps_Error
begin

text \<open>
  \<open>mcps-core/src/time.rs\<close>: the strict RFC 3339 UTC parser, the freshness window, and
  the formatter that is its inverse. The calendar arithmetic is proved against an
  independent description of the Gregorian calendar (the successor of a date), so the
  Unix seconds the verifier compares are the ones the timestamp denotes.
\<close>

section \<open>Definitions\<close>

definition DAYS_IN_MONTH :: "int list" where
  "DAYS_IN_MONTH = [31, 28, 31, 30, 31, 30, 31, 31, 30, 31, 30, 31]"

definition is_leap_year :: "int \<Rightarrow> bool" where
  "is_leap_year year \<longleftrightarrow>
     (rrem year 4 = 0 \<and> rrem year 100 \<noteq> 0) \<or> rrem year 400 = 0"

definition parse_fixed_digits :: "bytes \<Rightarrow> nat \<Rightarrow> nat \<Rightarrow> int option" where
  "parse_fixed_digits bs start n =
     (if start + n > length bs then None
      else let ds = take n (drop start bs)
           in if list_all is_digit ds then Some (int (digits_value 0 ds)) else None)"

definition days_from_civil :: "int \<Rightarrow> int \<Rightarrow> int \<Rightarrow> int" where
  "days_from_civil year month day =
     (let y = (if month \<le> 2 then year - 1 else year);
          era = rdiv (if y \<ge> 0 then y else y - 399) 400;
          yoe = y - era * 400;
          doy = rdiv (153 * (if month > 2 then month - 3 else month + 9) + 2) 5 + day - 1;
          doe = yoe * 365 + rdiv yoe 4 - rdiv yoe 100 + doy
      in era * 146097 + doe - 719468)"

definition fraction_ok :: "bytes \<Rightarrow> bool" where
  "fraction_ok tail =
     (if tail = [90] then True
      else if tail \<noteq> [] \<and> hd tail = 46 then
        (let frac = tl tail
         in frac \<noteq> [] \<and> last frac = 90 \<and> butlast frac \<noteq> [] \<and> list_all is_digit (butlast frac))
      else False)"

definition max_day :: "int \<Rightarrow> int \<Rightarrow> int" where
  "max_day year month =
     (if month = 2 \<and> is_leap_year year then 29 else DAYS_IN_MONTH ! nat (month - 1))"

definition parse_rfc3339_utc :: "ustring \<Rightarrow> int mcps_result" where
  "parse_rfc3339_utc s =
     (let bs = utf8 s in
      if length bs < 20 then Err ExpiredRequest
      else if bs ! 4 \<noteq> 45 \<or> bs ! 7 \<noteq> 45 \<or> bs ! 10 \<noteq> 84 \<or> bs ! 13 \<noteq> 58 \<or> bs ! 16 \<noteq> 58
      then Err ExpiredRequest
      else
        (case (parse_fixed_digits bs 0 4, parse_fixed_digits bs 5 2, parse_fixed_digits bs 8 2,
               parse_fixed_digits bs 11 2, parse_fixed_digits bs 14 2, parse_fixed_digits bs 17 2) of
           (Some year, Some month, Some day, Some hour, Some minute, Some second) \<Rightarrow>
             if \<not> fraction_ok (drop 19 bs) then Err ExpiredRequest
             else if \<not> (1 \<le> month \<and> month \<le> 12) then Err ExpiredRequest
             else if day < 1 \<or> day > max_day year month then Err ExpiredRequest
             else if hour > 23 \<or> minute > 59 \<or> second > 59 then Err ExpiredRequest
             else Ok (days_from_civil year month day * 86400 + hour * 3600 + minute * 60 + second)
         | _ \<Rightarrow> Err ExpiredRequest))"

definition check_freshness :: "ustring \<Rightarrow> ustring \<Rightarrow> int \<Rightarrow> int \<Rightarrow> unit mcps_result" where
  "check_freshness issued_at expires_at now_unix max_clock_skew_secs =
     and_then (parse_rfc3339_utc issued_at) (\<lambda>issued.
     and_then (parse_rfc3339_utc expires_at) (\<lambda>expires.
       if expires < issued then Err ExpiredRequest
       else let lower = saturating_sub issued max_clock_skew_secs;
                upper = saturating_add expires max_clock_skew_secs
            in if now_unix < lower \<or> now_unix > upper then Err ExpiredRequest else Ok ()))"

definition civil_from_days :: "int \<Rightarrow> int \<times> int \<times> int" where
  "civil_from_days z0 =
     (let z = z0 + 719468;
          era = rdiv (if z \<ge> 0 then z else z - 146096) 146097;
          doe = z - era * 146097;
          yoe = rdiv (doe - rdiv doe 1460 + rdiv doe 36524 - rdiv doe 146096) 365;
          y = yoe + era * 400;
          doy = doe - (365 * yoe + rdiv yoe 4 - rdiv yoe 100);
          mp = rdiv (5 * doy + 2) 153;
          d = doy - rdiv (153 * mp + 2) 5 + 1;
          m = (if mp < 10 then mp + 3 else mp - 9)
      in (if m \<le> 2 then y + 1 else y, m, d))"

text \<open>\<open>{:0w}\<close>: decimal, zero-padded to \<open>w\<close> characters, the sign counted.\<close>

definition pad_dec :: "nat \<Rightarrow> nat \<Rightarrow> ustring" where
  "pad_dec w n = replicate (w - length (dec n)) 48 @ dec n"

definition fmt_int :: "nat \<Rightarrow> int \<Rightarrow> ustring" where
  "fmt_int w i = (if i < 0 then 45 # pad_dec (w - 1) (nat (- i)) else pad_dec w (nat i))"

definition unix_to_rfc3339_utc :: "int \<Rightarrow> ustring" where
  "unix_to_rfc3339_utc unix =
     (let days = unix div 86400;
          secs = unix mod 86400;
          (year, month, day) = civil_from_days days;
          hh = rdiv secs 3600;
          mm = rdiv (rrem secs 3600) 60;
          ss = rrem secs 60
      in fmt_int 4 year @ [45] @ fmt_int 2 month @ [45] @ fmt_int 2 day @ [84] @
         fmt_int 2 hh @ [58] @ fmt_int 2 mm @ [58] @ fmt_int 2 ss @ [90])"

section \<open>The Gregorian calendar as a reference\<close>

definition valid_date :: "int \<Rightarrow> int \<Rightarrow> int \<Rightarrow> bool" where
  "valid_date y m d \<longleftrightarrow> 1 \<le> m \<and> m \<le> 12 \<and> 1 \<le> d \<and> d \<le> max_day y m"

definition next_date :: "int \<times> int \<times> int \<Rightarrow> int \<times> int \<times> int" where
  "next_date = (\<lambda>(y, m, d).
     if d < max_day y m then (y, m, d + 1)
     else if m < 12 then (y, m + 1, 1)
     else (y + 1, 1, 1))"

section \<open>Closed form of the day count\<close>

lemma rdiv_shifted_floor:
  fixes y :: int
  assumes "0 < n"
  shows "rdiv (if y \<ge> 0 then y else y - (n - 1)) n = y div n"
proof (cases "y \<ge> 0")
  case True
  then show ?thesis using assms by simp
next
  case False
  have r: "0 \<le> y mod n" "y mod n < n" using assms by simp_all
  have "(n - 1 - y) = n * (- (y div n)) + (n - 1 - y mod n)"
    using mult_div_mod_eq [of n y] by (simp add: algebra_simps)
  then have "(n - 1 - y) div n = - (y div n)"
    by (rule int_div_pos_eq) (use r in simp_all)
  then show ?thesis using False assms by (simp add: rdiv_neg algebra_simps)
qed

lemma rrem_eq_0_iff: "0 < n \<Longrightarrow> rrem y n = 0 \<longleftrightarrow> n dvd y"
proof (cases "y \<ge> 0")
  case False
  assume n: "0 < n"
  have "rrem y n = - ((- y) mod n)"
    using False n by (simp add: rrem_def rdiv_neg minus_mult_div_eq_mod [symmetric])
  then show ?thesis by (simp add: mod_eq_0_iff_dvd)
qed (simp add: mod_eq_0_iff_dvd)

lemma is_leap_year_iff: "is_leap_year y \<longleftrightarrow> (4 dvd y \<and> \<not> 100 dvd y) \<or> 400 dvd y"
  by (simp add: is_leap_year_def rrem_eq_0_iff)

definition year_days :: "int \<Rightarrow> int" where
  "year_days y = 365 * y + y div 4 - y div 100 + y div 400"

definition month_days :: "int \<Rightarrow> int" where
  "month_days mp = (153 * mp + 2) div 5"

lemma div_shift: "0 < n \<Longrightarrow> (r + n * k * q) div n = r div n + k * q" for r :: int
  by (simp add: mult.assoc)

lemma year_days_era:
  fixes r :: int
  assumes "0 \<le> r" "r < 400"
  shows "year_days (r + 400 * q) = q * 146097 + (365 * r + r div 4 - r div 100)"
  using assms div_shift [of 4 r 100 q] div_shift [of 100 r 4 q] div_shift [of 400 r 1 q]
  by (simp add: year_days_def)

lemma days_from_civil_closed:
  assumes "1 \<le> m" "m \<le> 12"
  shows "days_from_civil y m d =
    year_days (if m \<le> 2 then y - 1 else y) + month_days (if m > 2 then m - 3 else m + 9)
      + d - 1 - 719468"
proof -
  define y' where "y' = (if m \<le> 2 then y - 1 else y)"
  define mp where "mp = (if m > 2 then m - 3 else m + 9)"
  have mp: "0 \<le> mp" using assms by (simp add: mp_def)
  have era: "rdiv (if y' \<ge> 0 then y' else y' - 399) 400 = y' div 400"
    using rdiv_shifted_floor [of 400 y'] by (simp split: if_splits)
  have yoe: "y' - y' div 400 * 400 = y' mod 400" by (simp add: minus_div_mult_eq_mod)
  have "year_days y' = year_days (y' mod 400 + 400 * (y' div 400))" by simp
  also have "\<dots> = (y' div 400) * 146097
      + (365 * (y' mod 400) + y' mod 400 div 4 - y' mod 400 div 100)"
    by (rule year_days_era) simp_all
  finally have yd: "year_days y' = \<dots>" .
  have m4: "rdiv (y' mod 400) 4 = y' mod 400 div 4" and m100: "rdiv (y' mod 400) 100 = y' mod 400 div 100"
    and md: "rdiv (153 * mp + 2) 5 = month_days mp"
    using mp by (simp_all add: month_days_def)
  show ?thesis
    unfolding days_from_civil_def Let_def y'_def [symmetric] mp_def [symmetric] era yoe m4 m100 md yd
    by (simp only: algebra_simps)
qed

text \<open>Consecutive days have consecutive numbers.\<close>

lemma div_succ:
  fixes y :: int
  assumes n: "0 < n"
  shows "(y + 1) div n = y div n + (if n dvd y + 1 then 1 else 0)"
proof -
  have r: "0 \<le> y mod n" "y mod n < n" using n by simp_all
  have y: "y + 1 = n * (y div n) + (y mod n + 1)" by simp
  show ?thesis
  proof (cases "y mod n + 1 = n")
    case True
    with y have y1: "y + 1 = n * (y div n + 1)" by (simp only: distrib_left mult_1_right)
    then have "n dvd y + 1" by (metis dvd_triv_left)
    moreover from y1 n have "(y + 1) div n = y div n + 1"
      by (simp only: nonzero_mult_div_cancel_left)
    ultimately show ?thesis by simp
  next
    case False
    with r have r1: "0 \<le> y mod n + 1" "y mod n + 1 < n" by linarith+
    from y r1 have "(y + 1) div n = y div n" by (rule int_div_pos_eq)
    moreover have "\<not> n dvd y + 1"
    proof
      assume "n dvd y + 1"
      then have "n dvd y mod n + 1" using y by (metis dvd_add_right_iff dvd_triv_left)
      with r r1 show False using zdvd_imp_le [of n "y mod n + 1"] by linarith
    qed
    ultimately show ?thesis by simp
  qed
qed

lemma year_days_step:
  "year_days (y + 1) = year_days y + (if is_leap_year (y + 1) then 366 else 365)"
proof -
  have dvds: "100 dvd y + 1 \<Longrightarrow> 4 dvd y + 1" "400 dvd y + 1 \<Longrightarrow> 100 dvd y + 1"
    by (rule dvd_trans [rotated], assumption, simp)+
  have steps: "(y + 1) div 4 = y div 4 + (if 4 dvd y + 1 then 1 else 0)"
    "(y + 1) div 100 = y div 100 + (if 100 dvd y + 1 then 1 else 0)"
    "(y + 1) div 400 = y div 400 + (if 400 dvd y + 1 then 1 else 0)"
    by (rule div_succ, simp)+
  show ?thesis
    unfolding year_days_def is_leap_year_iff using dvds steps by (smt (verit))
qed

lemma month_cases:
  fixes m :: int
  shows "1 \<le> m \<Longrightarrow> m \<le> 12 \<Longrightarrow> m = 1 \<or> m = 2 \<or> m = 3 \<or> m = 4 \<or> m = 5 \<or> m = 6 \<or> m = 7
    \<or> m = 8 \<or> m = 9 \<or> m = 10 \<or> m = 11 \<or> m = 12"
  by presburger

lemma days_from_civil_next:
  assumes "valid_date y m d" and "next_date (y, m, d) = (y', m', d')"
  shows "days_from_civil y' m' d' = days_from_civil y m d + 1"
proof -
  have m: "1 \<le> m" "m \<le> 12" using assms(1) by (simp_all add: valid_date_def)
  have "m' \<in> {1..12}" using assms m by (auto simp: next_date_def split: if_splits)
  then have m': "1 \<le> m'" "m' \<le> 12" by simp_all
  show ?thesis
    using month_cases [OF m] assms year_days_step [of "y - 1"]
    unfolding days_from_civil_closed [OF m] days_from_civil_closed [OF m'] valid_date_def
    by (elim disjE) (auto simp: next_date_def max_day_def DAYS_IN_MONTH_def month_days_def split: if_splits)
qed

section \<open>The formatter inverts the day count\<close>

text \<open>Within a 400-year era, the year of a day number: the estimate of \<open>civil_from_days\<close>
  is monotone, and right at the first and the last day of each year.\<close>

definition year_start :: "int \<Rightarrow> int" where
  "year_start k = 365 * k + k div 4 - k div 100"

definition year_estimate :: "int \<Rightarrow> int" where
  "year_estimate doe = doe - doe div 1460 + doe div 36524"

lemma year_estimate_mono:
  assumes "a \<le> b"
  shows "year_estimate a \<le> year_estimate b"
proof -
  have "b div 1460 - a div 1460 \<le> b - a"
  proof -
    have "b div 1460 \<le> (a + 1460 * (b - a)) div 1460" using assms by (intro zdiv_mono1) auto
    also have "\<dots> = a div 1460 + (b - a)" by simp
    finally show ?thesis by simp
  qed
  moreover have "a div 36524 \<le> b div 36524" using assms by (intro zdiv_mono1) auto
  ultimately show ?thesis by (simp add: year_estimate_def)
qed

lemma year_estimate_bounds:
  "\<forall>k \<in> set [1..399]. year_estimate (year_start k - 1) < 365 * k \<and> 365 * k \<le> year_estimate (year_start k)"
  by code_simp

definition year_of_era :: "int \<Rightarrow> int" where
  "year_of_era doe = (year_estimate doe - doe div 146096) div 365"

lemma year_of_era_within:
  assumes "0 \<le> doe" "doe \<le> 146095"
  shows "0 \<le> year_of_era doe" and "year_of_era doe \<le> 399"
    and "365 * year_of_era doe \<le> year_estimate doe"
    and "year_estimate doe < 365 * (year_of_era doe + 1)"
proof -
  have k: "year_of_era doe = year_estimate doe div 365"
    using assms by (simp add: year_of_era_def)
  have "year_estimate 0 \<le> year_estimate doe" "year_estimate doe \<le> year_estimate 146095"
    using assms by (intro year_estimate_mono; simp)+
  then show "0 \<le> year_of_era doe" "year_of_era doe \<le> 399"
    unfolding k by (auto simp: year_estimate_def)
  show "365 * year_of_era doe \<le> year_estimate doe"
    and "year_estimate doe < 365 * (year_of_era doe + 1)"
    unfolding k by (simp_all add: field_simps)
qed

lemma year_of_era_enclosed:
  assumes "0 \<le> doe" "doe \<le> 146095"
  shows "year_start (year_of_era doe) \<le> doe" and "doe < year_start (year_of_era doe + 1)"
proof -
  let ?k = "year_of_era doe"
  note k = year_of_era_within [OF assms]
  have step: "year_estimate (year_start j - 1) < 365 * j" "365 * j \<le> year_estimate (year_start j)"
    if "1 \<le> j" "j \<le> 399" for j
    using year_estimate_bounds that by auto
  show "year_start ?k \<le> doe"
  proof (rule ccontr)
    assume less: "\<not> year_start ?k \<le> doe"
    with assms k(1) have "1 \<le> ?k" by (cases "?k = 0") (auto simp: year_start_def)
    moreover have "year_estimate doe \<le> year_estimate (year_start ?k - 1)"
      using less by (intro year_estimate_mono) simp
    ultimately show False using step [of ?k] k by simp
  qed
  show "doe < year_start (?k + 1)"
  proof (cases "?k = 399")
    case True
    then show ?thesis using assms by (simp add: year_start_def)
  next
    case False
    show ?thesis
    proof (rule ccontr)
      assume "\<not> doe < year_start (?k + 1)"
      then have "year_estimate (year_start (?k + 1)) \<le> year_estimate doe"
        by (intro year_estimate_mono) simp
      then show False using step [of "?k + 1"] k False by simp
    qed
  qed
qed

lemma year_of_era_bounds:
  assumes "0 \<le> doe" "doe \<le> 146096"
  shows "0 \<le> year_of_era doe \<and> year_of_era doe \<le> 399 \<and> year_start (year_of_era doe) \<le> doe \<and>
    doe - year_start (year_of_era doe) \<le> (if is_leap_year (year_of_era doe + 1) then 365 else 364)"
proof (cases "doe = 146096")
  case True
  then have "year_of_era doe = 399" by (simp add: year_of_era_def year_estimate_def)
  with True show ?thesis by (simp add: year_start_def is_leap_year_iff)
next
  case False
  let ?k = "year_of_era doe"
  from False assms have doe: "0 \<le> doe" "doe \<le> 146095" by simp_all
  note k = year_of_era_within [OF doe] and encl = year_of_era_enclosed [OF doe]
  have "year_days ?k = year_start ?k" "?k \<noteq> 399 \<Longrightarrow> year_start (?k + 1) = year_days (?k + 1)"
    using k by (simp_all add: year_days_def year_start_def)
  then show ?thesis
    using k encl year_days_step [of ?k] doe
    by (cases "?k = 399") (auto simp: year_start_def split: if_splits)
qed

text \<open>The month and the day of a day of the March-based year.\<close>

definition march_month_len :: "int list" where
  "march_month_len = [31, 30, 31, 30, 31, 31, 30, 31, 30, 31, 31, 29]"

lemma month_of_year_day:
  "\<forall>doy \<in> set [0..365]. let mp = (5 * doy + 2) div 153; d = doy - (153 * mp + 2) div 5 + 1 in
     0 \<le> mp \<and> mp \<le> 11 \<and> 1 \<le> d \<and> d \<le> march_month_len ! nat mp \<and> (doy \<le> 364 \<longrightarrow> mp = 11 \<longrightarrow> d \<le> 28)"
  by code_simp

lemma march_month_cases:
  fixes mp :: int
  shows "0 \<le> mp \<Longrightarrow> mp \<le> 11 \<Longrightarrow> mp = 0 \<or> mp = 1 \<or> mp = 2 \<or> mp = 3 \<or> mp = 4 \<or> mp = 5 \<or> mp = 6
    \<or> mp = 7 \<or> mp = 8 \<or> mp = 9 \<or> mp = 10 \<or> mp = 11"
  by presburger

lemma is_leap_year_era: "is_leap_year (y + era * 400) \<longleftrightarrow> is_leap_year y"
proof -
  have "n dvd y + era * 400 \<longleftrightarrow> n dvd y" if "n dvd 400" for n :: int
    using that by (simp add: dvd_add_left_iff)
  then show ?thesis by (simp add: is_leap_year_iff)
qed

lemma march_date:
  fixes k era doy
  assumes k: "0 \<le> k" "k \<le> 399" and doy: "0 \<le> doy" "doy \<le> 365"
    and leap: "doy = 365 \<Longrightarrow> is_leap_year (k + 1)"
  defines "mp \<equiv> (5 * doy + 2) div 153"
  defines "m \<equiv> (if mp < 10 then mp + 3 else mp - 9)"
  defines "y \<equiv> (if m \<le> 2 then k + era * 400 + 1 else k + era * 400)"
  shows "valid_date y m (doy - month_days mp + 1)"
    and "days_from_civil y m (doy - month_days mp + 1) = era * 146097 + year_start k + doy - 719468"
proof -
  have "doy \<in> set [0..365]" using doy by simp
  from month_of_year_day [rule_format, OF this] have mp: "0 \<le> mp" "mp \<le> 11"
    and d: "1 \<le> doy - month_days mp + 1" "doy - month_days mp + 1 \<le> march_month_len ! nat mp"
    and feb: "doy \<le> 364 \<Longrightarrow> mp = 11 \<Longrightarrow> doy - month_days mp + 1 \<le> 28"
    unfolding Let_def mp_def [symmetric] month_days_def [symmetric] by auto
  have m: "1 \<le> m" "m \<le> 12" using mp by (auto simp: m_def)
  have "is_leap_year (k + era * 400 + 1)" if "doy = 365"
    using leap [OF that] is_leap_year_era [of "k + 1" era] by (simp add: algebra_simps)
  with feb doy have "\<not> is_leap_year (k + era * 400 + 1) \<Longrightarrow> mp = 11 \<Longrightarrow> doy - month_days mp + 1 \<le> 28"
    by (cases "doy = 365") auto
  then show "valid_date y m (doy - month_days mp + 1)"
    using march_month_cases [OF mp] d m unfolding valid_date_def y_def m_def
    by (elim disjE) (auto simp: max_day_def DAYS_IN_MONTH_def march_month_len_def)
  have "(if m \<le> 2 then y - 1 else y) = k + 400 * era" "(if m > 2 then m - 3 else m + 9) = mp"
    using mp by (auto simp: y_def m_def)
  then show "days_from_civil y m (doy - month_days mp + 1) =
      era * 146097 + year_start k + doy - 719468"
    using k by (simp add: days_from_civil_closed [OF m] year_days_era year_start_def)
qed

lemma civil_from_days_correct:
  assumes "civil_from_days z = (y, m, d)"
  shows "valid_date y m d \<and> days_from_civil y m d = z"
proof -
  define era doe where "era = (z + 719468) div 146097" and "doe = (z + 719468) mod 146097"
  define k where "k = year_of_era doe"
  define doy where "doy = doe - year_start k"
  have doe: "0 \<le> doe" "doe \<le> 146096"
    using pos_mod_bound [of 146097 "z + 719468"] by (auto simp: doe_def)
  have z: "z + 719468 = era * 146097 + doe" by (simp add: era_def doe_def)
  note yb = year_of_era_bounds [OF doe, folded k_def]
  then have k: "0 \<le> k" "k \<le> 399" and doy: "0 \<le> doy" "doy \<le> 365"
    and leap: "doy = 365 \<Longrightarrow> is_leap_year (k + 1)"
    by (auto simp: doy_def split: if_splits)
  have era': "rdiv (if z + 719468 \<ge> 0 then z + 719468 else z + 719468 - 146096) 146097 = era"
    using rdiv_shifted_floor [of 146097 "z + 719468"] by (simp add: era_def split: if_splits)
  have doe': "z + 719468 - era * 146097 = doe" using z by simp
  have "0 \<le> year_estimate doe - doe div 146096" using doe by (simp add: year_estimate_def)
  then have yoe: "rdiv (doe - rdiv doe 1460 + rdiv doe 36524 - rdiv doe 146096) 365 = k"
    using doe by (simp add: k_def year_of_era_def year_estimate_def)
  have doy': "doe - (365 * k + rdiv k 4 - rdiv k 100) = doy"
    using k by (simp add: doy_def year_start_def)
  have mp: "rdiv (5 * doy + 2) 153 = (5 * doy + 2) div 153"
    and md: "rdiv (153 * ((5 * doy + 2) div 153) + 2) 5 = month_days ((5 * doy + 2) div 153)"
    using doy by (simp_all add: month_days_def)
  have "era * 146097 + year_start k + doy - 719468 = z" using z by (simp add: doy_def)
  with march_date [OF k doy leap, of era] assms show ?thesis
    unfolding civil_from_days_def Let_def era' doe' yoe doy' mp md by auto
qed

section \<open>Fixed-width decimal fields\<close>

primrec fixed_dec :: "nat \<Rightarrow> nat \<Rightarrow> ustring" where
  "fixed_dec 0 v = []"
| "fixed_dec (Suc n) v = fixed_dec n (v div 10) @ [48 + v mod 10]"

lemma length_fixed_dec [simp]: "length (fixed_dec n v) = n"
  by (induction n arbitrary: v) auto

lemma fixed_dec_digits: "c \<in> set (fixed_dec n v) \<Longrightarrow> is_digit c"
proof (induction n arbitrary: v)
  case (Suc n)
  have "v mod 10 \<le> 9" by simp
  then have "is_digit (48 + v mod 10)" unfolding is_digit_def by linarith
  with Suc show ?case by auto
qed simp

lemma fixed_dec_zero [simp]: "fixed_dec n 0 = replicate n 48"
  by (induction n) (auto simp: replicate_append_same)

lemma pad_dec_fixed: "v < 10 ^ n \<Longrightarrow> 0 < n \<Longrightarrow> pad_dec n v = fixed_dec n v"
proof (induction n arbitrary: v)
  case (Suc n)
  show ?case
  proof (cases "v < 10")
    case True
    then show ?thesis
      by (cases n) (auto simp: pad_dec_def dec.simps [of v] replicate_append_same [symmetric])
  next
    case False
    with Suc.prems have n: "0 < n" by (cases n) auto
    have "v div 10 < 10 ^ n" using Suc.prems by (simp add: less_mult_imp_div_less)
    with Suc.IH n have "pad_dec n (v div 10) = fixed_dec n (v div 10)" by simp
    with False show ?thesis by (simp add: pad_dec_def dec.simps [of v])
  qed
qed simp

lemma digits_value_fixed_dec: "v < 10 ^ n \<Longrightarrow> digits_value 0 (fixed_dec n v) = v"
proof (induction n arbitrary: v)
  case (Suc n)
  then have "v div 10 < 10 ^ n" by (simp add: less_mult_imp_div_less)
  with Suc.IH show ?case by simp
qed simp

lemma fixed_dec_digits_value:
  "list_all is_digit ds \<Longrightarrow> fixed_dec (length ds) (digits_value 0 ds) = ds"
proof (induction ds rule: rev_induct)
  case (snoc c ds)
  then obtain e where c: "c = 48 + e" "e < 10" by (auto simp: is_digit_def le_iff_add)
  from snoc have "fixed_dec (length ds) (digits_value 0 ds) = ds" by simp
  with c show ?case by simp
qed simp

lemma digits_value_less: "list_all is_digit ds \<Longrightarrow> digits_value 0 ds < 10 ^ length ds"
proof (induction ds rule: rev_induct)
  case (snoc c ds)
  then have "c - 48 < 10" by (auto simp: is_digit_def)
  moreover have "digits_value 0 ds < 10 ^ length ds" using snoc by simp
  ultimately show ?case by simp
qed simp

lemma fmt_int_fixed: "0 \<le> i \<Longrightarrow> i < 10 ^ w \<Longrightarrow> 0 < w \<Longrightarrow> fmt_int w i = fixed_dec w (nat i)"
  by (simp add: fmt_int_def pad_dec_fixed nat_less_iff)

section \<open>The accepted timestamps\<close>

text \<open>\<open>timestamp y mo d h mi se frac\<close> is the text \<open>YYYY-MM-DDTHH:MM:SS\<close>, the fraction and \<open>Z\<close>.\<close>

definition timestamp :: "nat \<Rightarrow> nat \<Rightarrow> nat \<Rightarrow> nat \<Rightarrow> nat \<Rightarrow> nat \<Rightarrow> ustring \<Rightarrow> ustring" where
  "timestamp y mo d h mi se frac =
     fixed_dec 4 y @ [45] @ fixed_dec 2 mo @ [45] @ fixed_dec 2 d @ [84] @
     fixed_dec 2 h @ [58] @ fixed_dec 2 mi @ [58] @ fixed_dec 2 se @ frac @ [90]"

definition is_fraction :: "ustring \<Rightarrow> bool" where
  "is_fraction frac \<longleftrightarrow> frac = [] \<or> (frac \<noteq> [] \<and> hd frac = 46 \<and> tl frac \<noteq> [] \<and> list_all is_digit (tl frac))"

lemma fraction_ok_append: "is_fraction frac \<Longrightarrow> fraction_ok (frac @ [90])"
  by (auto simp: fraction_ok_def is_fraction_def Let_def butlast_append)

lemma fraction_ok_split:
  assumes "fraction_ok tail"
  obtains frac where "is_fraction frac" "tail = frac @ [90]"
proof (cases "tail = [90]")
  case True
  then show ?thesis by (intro that [of "[]"]) (auto simp: is_fraction_def)
next
  case False
  with assms obtain t where t: "tail = 46 # t" and "t \<noteq> []" "last t = 90" "butlast t \<noteq> []"
    "list_all is_digit (butlast t)"
    by (cases tail) (auto simp: fraction_ok_def Let_def split: if_splits)
  then have "t = butlast t @ [90]" using append_butlast_last_id [of t] by simp
  with t \<open>butlast t \<noteq> []\<close> \<open>list_all is_digit (butlast t)\<close> show ?thesis
    by (intro that [of "46 # butlast t"]) (auto simp: is_fraction_def)
qed

lemma hd_utf8_char: "0x80 \<le> c \<Longrightarrow> 0x80 \<le> hd (utf8_char c)"
  by (simp add: utf8_char_def)

lemma utf8_ascii_bytes: "\<forall>b \<in> set (utf8 s). b < 0x80 \<Longrightarrow> utf8 s = s"
proof (induction s)
  case (Cons c s)
  have "hd (utf8_char c) \<in> set (utf8 (c # s))" by (simp add: hd_in_set)
  with Cons.prems have "\<not> 0x80 \<le> hd (utf8_char c)" by (meson not_less)
  then have "c < 0x80" using hd_utf8_char [of c] by linarith
  then have "utf8_char c = [c]" by (simp add: utf8_char_def)
  with Cons show ?case by simp
qed simp

lemma nineteen_bytes:
  assumes "20 \<le> length bs"
  obtains b0 b1 b2 b3 b4 b5 b6 b7 b8 b9 b10 b11 b12 b13 b14 b15 b16 b17 b18 rest
  where "bs = b0 # b1 # b2 # b3 # b4 # b5 # b6 # b7 # b8 # b9 # b10 # b11 # b12 # b13 # b14 #
    b15 # b16 # b17 # b18 # rest" "rest \<noteq> []"
  using assms by (auto simp: numeral_eq_Suc Suc_le_length_iff)

lemma parse_fixed_digits_Some:
  "parse_fixed_digits bs i n = Some v \<longleftrightarrow>
     i + n \<le> length bs \<and> list_all is_digit (take n (drop i bs)) \<and>
     v = int (digits_value 0 (take n (drop i bs)))"
  by (auto simp: parse_fixed_digits_def Let_def)

lemma parse_rfc3339_utc_Ok:
  "parse_rfc3339_utc s = Ok t \<longleftrightarrow>
     (let bs = utf8 s in
      20 \<le> length bs \<and> bs ! 4 = 45 \<and> bs ! 7 = 45 \<and> bs ! 10 = 84 \<and> bs ! 13 = 58 \<and> bs ! 16 = 58 \<and>
      (\<exists>year month day hour minute second.
         parse_fixed_digits bs 0 4 = Some year \<and> parse_fixed_digits bs 5 2 = Some month \<and>
         parse_fixed_digits bs 8 2 = Some day \<and> parse_fixed_digits bs 11 2 = Some hour \<and>
         parse_fixed_digits bs 14 2 = Some minute \<and> parse_fixed_digits bs 17 2 = Some second \<and>
         fraction_ok (drop 19 bs) \<and> valid_date year month day \<and>
         hour \<le> 23 \<and> minute \<le> 59 \<and> second \<le> 59 \<and>
         t = days_from_civil year month day * 86400 + hour * 3600 + minute * 60 + second))"
  by (auto simp: parse_rfc3339_utc_def Let_def valid_date_def split: option.splits if_splits)

lemma nineteen_bytes_split:
  assumes "20 \<le> length bs"
  shows "bs = take 4 bs @ [bs ! 4] @ take 2 (drop 5 bs) @ [bs ! 7] @ take 2 (drop 8 bs) @ [bs ! 10] @
    take 2 (drop 11 bs) @ [bs ! 13] @ take 2 (drop 14 bs) @ [bs ! 16] @ take 2 (drop 17 bs) @ drop 19 bs"
  by (rule nineteen_bytes [OF assms]) (simp add: numeral_eq_Suc)

lemma parse_fixed_digits_field:
  assumes "parse_fixed_digits bs i n = Some v" "n = Suc m"
  obtains k where "v = int k" "k < 10 ^ n" "take n (drop i bs) = fixed_dec n k"
proof -
  let ?ds = "take n (drop i bs)"
  from assms have "length ?ds = n" "list_all is_digit ?ds" "v = int (digits_value 0 ?ds)"
    by (auto simp: parse_fixed_digits_Some)
  then show thesis
    using that fixed_dec_digits_value [of ?ds] digits_value_less [of ?ds] by metis
qed

lemma parse_fixed_digits_at:
  "take n (drop i bs) = fixed_dec n k \<Longrightarrow> i + n \<le> length bs \<Longrightarrow> k < 10 ^ n \<Longrightarrow>
    parse_fixed_digits bs i n = Some (int k)"
  by (auto simp: parse_fixed_digits_Some digits_value_fixed_dec list_all_iff dest: fixed_dec_digits)

lemma timestamp_chars:
  assumes "is_fraction frac"
  shows "\<forall>c \<in> set (timestamp y mo d h mi se frac). c < 0x80"
proof -
  have "c < 0x80" if "is_digit c" for c using that by (simp add: is_digit_def)
  moreover have "\<forall>c \<in> set frac. c = 46 \<or> is_digit c"
    using assms by (cases frac) (auto simp: is_fraction_def list_all_iff)
  ultimately show ?thesis
    by (auto simp: timestamp_def dest!: fixed_dec_digits)
qed

lemmas timestamp_ascii = utf8_ascii [OF timestamp_chars]

definition denotes :: "ustring \<Rightarrow> int \<Rightarrow> bool" where
  "denotes s t \<longleftrightarrow> (\<exists>y mo d h mi se frac.
     s = timestamp y mo d h mi se frac \<and> is_fraction frac \<and>
     y < 10000 \<and> valid_date (int y) (int mo) (int d) \<and> h < 24 \<and> mi < 60 \<and> se < 60 \<and>
     t = days_from_civil (int y) (int mo) (int d) * 86400 + int h * 3600 + int mi * 60 + int se)"

lemma valid_date_day: "valid_date y m d \<Longrightarrow> d \<le> 31"
  unfolding valid_date_def using month_cases[of m] by (auto simp: max_day_def DAYS_IN_MONTH_def split: if_splits)

lemma denotes_parse:
  assumes "denotes s t"
  shows "parse_rfc3339_utc s = Ok t"
proof -
  from assms obtain y mo d h mi se frac where s: "s = timestamp y mo d h mi se frac"
    and f: "is_fraction frac" and r: "y < 10000" "h < 24" "mi < 60" "se < 60"
    and v: "valid_date (int y) (int mo) (int d)"
    and t: "t = days_from_civil (int y) (int mo) (int d) * 86400 + int h * 3600 + int mi * 60 + int se"
    by (auto simp: denotes_def)
  have r2: "mo < 10 ^ 2" "d < 10 ^ 2" using v valid_date_day [OF v] by (auto simp: valid_date_def)
  have bs: "utf8 s = s" using f s timestamp_ascii by simp
  note p = parse_fixed_digits_at [where bs = s]
  have "parse_fixed_digits s 0 4 = Some (int y)" "parse_fixed_digits s 5 2 = Some (int mo)"
    "parse_fixed_digits s 8 2 = Some (int d)" "parse_fixed_digits s 11 2 = Some (int h)"
    "parse_fixed_digits s 14 2 = Some (int mi)" "parse_fixed_digits s 17 2 = Some (int se)"
    by ((rule p; insert r r2; simp add: s timestamp_def)+)
  moreover have "20 \<le> length s" "s ! 4 = 45" "s ! 7 = 45" "s ! 10 = 84" "s ! 13 = 58" "s ! 16 = 58"
    by (simp_all add: s timestamp_def nth_append)
  moreover have "fraction_ok (drop 19 s)"
    using fraction_ok_append [OF f] by (simp add: s timestamp_def)
  ultimately show ?thesis using r v t by (simp add: parse_rfc3339_utc_Ok Let_def bs)
qed

lemma parse_denotes:
  assumes "parse_rfc3339_utc s = Ok t"
  shows "denotes s t"
proof -
  define bs where "bs = utf8 s"
  from assms obtain yy mmo dd hh mmi sse where
    len: "20 \<le> length bs" and seps: "bs ! 4 = 45" "bs ! 7 = 45" "bs ! 10 = 84" "bs ! 13 = 58" "bs ! 16 = 58"
    and ps: "parse_fixed_digits bs 0 4 = Some yy" "parse_fixed_digits bs 5 2 = Some mmo"
      "parse_fixed_digits bs 8 2 = Some dd" "parse_fixed_digits bs 11 2 = Some hh"
      "parse_fixed_digits bs 14 2 = Some mmi" "parse_fixed_digits bs 17 2 = Some sse"
    and fr: "fraction_ok (drop 19 bs)"
    and r: "valid_date yy mmo dd" "hh \<le> 23" "mmi \<le> 59" "sse \<le> 59"
    and t: "t = days_from_civil yy mmo dd * 86400 + hh * 3600 + mmi * 60 + sse"
    unfolding parse_rfc3339_utc_Ok Let_def bs_def by blast
  obtain y where y: "yy = int y" "y < 10 ^ 4" "take 4 (drop 0 bs) = fixed_dec 4 y"
    using parse_fixed_digits_field [OF ps(1), of 3] by auto
  obtain mo where mo: "mmo = int mo" "take 2 (drop 5 bs) = fixed_dec 2 mo"
    using parse_fixed_digits_field [OF ps(2), of 1] by auto
  obtain d where d: "dd = int d" "take 2 (drop 8 bs) = fixed_dec 2 d"
    using parse_fixed_digits_field [OF ps(3), of 1] by auto
  obtain h where h: "hh = int h" "take 2 (drop 11 bs) = fixed_dec 2 h"
    using parse_fixed_digits_field [OF ps(4), of 1] by auto
  obtain mi where mi: "mmi = int mi" "take 2 (drop 14 bs) = fixed_dec 2 mi"
    using parse_fixed_digits_field [OF ps(5), of 1] by auto
  obtain se where se: "sse = int se" "take 2 (drop 17 bs) = fixed_dec 2 se"
    using parse_fixed_digits_field [OF ps(6), of 1] by auto
  obtain frac where frac: "is_fraction frac" "drop 19 bs = frac @ [90]"
    using fraction_ok_split [OF fr] .
  have bs: "bs = timestamp y mo d h mi se frac"
    using nineteen_bytes_split [OF len] seps y(3) mo(2) d(2) h(2) mi(2) se(2) frac(2)
    by (simp add: timestamp_def)
  then have "\<forall>b \<in> set bs. b < 0x80"
    using timestamp_chars [OF frac(1)] by blast
  then have "utf8 s = s" unfolding bs_def by (rule utf8_ascii_bytes)
  then have "s = timestamp y mo d h mi se frac" using bs by (simp add: bs_def)
  moreover have "y < 10000" "h < 24" "mi < 60" "se < 60" using r y(2) h(1) mi(1) se(1) by simp_all
  ultimately show ?thesis
    using r t frac(1) y(1) mo(1) d(1) h(1) mi(1) se(1) unfolding denotes_def by blast
qed

lemma parse_rfc3339_error: "parse_rfc3339_utc s = Err e \<Longrightarrow> e = ExpiredRequest"
  by (auto simp: parse_rfc3339_utc_def Let_def split: option.splits if_splits)

lemma year_days_mono: "y \<le> z \<Longrightarrow> year_days y \<le> year_days z"
proof (induction z rule: int_ge_induct)
  case (step i)
  then show ?case using year_days_step [of i] by simp
qed simp

lemma days_from_civil_year_start: "y \<le> z \<Longrightarrow> days_from_civil y 1 1 \<le> days_from_civil z 1 1"
  using year_days_mono [of "y - 1" "z - 1"] by (simp add: days_from_civil_closed)

lemma days_from_civil_year_end: "days_from_civil y 12 31 = days_from_civil (y + 1) 1 1 - 1"
  using days_from_civil_next [of y 12 31 "y + 1" 1 1]
  by (simp add: valid_date_def next_date_def max_day_def DAYS_IN_MONTH_def)

lemma days_from_civil_year_mono:
  assumes "valid_date y m d"
  shows "days_from_civil y 1 1 \<le> days_from_civil y m d" "days_from_civil y m d \<le> days_from_civil y 12 31"
proof -
  have m: "1 \<le> m" "m \<le> 12" "1 \<le> d" using assms by (simp_all add: valid_date_def)
  note d = valid_date_day [OF assms]
  show "days_from_civil y 1 1 \<le> days_from_civil y m d" "days_from_civil y m d \<le> days_from_civil y 12 31"
    using month_cases [OF m(1,2)] d m(3) year_days_step [of "y - 1"]
    by (elim disjE; simp add: days_from_civil_closed month_days_def split: if_splits)+
qed

lemma days_from_civil_year_iff:
  assumes "valid_date y m d"
  shows "y < z \<longleftrightarrow> days_from_civil y m d < days_from_civil z 1 1"
proof
  assume "y < z"
  then show "days_from_civil y m d < days_from_civil z 1 1"
    using days_from_civil_year_mono(2) [OF assms] days_from_civil_year_end [of y]
      days_from_civil_year_start [of "y + 1" z] by simp
next
  assume *: "days_from_civil y m d < days_from_civil z 1 1"
  show "y < z"
  proof (rule ccontr)
    assume "\<not> y < z"
    with * days_from_civil_year_mono(1) [OF assms] days_from_civil_year_start [of z y]
    show False by simp
  qed
qed

lemma year_boundaries: "days_from_civil 0 1 1 = -719528" "days_from_civil 10000 1 1 = 2932897"
  by code_simp+

text \<open>Every accepted timestamp denotes a second of the years 0 to 9999.\<close>

lemma denotes_range:
  assumes "denotes s t"
  shows "-62167219200 \<le> t \<and> t < 253402300800"
proof -
  from assms obtain y :: nat and m d h mi se where v: "valid_date (int y) m d" and y: "y < 10000"
    and r: "h < 24" "mi < 60" "se < (60 :: nat)"
    and t: "t = days_from_civil (int y) m d * 86400 + int h * 3600 + int mi * 60 + int se"
    by (auto simp: denotes_def)
  have "days_from_civil (int y) m d < days_from_civil 10000 1 1"
    using days_from_civil_year_iff [OF v, of 10000] y by simp
  moreover have "\<not> days_from_civil (int y) m d < days_from_civil 0 1 1"
    using days_from_civil_year_iff [OF v, of 0] by simp
  ultimately show ?thesis using t r by (simp add: year_boundaries)
qed

lemma parse_rfc3339_range: "parse_rfc3339_utc s = Ok t \<Longrightarrow> -62167219200 \<le> t \<and> t < 253402300800"
  using parse_denotes denotes_range by blast

lemma time_of_day_split:
  assumes "0 \<le> s" and "s < 86400"
  obtains hh mm ss where "rdiv s 3600 = hh" "rdiv (rrem s 3600) 60 = mm" "rrem s 60 = ss"
    "s = hh * 3600 + mm * 60 + ss"
    "0 \<le> hh" "hh < 24" "0 \<le> mm" "mm < 60" "0 \<le> ss" "ss < 60"
proof
  have e: "rdiv s 3600 = s div 3600" "rdiv (rrem s 3600) 60 = s mod 3600 div 60" "rrem s 60 = s mod 60"
    using assms(1) by simp_all
  show "0 \<le> rdiv s 3600" "rdiv s 3600 < 24" "0 \<le> rdiv (rrem s 3600) 60"
    "rdiv (rrem s 3600) 60 < 60" "0 \<le> rrem s 60" "rrem s 60 < 60"
    unfolding e using assms by linarith+
  have "s = s div 3600 * 3600 + s mod 3600 div 60 * 60 + s mod 3600 mod 60" by simp
  moreover have "s mod 3600 mod 60 = s mod 60" by (rule mod_mod_cancel) simp
  ultimately show "s = rdiv s 3600 * 3600 + rdiv (rrem s 3600) 60 * 60 + rrem s 60" unfolding e by simp
qed simp_all

lemma format_denotes:
  assumes "-62167219200 \<le> t" and "t < 253402300800"
  shows "denotes (unix_to_rfc3339_utc t) t"
proof -
  define z s where "z = t div 86400" and "s = t mod 86400"
  have s: "0 \<le> s" "s < 86400" and t: "t = z * 86400 + s" by (simp_all add: z_def s_def)
  have z: "-719528 \<le> z" "z < 2932897" using assms unfolding z_def by linarith+
  obtain y m d where c: "civil_from_days z = (y, m, d)" by (cases "civil_from_days z")
  then have v: "valid_date y m d" and dz: "days_from_civil y m d = z"
    using civil_from_days_correct by blast+
  have y: "0 \<le> y" "y < 10000"
    using z days_from_civil_year_iff [OF v, of 0] days_from_civil_year_iff [OF v, of 10000]
    by (simp_all add: dz year_boundaries)
  have md: "1 \<le> m" "m \<le> 12" "1 \<le> d" "d \<le> 31" using v valid_date_day [OF v] by (auto simp: valid_date_def)
  obtain hh mm ss where hms: "rdiv s 3600 = hh" "rdiv (rrem s 3600) 60 = mm" "rrem s 60 = ss"
    and split: "s = hh * 3600 + mm * 60 + ss"
    and r: "0 \<le> hh" "hh < 24" "0 \<le> mm" "mm < 60" "0 \<le> ss" "ss < 60"
    using time_of_day_split [OF s] .
  have "unix_to_rfc3339_utc t = timestamp (nat y) (nat m) (nat d) (nat hh) (nat mm) (nat ss) []"
    using y md r
    by (simp add: unix_to_rfc3339_utc_def Let_def z_def [symmetric] s_def [symmetric] c hms timestamp_def
        fmt_int_fixed)
  moreover have "t = z * 86400 + hh * 3600 + mm * 60 + ss" using t split by linarith
  moreover have "int (nat y) = y" "int (nat m) = m" "int (nat d) = d" "int (nat hh) = hh"
    "int (nat mm) = mm" "int (nat ss) = ss"
    using y md r by simp_all
  moreover have "nat y < 10000" "nat hh < 24" "nat mm < 60" "nat ss < 60"
    using y r by linarith+
  moreover have "is_fraction []" by (simp add: is_fraction_def)
  ultimately show ?thesis
    using v dz unfolding denotes_def by metis
qed

section \<open>The freshness window\<close>

lemma check_freshness_error: "check_freshness ia ea now skew = Err e \<Longrightarrow> e = ExpiredRequest"
  by (auto simp: check_freshness_def Let_def result_simps dest: parse_rfc3339_error split: if_splits)

lemma check_freshness_window:
  assumes "is_i64 now" and "0 \<le> skew"
  shows "check_freshness ia ea now skew = Ok () \<longleftrightarrow>
    (\<exists>i e. parse_rfc3339_utc ia = Ok i \<and> parse_rfc3339_utc ea = Ok e \<and>
       i \<le> e \<and> i - skew \<le> now \<and> now \<le> e + skew)"
proof -
  have "saturating_sub i skew \<le> now \<longleftrightarrow> i - skew \<le> now" "now \<le> saturating_add e skew \<longleftrightarrow> now \<le> e + skew"
    if "parse_rfc3339_utc ia = Ok i" "parse_rfc3339_utc ea = Ok e" for i e
    using assms that[THEN parse_rfc3339_range]
    by (simp_all add: saturating_sub_le_iff le_saturating_add_iff i64_min_def i64_max_def)
  then show ?thesis
    unfolding check_freshness_def Let_def and_then_eq_Inr
    by (smt (verit, ccfv_threshold) Inl_Inr_False)
qed

section \<open>Properties\<close>


text \<open>
  the day count is the Gregorian calendar: 1970-01-01 is day 0, the day after a valid date
  has the next number, and \<open>civil_from_days\<close> returns the valid date with a given number.
\<close>

theorem day_count_is_calendar:
  "days_from_civil 1970 1 1 = 0 \<and>
   (valid_date y m d \<longrightarrow>
      (case next_date (y, m, d) of (y', m', d') \<Rightarrow> days_from_civil y' m' d' = days_from_civil y m d + 1)) \<and>
   (case civil_from_days z of (y, m, d) \<Rightarrow> valid_date y m d \<and> days_from_civil y m d = z)"
proof -
  have "days_from_civil 1970 1 1 = 0" by code_simp
  then show ?thesis
    using days_from_civil_next [of y m d] civil_from_days_correct [of z]
    by (cases "next_date (y, m, d)"; cases "civil_from_days z") auto
qed

theorem day_count_is_calendar_witness:
  "days_from_civil 2024 3 1 = days_from_civil 2024 2 29 + 1 \<and> next_date (2024, 2, 29) = (2024, 3, 1)"
proof -
  have "valid_date 2024 2 29" "next_date (2024, 2, 29) = (2024, 3, 1)" by code_simp+
  then show ?thesis using day_count_is_calendar [of 2024 2 29 0] by simp
qed

text \<open>
  formatting a second of the years 0 to 9999 and parsing the text gives the second back,
  so a timestamp this library writes is accepted by its own verifier at its exact value.
\<close>

theorem format_then_parse:
  assumes "-62167219200 \<le> t" and "t < 253402300800"
  shows "parse_rfc3339_utc (unix_to_rfc3339_utc t) = Ok t"
  using denotes_parse format_denotes [OF assms] by blast

theorem format_then_parse_witness:
  "parse_rfc3339_utc (unix_to_rfc3339_utc 1700000000) = Ok 1700000000"
  by (rule format_then_parse) simp_all

text \<open>
  C25: the freshness check accepts exactly when both timestamps are well formed, the interval is
  not inverted and the clock lies in it widened by the skew on both sides, the saturating
  arithmetic included; every refusal is \<open>ExpiredRequest\<close>.
\<close>

theorem freshness_is_exact_window:
  assumes "is_i64 now" and "0 \<le> skew"
  shows "check_freshness ia ea now skew =
    (if \<exists>i e. denotes ia i \<and> denotes ea e \<and> i \<le> e \<and> i - skew \<le> now \<and> now \<le> e + skew
     then Ok () else Err ExpiredRequest)"
proof -
  have "check_freshness ia ea now skew = Ok () \<longleftrightarrow>
      (\<exists>i e. denotes ia i \<and> denotes ea e \<and> i \<le> e \<and> i - skew \<le> now \<and> now \<le> e + skew)"
    unfolding check_freshness_window [OF assms] using denotes_parse parse_denotes by blast
  then show ?thesis
    using check_freshness_error [of ia ea now skew] by (cases "check_freshness ia ea now skew") auto
qed

theorem freshness_is_exact_window_witness:
  "check_freshness (unix_to_rfc3339_utc 1000) (unix_to_rfc3339_utc 1300) 1330 30 = Ok () \<and>
   check_freshness (unix_to_rfc3339_utc 1000) (unix_to_rfc3339_utc 1300) 1331 30 = Err ExpiredRequest"
proof -
  have p: "denotes (unix_to_rfc3339_utc 1000) 1000" "denotes (unix_to_rfc3339_utc 1300) 1300"
    by (rule format_denotes; simp)+
  have u: "i = 1000" "e = 1300" if "denotes (unix_to_rfc3339_utc 1000) i" "denotes (unix_to_rfc3339_utc 1300) e" for i e
    using that p [THEN denotes_parse] that [THEN denotes_parse] by simp_all
  have "is_i64 1330" "is_i64 1331" by (simp_all add: i64_simps)
  then show ?thesis
    using p u freshness_is_exact_window [of 1330 30] freshness_is_exact_window [of 1331 30]
    by (simp del: not_ex) (smt (verit))
qed

end
