(* ===== verification/Json_Value.thy ===== *)
theory Json_Value
  imports Mcps_Error
begin

text \<open>
  The part of \<open>serde_json\<close> the program manipulates values with: the \<open>Value\<close> tree, its
  accessors and the map operations on objects. An object is the association list a
  \<open>BTreeMap<String, Value>\<close> iterates: keys strictly increasing in the order of Rust strings,
  which is the order of their scalar values. The JSON text parser of that library is not
  modelled; where the program calls it, it is a parameter.
\<close>

section \<open>Values\<close>

text \<open>Numbers are 64-bit integers (signed or unsigned) or doubles, kept as their bits.\<close>

datatype number = NInt int | NFloat nat

datatype json =
    Null
  | Bool bool
  | Number number
  | Str ustring
  | Arr "json list"
  | Obj "(ustring \<times> json) list"

type_synonym members = "(ustring \<times> json) list"

primrec as_i64 :: "number \<Rightarrow> int option" where
  "as_i64 (NInt i) = (if is_i64 i then Some i else None)"
| "as_i64 (NFloat b) = None"

primrec as_u64 :: "number \<Rightarrow> int option" where
  "as_u64 (NInt i) = (if 0 \<le> i \<and> i < 2 ^ 64 then Some i else None)"
| "as_u64 (NFloat b) = None"

fun as_str :: "json \<Rightarrow> ustring option" where
  "as_str (Str s) = Some s"
| "as_str _ = None"

fun as_object :: "json \<Rightarrow> members option" where
  "as_object (Obj ms) = Some ms"
| "as_object _ = None"

fun as_array :: "json \<Rightarrow> json list option" where
  "as_array (Arr vs) = Some vs"
| "as_array _ = None"

definition is_array :: "json \<Rightarrow> bool" where
  "is_array v \<longleftrightarrow> as_array v \<noteq> None"

section \<open>Object members\<close>

definition obj_get :: "ustring \<Rightarrow> members \<Rightarrow> json option" where
  "obj_get k ms = map_of ms k"

definition obj_contains :: "ustring \<Rightarrow> members \<Rightarrow> bool" where
  "obj_contains k ms \<longleftrightarrow> obj_get k ms \<noteq> None"

definition obj_remove :: "ustring \<Rightarrow> members \<Rightarrow> members" where
  "obj_remove k ms = filter (\<lambda>(k', v). k' \<noteq> k) ms"

fun obj_insert :: "ustring \<Rightarrow> json \<Rightarrow> members \<Rightarrow> members" where
  "obj_insert k v [] = [(k, v)]"
| "obj_insert k v ((k', v') # ms) =
     (if k = k' then (k, v) # ms
      else if k < k' then (k, v) # (k', v') # ms
      else (k', v') # obj_insert k v ms)"

text \<open>An object literal of \<open>json!\<close>: its members are inserted one after the other.\<close>

definition json_object :: "members \<Rightarrow> json" where
  "json_object kvs = Obj (fold (\<lambda>(k, v). obj_insert k v) kvs [])"

text \<open>\<open>Value::get\<close> with a string index: \<open>None\<close> on anything but an object.\<close>

definition json_get :: "json \<Rightarrow> ustring \<Rightarrow> json option" where
  "json_get v k = (case as_object v of Some ms \<Rightarrow> obj_get k ms | None \<Rightarrow> None)"

primrec json_path :: "json \<Rightarrow> ustring list \<Rightarrow> json option" where
  "json_path v [] = Some v"
| "json_path v (k # ks) = (case json_get v k of Some w \<Rightarrow> json_path w ks | None \<Rightarrow> None)"

text \<open>\<open>get_mut\<close> followed by an update of the member in place; nothing happens when it is absent.\<close>

definition obj_update :: "ustring \<Rightarrow> (json \<Rightarrow> json) \<Rightarrow> members \<Rightarrow> members" where
  "obj_update k f ms = map (\<lambda>(k', v). (k', if k' = k then f v else v)) ms"

text \<open>The invariant of the Rust types: keys strictly increasing at every level, strings made of
  Unicode scalar values.\<close>

definition keys_sorted :: "(ustring \<times> 'v) list \<Rightarrow> bool" where
  "keys_sorted ms \<longleftrightarrow> sorted_wrt (<) (map fst ms)"

fun json_wf :: "json \<Rightarrow> bool" where
  "json_wf (Arr vs) \<longleftrightarrow> list_all json_wf vs"
| "json_wf (Obj ms) \<longleftrightarrow> keys_sorted ms \<and> list_all (\<lambda>(k, v). valid_str k \<and> json_wf v) ms"
| "json_wf (Str s) \<longleftrightarrow> valid_str s"
| "json_wf _ \<longleftrightarrow> True"

section \<open>Laws\<close>

lemma keys_sorted_simps [simp]:
  "keys_sorted []"
  "keys_sorted ((k, v) # ms) \<longleftrightarrow> (\<forall>k' \<in> fst ` set ms. k < k') \<and> keys_sorted ms"
  by (auto simp: keys_sorted_def)

lemma keys_sorted_distinct: "keys_sorted ms \<Longrightarrow> distinct (map fst ms)"
  unfolding keys_sorted_def by (simp add: strict_sorted_iff)

lemma obj_get_Nil [simp]: "obj_get k [] = None"
  by (simp add: obj_get_def)

lemma obj_get_Cons [simp]: "obj_get k ((k', v) # ms) = (if k = k' then Some v else obj_get k ms)"
  by (simp add: obj_get_def)

lemma obj_get_SomeD: "obj_get k ms = Some v \<Longrightarrow> (k, v) \<in> set ms"
  unfolding obj_get_def by (rule map_of_SomeD)

lemma obj_get_eq_None: "obj_get k ms = None \<longleftrightarrow> k \<notin> fst ` set ms"
  unfolding obj_get_def by (rule map_of_eq_None_iff)

lemma obj_get_iff: "keys_sorted ms \<Longrightarrow> obj_get k ms = Some v \<longleftrightarrow> (k, v) \<in> set ms"
  by (simp add: obj_get_def keys_sorted_distinct)

lemma obj_get_insert [simp]:
  "obj_get k (obj_insert k' v ms) = (if k = k' then Some v else obj_get k ms)"
  by (induction k' v ms rule: obj_insert.induct) auto

lemma obj_get_remove [simp]: "obj_get k (obj_remove k' ms) = (if k = k' then None else obj_get k ms)"
  by (induction ms) (auto simp: obj_remove_def)

lemma obj_get_update [simp]:
  "obj_get k (obj_update k' f ms) = (if k = k' then map_option f (obj_get k ms) else obj_get k ms)"
  by (induction ms) (auto simp: obj_update_def)

lemma keys_insert: "fst ` set (obj_insert k v ms) = insert k (fst ` set ms)"
  by (induction k v ms rule: obj_insert.induct) auto

lemma obj_insert_sorted [simp]: "keys_sorted ms \<Longrightarrow> keys_sorted (obj_insert k v ms)"
  by (induction k v ms rule: obj_insert.induct) (auto simp: keys_insert)

lemma obj_remove_sorted [simp]: "keys_sorted ms \<Longrightarrow> keys_sorted (obj_remove k ms)"
  by (induction ms) (auto simp: obj_remove_def)

lemma keys_update [simp]: "map fst (obj_update k f ms) = map fst ms"
  by (induction ms) (auto simp: obj_update_def)

lemma obj_update_sorted [simp]: "keys_sorted (obj_update k f ms) \<longleftrightarrow> keys_sorted ms"
  by (simp add: keys_sorted_def)

lemma obj_remove_absent: "obj_get k ms = None \<Longrightarrow> obj_remove k ms = ms"
  by (induction ms) (auto simp: obj_remove_def split: if_splits)

lemma obj_remove_remove: "obj_remove k (obj_remove k' ms) = obj_remove k' (obj_remove k ms)"
  by (simp add: obj_remove_def conj_commute split_def)

lemma obj_remove_idem [simp]: "obj_remove k (obj_remove k ms) = obj_remove k ms"
  by (simp add: obj_remove_def)

lemma obj_remove_insert: "obj_get k ms = None \<Longrightarrow> obj_remove k (obj_insert k v ms) = ms"
  by (induction k v ms rule: obj_insert.induct)
    (auto simp: obj_remove_def obj_get_eq_None image_iff split: if_splits intro!: filter_True)

lemma obj_insert_mem: "(k', w) \<in> set (obj_insert k v ms) \<Longrightarrow> (k', w) = (k, v) \<or> (k', w) \<in> set ms"
  by (induction k v ms rule: obj_insert.induct) (auto split: if_splits)

text \<open>Two sorted member lists with the same members, or the same lookups, are the same list.\<close>

lemma sorted_members_unique:
  assumes "keys_sorted ms" "keys_sorted ns" "set ms = set ns"
  shows "ms = ns"
proof -
  have "map fst ms = map fst ns"
    using assms unfolding keys_sorted_def by (intro strict_sorted_equal) auto
  moreover have "inj_on fst (set ms \<union> set ns)"
    using keys_sorted_distinct [OF assms(1)] assms(3) by (simp add: distinct_map)
  ultimately show ?thesis by (metis inj_on_map_eq_map)
qed

lemma members_ext:
  "keys_sorted ms \<Longrightarrow> keys_sorted ns \<Longrightarrow> (\<And>k. obj_get k ms = obj_get k ns) \<Longrightarrow> ms = ns"
  by (rule sorted_members_unique) (auto simp flip: obj_get_iff)

lemma json_get_simps [simp]:
  "json_get (Obj ms) k = obj_get k ms"
  "json_get Null k = None" "json_get (Bool b) k = None" "json_get (Number n) k = None"
  "json_get (Str s) k = None" "json_get (Arr vs) k = None"
  by (simp_all add: json_get_def)

lemma json_get_SomeD: "json_get v k = Some w \<Longrightarrow> \<exists>ms. v = Obj ms \<and> obj_get k ms = Some w"
  by (cases v) auto

lemma json_wf_get: "json_wf v \<Longrightarrow> json_get v k = Some w \<Longrightarrow> json_wf w"
  by (cases v) (auto simp: list_all_iff dest!: obj_get_SomeD)

lemma json_wf_path: "json_wf v \<Longrightarrow> json_path v ks = Some w \<Longrightarrow> json_wf w"
  by (induction ks arbitrary: v) (auto split: option.split_asm dest: json_wf_get)

lemma json_wf_insert:
  "json_wf (Obj ms) \<Longrightarrow> valid_str k \<Longrightarrow> json_wf v \<Longrightarrow> json_wf (Obj (obj_insert k v ms))"
  by (auto simp: list_all_iff dest!: obj_insert_mem)

lemma json_wf_remove: "json_wf (Obj ms) \<Longrightarrow> json_wf (Obj (obj_remove k ms))"
  using obj_remove_sorted [of ms k] by (auto simp: list_all_iff) (auto simp: obj_remove_def)

lemma json_wf_update:
  "json_wf (Obj ms) \<Longrightarrow> (\<And>v. json_wf v \<Longrightarrow> json_wf (f v)) \<Longrightarrow> json_wf (Obj (obj_update k f ms))"
  using obj_update_sorted [of k f ms] by (auto simp: list_all_iff) (auto simp: obj_update_def)

end
