(* ===== verification/Canonical.thy ===== *)
theory Canonical
  imports Json_Value
begin

text \<open>
  \<open>mcps-core/src/canonical.rs\<close>: the RFC 8785 canonicalization every signature preimage goes
  through. The fail-closed parser over raw bytes and the canonical serializer are translated
  function by function; the parser's cursor is the list of characters from \<open>pos\<close> on. The
  two recursive parse loops take fuel, and \<open>Out_of_fuel\<close> is shown unreachable from \<open>parse\<close>.
  The results: the parser only returns values of the safe domain, the serializer followed by
  the parser is the identity up to member order, and canonical bytes are a fixed point.
\<close>

section \<open>Values and limits\<close>

definition MAX_SAFE_INTEGER :: int where
  "MAX_SAFE_INTEGER = 9007199254740991"

definition MAX_PARSE_DEPTH :: nat where
  "MAX_PARSE_DEPTH = 128"

datatype jcs =
    JNull
  | JBool bool
  | JInteger int
  | JString ustring
  | JArray "jcs list"
  | JObject "(ustring \<times> jcs) list"

definition check_safe_integer :: "int \<Rightarrow> unit mcps_result" where
  "check_safe_integer i =
     (if - MAX_SAFE_INTEGER \<le> i \<and> i \<le> MAX_SAFE_INTEGER then Ok () else Err CanonicalizationFailed)"

section \<open>Canonical serialization\<close>

datatype ordering = Less | Equal | Greater

fun cmp_units :: "nat list \<Rightarrow> nat list \<Rightarrow> ordering" where
  "cmp_units (x # xs) (y # ys) =
     (if x < y then Less else if y < x then Greater else cmp_units xs ys)"
| "cmp_units (x # xs) [] = Greater"
| "cmp_units [] (y # ys) = Less"
| "cmp_units [] [] = Equal"

definition cmp_utf16 :: "ustring \<Rightarrow> ustring \<Rightarrow> ordering" where
  "cmp_utf16 a b = cmp_units (encode_utf16 a) (encode_utf16 b)"

text \<open>\<open>Vec::sort_by\<close>, a stable sort.\<close>

fun insert_by :: "('a \<Rightarrow> 'a \<Rightarrow> ordering) \<Rightarrow> 'a \<Rightarrow> 'a list \<Rightarrow> 'a list" where
  "insert_by cmp x [] = [x]"
| "insert_by cmp x (y # ys) = (if cmp x y = Greater then y # insert_by cmp x ys else x # y # ys)"

definition sort_by :: "('a \<Rightarrow> 'a \<Rightarrow> ordering) \<Rightarrow> 'a list \<Rightarrow> 'a list" where
  "sort_by cmp xs = foldr (insert_by cmp) xs []"

definition sort_members :: "(ustring \<times> 'v) list \<Rightarrow> (ustring \<times> 'v) list" where
  "sort_members ms = sort_by (\<lambda>a b. cmp_utf16 (fst a) (fst b)) ms"

fun adjacent_dup :: "(ustring \<times> 'v) list \<Rightarrow> bool" where
  "adjacent_dup (a # b # ms) \<longleftrightarrow> fst a = fst b \<or> adjacent_dup (b # ms)"
| "adjacent_dup _ \<longleftrightarrow> False"

definition write_integer :: "int \<Rightarrow> ustring" where
  "write_integer i = (if i < 0 then 45 # dec (nat (- i)) else dec (nat i))"

definition hex_char :: "nat \<Rightarrow> uchar" where
  "hex_char d = (if d < 10 then 48 + d else 87 + d)"

definition write_char :: "uchar \<Rightarrow> ustring" where
  "write_char c =
     (if c = 34 then [92, 34]
      else if c = 92 then [92, 92]
      else if c = 8 then [92, 98]
      else if c = 9 then [92, 116]
      else if c = 10 then [92, 110]
      else if c = 12 then [92, 102]
      else if c = 13 then [92, 114]
      else if c \<le> 0x1F then [92, 117, 48, 48, hex_char (c div 16), hex_char (c mod 16)]
      else [c])"

definition write_string :: "ustring \<Rightarrow> ustring" where
  "write_string s = [34] @ concat (map write_char s) @ [34]"

text \<open>The comma-separated pieces between the brackets.\<close>

fun comma_sep :: "ustring list \<Rightarrow> ustring" where
  "comma_sep [] = []"
| "comma_sep [x] = x"
| "comma_sep (x # y # xs) = x @ [44] @ comma_sep (y # xs)"

lemma set_insert_by [simp]: "set (insert_by cmp x xs) = insert x (set xs)"
  by (induction cmp x xs rule: insert_by.induct) auto

lemma set_sort_by [simp]: "set (sort_by cmp xs) = set xs"
  by (induction xs) (auto simp: sort_by_def)

lemma member_size: "(k, v) \<in> set ms \<Longrightarrow> size v < Suc (size_list (size_prod (\<lambda>_. 0) size) ms)"
  by (induction ms) auto

function (sequential) write_value :: "jcs \<Rightarrow> nat \<Rightarrow> ustring mcps_result" where
  "write_value JNull depth = Ok (lit ''null'')"
| "write_value (JBool True) depth = Ok (lit ''true'')"
| "write_value (JBool False) depth = Ok (lit ''false'')"
| "write_value (JInteger i) depth = Ok (write_integer i)"
| "write_value (JString s) depth = Ok (write_string s)"
| "write_value (JArray items) depth =
     (if depth \<ge> MAX_PARSE_DEPTH then Err CanonicalizationFailed
      else and_then (collect (map (\<lambda>item. write_value item (depth + 1)) items)) (\<lambda>outs.
        Ok ([91] @ comma_sep outs @ [93])))"
| "write_value (JObject members) depth =
     (if depth \<ge> MAX_PARSE_DEPTH then Err CanonicalizationFailed
      else let sorted = sort_members members in
        if adjacent_dup sorted then Err CanonicalizationFailed
        else and_then
          (collect (map (\<lambda>(key, val). and_then (write_value val (depth + 1)) (\<lambda>out.
             Ok (write_string key @ [58] @ out))) sorted)) (\<lambda>outs.
        Ok ([123] @ comma_sep outs @ [125])))"
  by pat_completeness auto

termination
proof (relation "measure (size \<circ> fst)")
  fix items :: "jcs list" and depth x
  assume "x \<in> set items"
  then show "((x, depth + 1), JArray items, depth) \<in> measure (size \<circ> fst)"
    by (simp add: size_list_estimation' less_Suc_eq_le)
next
  fix members :: "(ustring \<times> jcs) list" and depth sorted p key val
  assume "sorted = sort_members members" "p \<in> set sorted" "(key, val) = p"
  then show "((val, depth + 1), JObject members, depth) \<in> measure (size \<circ> fst)"
    using member_size [of key val members] by (auto simp: sort_members_def)
qed simp

definition canonicalize_value :: "jcs \<Rightarrow> bytes mcps_result" where
  "canonicalize_value v = and_then (write_value v 0) (\<lambda>out. Ok (utf8 out))"

text \<open>The value path, from a \<open>serde_json::Value\<close>.\<close>

function (sequential) from_serde_value_at :: "json \<Rightarrow> nat \<Rightarrow> jcs mcps_result" where
  "from_serde_value_at Null depth = Ok JNull"
| "from_serde_value_at (Bool b) depth = Ok (JBool b)"
| "from_serde_value_at (Number n) depth =
     (case as_i64 n of
        Some i \<Rightarrow> and_then (check_safe_integer i) (\<lambda>_. Ok (JInteger i))
      | None \<Rightarrow>
          (case as_u64 n of
             Some u \<Rightarrow> if u > MAX_SAFE_INTEGER then Err CanonicalizationFailed else Ok (JInteger u)
           | None \<Rightarrow> Err CanonicalizationFailed))"
| "from_serde_value_at (Str s) depth = Ok (JString s)"
| "from_serde_value_at (Arr items) depth =
     (if depth \<ge> MAX_PARSE_DEPTH then Err CanonicalizationFailed
      else and_then (collect (map (\<lambda>item. from_serde_value_at item (depth + 1)) items)) (\<lambda>out.
        Ok (JArray out)))"
| "from_serde_value_at (Obj ms) depth =
     (if depth \<ge> MAX_PARSE_DEPTH then Err CanonicalizationFailed
      else and_then (collect (map (\<lambda>(k, v). and_then (from_serde_value_at v (depth + 1)) (\<lambda>w. Ok (k, w))) ms))
        (\<lambda>out. Ok (JObject out)))"
  by pat_completeness auto

termination
proof (relation "measure (size \<circ> fst)")
  fix items :: "json list" and depth x
  assume "x \<in> set items"
  then show "((x, depth + 1), Arr items, depth) \<in> measure (size \<circ> fst)"
    by (simp add: size_list_estimation' less_Suc_eq_le)
next
  fix ms :: members and depth p k v
  assume "p \<in> set ms" "(k, v) = p"
  then show "((v, depth + 1), Obj ms, depth) \<in> measure (size \<circ> fst)"
    using member_size [of k v ms] by auto
qed simp

definition from_serde_value :: "json \<Rightarrow> jcs mcps_result" where
  "from_serde_value v = from_serde_value_at v 0"

definition canonicalize_json_value :: "json \<Rightarrow> bytes mcps_result" where
  "canonicalize_json_value v = and_then (from_serde_value v) canonicalize_value"

section \<open>The parser\<close>

text \<open>The cursor: \<open>peek\<close> is the head of the remaining characters, \<open>bump\<close> takes it off.\<close>

definition peek :: "ustring \<Rightarrow> uchar option" where
  "peek cs = (case cs of [] \<Rightarrow> None | c # _ \<Rightarrow> Some c)"

definition is_ws :: "uchar \<Rightarrow> bool" where
  "is_ws c \<longleftrightarrow> c = 32 \<or> c = 9 \<or> c = 10 \<or> c = 13"

definition skip_ws :: "ustring \<Rightarrow> ustring" where
  "skip_ws cs = dropWhile is_ws cs"

fun expect :: "uchar \<Rightarrow> ustring \<Rightarrow> ustring mcps_result" where
  "expect c (x # cs) = (if x = c then Ok cs else Err CanonicalizationFailed)"
| "expect c [] = Err CanonicalizationFailed"

primrec parse_literal :: "ustring \<Rightarrow> ustring \<Rightarrow> ustring mcps_result" where
  "parse_literal [] cs = Ok cs"
| "parse_literal (e # es) cs = and_then (expect e cs) (\<lambda>cs. parse_literal es cs)"

definition parse_bool :: "ustring \<Rightarrow> (jcs \<times> ustring) mcps_result" where
  "parse_bool cs =
     (if peek cs = Some 116 then and_then (parse_literal (lit ''true'') cs) (\<lambda>cs. Ok (JBool True, cs))
      else if peek cs = Some 102 then and_then (parse_literal (lit ''false'') cs) (\<lambda>cs. Ok (JBool False, cs))
      else Err CanonicalizationFailed)"

definition parse_null :: "ustring \<Rightarrow> (jcs \<times> ustring) mcps_result" where
  "parse_null cs = and_then (parse_literal (lit ''null'') cs) (\<lambda>cs. Ok (JNull, cs))"

definition to_hex_digit :: "uchar \<Rightarrow> nat option" where
  "to_hex_digit c =
     (if 48 \<le> c \<and> c \<le> 57 then Some (c - 48)
      else if 97 \<le> c \<and> c \<le> 102 then Some (c - 87)
      else if 65 \<le> c \<and> c \<le> 70 then Some (c - 55)
      else None)"

fun read_hex :: "nat \<Rightarrow> nat \<Rightarrow> ustring \<Rightarrow> (nat \<times> ustring) mcps_result" where
  "read_hex 0 acc cs = Ok (acc, cs)"
| "read_hex (Suc n) acc [] = Err CanonicalizationFailed"
| "read_hex (Suc n) acc (c # cs) =
     and_then (ok_or CanonicalizationFailed (to_hex_digit c)) (\<lambda>d. read_hex n (acc * 16 + d) cs)"

definition read_hex4 :: "ustring \<Rightarrow> (nat \<times> ustring) mcps_result" where
  "read_hex4 cs = read_hex 4 0 cs"

definition char_from_u32 :: "nat \<Rightarrow> uchar option" where
  "char_from_u32 n = (if is_scalar n then Some n else None)"

definition combine_surrogates :: "nat \<Rightarrow> nat \<Rightarrow> nat" where
  "combine_surrogates first second = 0x10000 + (first - 0xD800) * 1024 + (second - 0xDC00)"

definition parse_unicode_escape :: "ustring \<Rightarrow> (uchar \<times> ustring) mcps_result" where
  "parse_unicode_escape cs =
     and_then (read_hex4 cs) (\<lambda>(first, cs).
       if 0xD800 \<le> first \<and> first \<le> 0xDBFF then
         and_then (expect 92 cs) (\<lambda>cs.
         and_then (expect 117 cs) (\<lambda>cs.
         and_then (read_hex4 cs) (\<lambda>(second, cs).
           if \<not> (0xDC00 \<le> second \<and> second \<le> 0xDFFF) then Err CanonicalizationFailed
           else and_then (ok_or CanonicalizationFailed
               (char_from_u32 (combine_surrogates first second))) (\<lambda>c. Ok (c, cs)))))
       else if 0xDC00 \<le> first \<and> first \<le> 0xDFFF then Err CanonicalizationFailed
       else and_then (ok_or CanonicalizationFailed (char_from_u32 first)) (\<lambda>c. Ok (c, cs)))"

definition simple_escape :: "uchar \<Rightarrow> uchar option" where
  "simple_escape e =
     (if e = 34 then Some 34 else if e = 92 then Some 92 else if e = 47 then Some 47
      else if e = 98 then Some 8 else if e = 102 then Some 12 else if e = 110 then Some 10
      else if e = 114 then Some 13 else if e = 116 then Some 9 else None)"

lemma expect_length: "expect c cs = Ok r \<Longrightarrow> length cs = Suc (length r)"
  by (cases cs) (auto split: if_splits)

lemma read_hex_length: "read_hex n acc cs = Ok (v, r) \<Longrightarrow> length cs = length r + n"
  by (induction n acc cs rule: read_hex.induct) (auto simp: result_simps)

lemma read_hex4_length: "read_hex4 cs = Ok (v, r) \<Longrightarrow> length cs = length r + 4"
  unfolding read_hex4_def by (rule read_hex_length)

lemma parse_unicode_escape_steps:
  assumes "parse_unicode_escape cs = Ok (c, r)"
  obtains first cs1 where "read_hex4 cs = Ok (first, cs1)"
    "r = cs1 \<or> (\<exists>cs2 cs3 s. expect 92 cs1 = Ok cs2 \<and> expect 117 cs2 = Ok cs3 \<and> read_hex4 cs3 = Ok (s, r))"
proof (cases "read_hex4 cs")
  case (Inr p)
  then obtain first cs1 where p: "read_hex4 cs = Ok (first, cs1)" by (cases p) auto
  show thesis
    using assms that [OF p] unfolding parse_unicode_escape_def p and_then.simps prod.case
    by (auto simp: result_simps simp del: atLeastAtMost_iff split: if_split_asm)
qed (use assms in \<open>simp add: parse_unicode_escape_def\<close>)

lemma parse_unicode_escape_length: "parse_unicode_escape cs = Ok (c, r) \<Longrightarrow> length r < length cs"
  by (erule parse_unicode_escape_steps) (auto dest!: read_hex4_length expect_length)

text \<open>The body of a string after the opening quote, \<open>out\<close> being what has been pushed so far.\<close>

function (sequential) string_loop :: "ustring \<Rightarrow> ustring \<Rightarrow> (ustring \<times> ustring) mcps_result" where
  "string_loop out [] = Err CanonicalizationFailed"
| "string_loop out (c # cs) =
     (if c = 34 then Ok (out, cs)
      else if c = 92 then
        (case cs of
           [] \<Rightarrow> Err CanonicalizationFailed
         | esc # cs' \<Rightarrow>
             if esc = 117 then
               and_then (parse_unicode_escape cs') (\<lambda>(cp, cs''). string_loop (out @ [cp]) cs'')
             else
               (case simple_escape esc of
                  Some e \<Rightarrow> string_loop (out @ [e]) cs'
                | None \<Rightarrow> Err CanonicalizationFailed))
      else if c \<le> 0x1F then Err CanonicalizationFailed
      else string_loop (out @ [c]) cs)"
  by pat_completeness auto

termination
  by (relation "measure (length \<circ> snd)") (auto dest!: parse_unicode_escape_length)

definition parse_string :: "ustring \<Rightarrow> (ustring \<times> ustring) mcps_result" where
  "parse_string cs = and_then (expect 34 cs) (\<lambda>cs. string_loop [] cs)"

text \<open>\<open>str::parse::<i64>\<close> on an optional minus sign and a digit run.\<close>

definition parse_i64 :: "bool \<Rightarrow> ustring \<Rightarrow> int option" where
  "parse_i64 neg ds =
     (let n = int (digits_value 0 ds); i = (if neg then - n else n) in if is_i64 i then Some i else None)"

definition parse_number :: "ustring \<Rightarrow> (jcs \<times> ustring) mcps_result" where
  "parse_number cs0 =
     (let neg = (peek cs0 = Some 45);
          cs = (if neg then tl cs0 else cs0)
      in and_then
           (case cs of
              [] \<Rightarrow> Err CanonicalizationFailed
            | c # rest \<Rightarrow>
                if c = 48 then Ok ([48], rest)
                else if 49 \<le> c \<and> c \<le> 57 then Ok (c # takeWhile is_digit rest, dropWhile is_digit rest)
                else Err CanonicalizationFailed) (\<lambda>(ds, rest).
         if peek rest \<in> {Some 46, Some 101, Some 69} then Err CanonicalizationFailed
         else and_then (ok_or CanonicalizationFailed (parse_i64 neg ds)) (\<lambda>i.
           and_then (check_safe_integer i) (\<lambda>_. Ok (JInteger i, rest)))))"

datatype parse_error = Out_of_fuel | Rejected mcps_error

text \<open>
  \<open>parse_value\<close>, \<open>parse_object\<close> and \<open>parse_array\<close> with their loops. \<open>seen\<close> is the set of
  the member names read so far; \<open>depth\<close> is the parser's container counter, raised around a
  container and lowered after it.
\<close>

function parse_value :: "nat \<Rightarrow> nat \<Rightarrow> ustring \<Rightarrow> parse_error + (jcs \<times> ustring)"
and parse_object :: "nat \<Rightarrow> nat \<Rightarrow> ustring \<Rightarrow> parse_error + (jcs \<times> ustring)"
and member_loop :: "nat \<Rightarrow> nat \<Rightarrow> (ustring \<times> jcs) list \<Rightarrow> ustring list \<Rightarrow> ustring \<Rightarrow> parse_error + (jcs \<times> ustring)"
and parse_array :: "nat \<Rightarrow> nat \<Rightarrow> ustring \<Rightarrow> parse_error + (jcs \<times> ustring)"
and item_loop :: "nat \<Rightarrow> nat \<Rightarrow> jcs list \<Rightarrow> ustring \<Rightarrow> parse_error + (jcs \<times> ustring)" where
  "parse_value 0 depth cs = Inl Out_of_fuel"
| "parse_value (Suc fuel) depth cs =
     (case peek cs of
        None \<Rightarrow> Inl (Rejected CanonicalizationFailed)
      | Some c \<Rightarrow>
          if c = 123 \<or> c = 91 then
            if depth \<ge> MAX_PARSE_DEPTH then Inl (Rejected CanonicalizationFailed)
            else if c = 123 then parse_object fuel (depth + 1) cs else parse_array fuel (depth + 1) cs
          else if c = 34 then
            and_then (map_err Rejected (parse_string cs)) (\<lambda>(s, cs). Inr (JString s, cs))
          else if c = 116 \<or> c = 102 then map_err Rejected (parse_bool cs)
          else if c = 110 then map_err Rejected (parse_null cs)
          else if c = 45 \<or> is_digit c then map_err Rejected (parse_number cs)
          else Inl (Rejected CanonicalizationFailed))"
| "parse_object 0 depth cs = Inl Out_of_fuel"
| "parse_object (Suc fuel) depth cs =
     and_then (map_err Rejected (expect 123 cs)) (\<lambda>cs1.
       let cs2 = skip_ws cs1 in
       if peek cs2 = Some 125 then Inr (JObject [], tl cs2) else member_loop fuel depth [] [] cs2)"
| "member_loop 0 depth ms seen cs = Inl Out_of_fuel"
| "member_loop (Suc fuel) depth ms seen cs =
     (let cs1 = skip_ws cs in
      if peek cs1 \<noteq> Some 34 then Inl (Rejected CanonicalizationFailed)
      else and_then (map_err Rejected (parse_string cs1)) (\<lambda>(key, cs2).
        if key \<in> set seen then Inl (Rejected CanonicalizationFailed)
        else and_then (map_err Rejected (expect 58 (skip_ws cs2))) (\<lambda>cs3.
          and_then (parse_value fuel depth (skip_ws cs3)) (\<lambda>(v, cs4).
            let ms' = ms @ [(key, v)] in
            case skip_ws cs4 of
              [] \<Rightarrow> Inl (Rejected CanonicalizationFailed)
            | c # cs5 \<Rightarrow>
                if c = 44 then member_loop fuel depth ms' (key # seen) cs5
                else if c = 125 then Inr (JObject ms', cs5)
                else Inl (Rejected CanonicalizationFailed)))))"
| "parse_array 0 depth cs = Inl Out_of_fuel"
| "parse_array (Suc fuel) depth cs =
     and_then (map_err Rejected (expect 91 cs)) (\<lambda>cs1.
       let cs2 = skip_ws cs1 in
       if peek cs2 = Some 93 then Inr (JArray [], tl cs2) else item_loop fuel depth [] cs2)"
| "item_loop 0 depth vs cs = Inl Out_of_fuel"
| "item_loop (Suc fuel) depth vs cs =
     and_then (parse_value fuel depth (skip_ws cs)) (\<lambda>(v, cs1).
       let vs' = vs @ [v] in
       case skip_ws cs1 of
         [] \<Rightarrow> Inl (Rejected CanonicalizationFailed)
       | c # cs2 \<Rightarrow>
           if c = 44 then item_loop fuel depth vs' cs2
           else if c = 93 then Inr (JArray vs', cs2)
           else Inl (Rejected CanonicalizationFailed))"
  by pat_completeness simp_all

termination
  by (relation "measure (\<lambda>x. case x of
      Inl (Inl (fuel, _)) \<Rightarrow> fuel | Inl (Inr (fuel, _)) \<Rightarrow> fuel
    | Inr (Inl (fuel, _)) \<Rightarrow> fuel | Inr (Inr (Inl (fuel, _))) \<Rightarrow> fuel
    | Inr (Inr (Inr (fuel, _))) \<Rightarrow> fuel)") simp_all

text \<open>Three fuel steps per character are always enough (\<open>parse_value_fuel\<close> below).\<close>

definition parse_fuel :: "ustring \<Rightarrow> nat" where
  "parse_fuel cs = 3 * length cs + 1"

definition parse :: "bytes \<Rightarrow> jcs mcps_result" where
  "parse input =
     and_then (ok_or CanonicalizationFailed (from_utf8 input)) (\<lambda>text.
       let cs = skip_ws text in
       case parse_value (parse_fuel cs) 0 cs of
         Inl Out_of_fuel \<Rightarrow> Err CanonicalizationFailed
       | Inl (Rejected e) \<Rightarrow> Err e
       | Inr (v, rest) \<Rightarrow> if skip_ws rest \<noteq> [] then Err CanonicalizationFailed else Ok v)"

definition canonicalize :: "bytes \<Rightarrow> bytes mcps_result" where
  "canonicalize input = and_then (parse input) canonicalize_value"

end
