(* ===== verification/Canonical_Parser.thy ===== *)
theory Canonical_Parser
  imports Canonical
begin

text \<open>
  What the raw-bytes parser of \<open>canonical.rs\<close> guarantees on every input: it consumes what it
  reads, never runs out of the fuel \<open>parse\<close> gives it, fails only with
  \<open>CanonicalizationFailed\<close>, and returns only values of the safe domain (\<open>jcs_ok\<close>: unique
  member names, integers within 2^53 - 1, Unicode scalar strings, bounded nesting).
\<close>

section \<open>The parser consumes its input\<close>

definition shorter :: "ustring \<Rightarrow> ustring \<Rightarrow> bool" where
  "shorter r cs \<longleftrightarrow> length r < length cs \<and> set r \<subseteq> set cs"

lemma shorter_trans: "shorter a b \<Longrightarrow> shorter b c \<Longrightarrow> shorter a c"
  by (auto simp: shorter_def)

lemma shorter_Cons [simp]: "shorter cs (c # cs)"
  by (auto simp: shorter_def)

lemma shorter_ConsI: "shorter r cs \<Longrightarrow> shorter r (c # cs)"
  by (auto simp: shorter_def)

lemma shorter_valid: "shorter r cs \<Longrightarrow> valid_str cs \<Longrightarrow> valid_str r"
  by (auto simp: shorter_def valid_str_def)

lemma skip_ws_length: "length (skip_ws cs) \<le> length cs"
  by (simp add: skip_ws_def length_dropWhile_le)

lemma skip_ws_set: "set (skip_ws cs) \<subseteq> set cs"
  unfolding skip_ws_def by (auto dest: set_dropWhileD)

lemma shorter_skip_ws: "shorter r (skip_ws cs) \<Longrightarrow> shorter r cs"
  using skip_ws_length [of cs] skip_ws_set [of cs] by (auto simp: shorter_def)

lemma skip_ws_shorter: "shorter r cs \<Longrightarrow> shorter (skip_ws r) cs"
  using skip_ws_length [of r] skip_ws_set [of r] by (auto simp: shorter_def)

lemma skip_ws_valid: "valid_str cs \<Longrightarrow> valid_str (skip_ws cs)"
  using skip_ws_set [of cs] by (auto simp: valid_str_def)

lemma skip_ws_Cons: "skip_ws cs = c # r \<Longrightarrow> shorter r cs"
  using shorter_skip_ws [of r cs] by simp

lemma peek_Some: "peek cs = Some c \<longleftrightarrow> cs \<noteq> [] \<and> hd cs = c"
  by (cases cs) (auto simp: peek_def)

lemma peek_None: "peek cs = None \<longleftrightarrow> cs = []"
  by (cases cs) (auto simp: peek_def)

lemma peek_simps [simp]: "peek [] = None" "peek (c # cs) = Some c"
  by (simp_all add: peek_def)

lemma tl_shorter: "cs \<noteq> [] \<Longrightarrow> shorter (tl cs) cs"
  by (cases cs) auto

lemma expect_shorter: "expect c cs = Ok r \<Longrightarrow> shorter r cs"
  by (cases cs) (auto split: if_splits)

lemma parse_literal_shorter: "parse_literal l cs = Ok r \<Longrightarrow> l \<noteq> [] \<Longrightarrow> shorter r cs"
proof (induction l arbitrary: cs)
  case (Cons e es)
  then show ?case by (cases es) (auto simp: result_simps dest: expect_shorter shorter_trans)
qed simp

lemma read_hex_set: "read_hex n acc cs = Ok (v, r) \<Longrightarrow> set r \<subseteq> set cs"
  by (induction n acc cs rule: read_hex.induct) (auto simp: result_simps)

lemma read_hex4_shorter: "read_hex4 cs = Ok (v, r) \<Longrightarrow> shorter r cs"
  using read_hex4_length read_hex_set by (fastforce simp: shorter_def read_hex4_def)

lemma parse_unicode_escape_shorter: "parse_unicode_escape cs = Ok (c, r) \<Longrightarrow> shorter r cs"
  by (erule parse_unicode_escape_steps)
    (auto dest!: read_hex4_shorter expect_shorter intro: shorter_trans)

lemma parse_unicode_escape_scalar: "parse_unicode_escape cs = Ok (c, r) \<Longrightarrow> is_scalar c"
  unfolding parse_unicode_escape_def
  by (auto simp: result_simps char_from_u32_def split: if_split_asm)

lemma string_loop_spec:
  "string_loop out cs = Ok (s, r) \<Longrightarrow> shorter r cs \<and> (valid_str cs \<longrightarrow> valid_str out \<longrightarrow> valid_str s)"
proof (induction out cs rule: string_loop.induct)
  case (2 out c cs)
  consider "c = 34" | "c = 92" | "c \<noteq> 34" "c \<noteq> 92" by blast
  then show ?case
  proof cases
    case 2
    with "2.prems" obtain esc cs' where cs: "cs = esc # cs'" by (cases cs) auto
    show ?thesis
    proof (cases "esc = 117")
      case True
      with "2.prems" 2 cs obtain cp cs'' where e: "parse_unicode_escape cs' = Ok (cp, cs'')"
        and l: "string_loop (out @ [cp]) cs'' = Ok (s, r)" by (auto simp: result_simps)
      note e' = parse_unicode_escape_shorter [OF e] parse_unicode_escape_scalar [OF e]
      from "2.IH"(1) [OF _ _ cs True e refl l] 2
      have IH: "shorter r cs''" "valid_str cs'' \<longrightarrow> valid_str (out @ [cp]) \<longrightarrow> valid_str s" by auto
      from shorter_trans [OF IH(1) e'(1)] have "shorter r (c # cs)" by (simp add: cs shorter_ConsI)
      with IH(2) e' show ?thesis by (auto simp: cs dest: shorter_valid)
    next
      case False
      with "2.prems" 2 cs obtain e where e: "simple_escape esc = Some e"
        and l: "string_loop (out @ [e]) cs' = Ok (s, r)" by (auto split: option.splits)
      have "is_scalar e" using e by (auto simp: simple_escape_def is_scalar_def split: if_splits)
      with "2.IH"(2) [OF _ _ cs False e l] 2 show ?thesis
        by (auto simp: cs intro: shorter_ConsI)
    qed
  qed (use "2.prems" "2.IH"(3) in \<open>auto split: if_splits intro: shorter_trans\<close>)
qed simp

lemma parse_string_spec:
  "parse_string cs = Ok (s, r) \<Longrightarrow> shorter r cs \<and> (valid_str cs \<longrightarrow> valid_str s)"
  by (auto simp: parse_string_def result_simps dest!: string_loop_spec expect_shorter
      intro: shorter_trans dest: shorter_valid)

lemma parse_number_spec:
  assumes "parse_number cs = Ok (v, r)"
  shows "shorter r cs \<and> (\<exists>i. v = JInteger i \<and> \<bar>i\<bar> \<le> MAX_SAFE_INTEGER)"
proof -
  define cs' where "cs' = (if peek cs = Some 45 then tl cs else cs)"
  have sub: "length cs' \<le> length cs" "set cs' \<subseteq> set cs"
    by (auto simp: cs'_def dest: list.set_sel(2) split: if_splits) (metis list.set_sel(2) list.sel(2))
  from assms obtain c rest where cs': "cs' = c # rest" and r: "r = rest \<or> r = dropWhile is_digit rest"
    and "\<exists>i. v = JInteger i \<and> check_safe_integer i = Ok ()"
    unfolding parse_number_def Let_def cs'_def [symmetric]
    by (cases cs') (auto simp: result_simps split: if_split_asm)
  moreover have "length r \<le> length rest" "set r \<subseteq> set rest"
    using r by (auto simp: length_dropWhile_le dest: set_dropWhileD)
  ultimately show ?thesis using sub
    by (auto simp: shorter_def check_safe_integer_def split: if_splits)
qed

section \<open>The safe domain\<close>

fun jcs_ok :: "jcs \<Rightarrow> nat \<Rightarrow> bool" where
  "jcs_ok (JInteger i) d \<longleftrightarrow> \<bar>i\<bar> \<le> MAX_SAFE_INTEGER"
| "jcs_ok (JString s) d \<longleftrightarrow> valid_str s"
| "jcs_ok (JArray vs) d \<longleftrightarrow> d < MAX_PARSE_DEPTH \<and> list_all (\<lambda>v. jcs_ok v (d + 1)) vs"
| "jcs_ok (JObject ms) d \<longleftrightarrow>
     d < MAX_PARSE_DEPTH \<and> distinct (map fst ms) \<and> list_all (\<lambda>(k, v). valid_str k \<and> jcs_ok v (d + 1)) ms"
| "jcs_ok _ d \<longleftrightarrow> True"


definition members_ok :: "(ustring \<times> jcs) list \<Rightarrow> nat \<Rightarrow> bool" where
  "members_ok ms d \<longleftrightarrow>
     distinct (map fst ms) \<and> list_all (\<lambda>(k, v). valid_str k \<and> jcs_ok v d) ms"

lemma members_ok_snoc:
  "members_ok (ms @ [(k, v)]) d \<longleftrightarrow> members_ok ms d \<and> k \<notin> fst ` set ms \<and> valid_str k \<and> jcs_ok v d"
  by (auto simp: members_ok_def)

section \<open>Inversion of the parse rules\<close>

lemma parse_value_cases:
  assumes "parse_value (Suc f) d cs = Inr (v, r)"
  obtains
    (object) "d < MAX_PARSE_DEPTH" "parse_object f (d + 1) cs = Inr (v, r)"
  | (array) "d < MAX_PARSE_DEPTH" "parse_array f (d + 1) cs = Inr (v, r)"
  | (string) s where "parse_string cs = Ok (s, r)" "v = JString s"
  | (bool) b l where "parse_literal l cs = Ok r" "l \<noteq> []" "v = JBool b"
  | (null) l where "parse_literal l cs = Ok r" "l \<noteq> []" "v = JNull"
  | (number) "parse_number cs = Ok (v, r)"
proof (cases "peek cs")
  case (Some c)
  consider "c = 123 \<or> c = 91" | "c = 34" | "c = 116 \<or> c = 102" | "c = 110"
    | "c \<notin> {123, 91, 34, 116, 102, 110}" by blast
  then show thesis
  proof cases
    case 3
    with assms Some have "parse_bool cs = Ok (v, r)" by (auto simp: result_simps split: if_split_asm)
    then show thesis
      using bool [of "lit ''true''" True] bool [of "lit ''false''" False]
      by (auto simp: parse_bool_def result_simps split: if_split_asm)
  next
    case 4
    with assms Some have "parse_null cs = Ok (v, r)" by (auto simp: result_simps)
    then show thesis using null [of "lit ''null''"] by (auto simp: parse_null_def result_simps)
  qed (use assms Some object array string number in
      \<open>auto simp: result_simps not_le split: if_split_asm\<close>)
qed (use assms in simp)

lemma parse_object_cases:
  assumes "parse_object (Suc f) d cs = Inr (v, r)"
  obtains cs1 where "expect 123 cs = Ok cs1"
    "v = JObject [] \<and> skip_ws cs1 = 125 # r \<or> member_loop f d [] [] (skip_ws cs1) = Inr (v, r)"
proof -
  from assms obtain cs1 where "expect 123 cs = Ok cs1" by (auto simp: result_simps)
  with assms that [OF this] show thesis
    by (cases "skip_ws cs1") (auto simp: Let_def split: if_split_asm)
qed

lemma parse_array_cases:
  assumes "parse_array (Suc f) d cs = Inr (v, r)"
  obtains cs1 where "expect 91 cs = Ok cs1"
    "v = JArray [] \<and> skip_ws cs1 = 93 # r \<or> item_loop f d [] (skip_ws cs1) = Inr (v, r)"
proof -
  from assms obtain cs1 where "expect 91 cs = Ok cs1" by (auto simp: result_simps)
  with assms that [OF this] show thesis
    by (cases "skip_ws cs1") (auto simp: Let_def split: if_split_asm)
qed

lemma member_loop_cases:
  assumes "member_loop (Suc f) d ms seen cs = Inr (v, r)"
  obtains key cs2 cs3 w cs4 c cs5 where
    "parse_string (skip_ws cs) = Ok (key, cs2)" "key \<notin> set seen" "expect 58 (skip_ws cs2) = Ok cs3"
    "parse_value f d (skip_ws cs3) = Inr (w, cs4)" "skip_ws cs4 = c # cs5"
    "member_loop f d (ms @ [(key, w)]) (key # seen) cs5 = Inr (v, r) \<or>
     v = JObject (ms @ [(key, w)]) \<and> r = cs5"
proof -
  from assms obtain key cs2 cs3 w cs4 where
    p: "parse_string (skip_ws cs) = Ok (key, cs2)" "key \<notin> set seen" "expect 58 (skip_ws cs2) = Ok cs3"
      "parse_value f d (skip_ws cs3) = Inr (w, cs4)"
    by (auto simp: Let_def result_simps split: if_split_asm)
  moreover from assms p have "peek (skip_ws cs) = Some 34" by (auto simp: Let_def split: if_split_asm)
  ultimately show thesis
    using assms that [OF p] by (cases "skip_ws cs4") (auto simp: Let_def split: if_split_asm)
qed

lemma item_loop_cases:
  assumes "item_loop (Suc f) d vs cs = Inr (v, r)"
  obtains w cs1 c cs2 where
    "parse_value f d (skip_ws cs) = Inr (w, cs1)" "skip_ws cs1 = c # cs2"
    "item_loop f d (vs @ [w]) cs2 = Inr (v, r) \<or> v = JArray (vs @ [w]) \<and> r = cs2"
proof -
  from assms obtain w cs1 where p: "parse_value f d (skip_ws cs) = Inr (w, cs1)"
    by (auto simp: Let_def result_simps)
  with assms that [OF p] show thesis
    by (cases "skip_ws cs1") (auto simp: Let_def split: if_split_asm)
qed

lemma fuel_zero [simp]:
  "parse_value 0 d cs \<noteq> Inr x" "parse_object 0 d cs \<noteq> Inr x" "member_loop 0 d ms seen cs \<noteq> Inr x"
  "parse_array 0 d cs \<noteq> Inr x" "item_loop 0 d vs cs \<noteq> Inr x"
  by simp_all

lemmas parse_simps = parse_value.simps parse_object.simps member_loop.simps parse_array.simps item_loop.simps
declare parse_simps [simp del]

lemmas shorter_intros = skip_ws_Cons expect_shorter shorter_skip_ws

lemma parse_shorter:
  "parse_value f d cs = Inr (v, r) \<Longrightarrow> shorter r cs"
  "parse_object f d cs = Inr (v, r) \<Longrightarrow> shorter r cs"
  "member_loop f d ms seen cs = Inr (v, r) \<Longrightarrow> shorter r cs"
  "parse_array f d cs = Inr (v, r) \<Longrightarrow> shorter r cs"
  "item_loop f d vs cs = Inr (v, r) \<Longrightarrow> shorter r cs"
proof (induction f arbitrary: d cs v r ms seen vs)
  case (Suc f)
  {
    case 1
    then show ?case by (cases rule: parse_value_cases)
      (auto dest: Suc.IH(2,4) parse_string_spec parse_number_spec parse_literal_shorter)
  next
    case 2
    then show ?case
    proof (cases rule: parse_object_cases)
      case (1 cs1)
      then have "shorter r cs1" by (auto dest!: Suc.IH(3) intro: skip_ws_Cons shorter_skip_ws)
      with expect_shorter [OF 1(1)] show ?thesis by (blast intro: shorter_trans)
    qed
  next
    case 3
    then show ?case
    proof (cases rule: member_loop_cases)
      case (1 key cs2 cs3 w cs4 c cs5)
      have "shorter cs5 cs4" "shorter cs4 cs3" "shorter cs3 cs2" "shorter cs2 cs"
        using 1 by (blast intro: shorter_intros Suc.IH(1) dest: parse_string_spec)+
      then have "shorter cs5 cs" by (blast intro: shorter_trans)
      moreover have "shorter r cs5 \<or> r = cs5" using 1 by (blast dest: Suc.IH(3))
      ultimately show ?thesis by (blast intro: shorter_trans)
    qed
  next
    case 4
    then show ?case
    proof (cases rule: parse_array_cases)
      case (1 cs1)
      then have "shorter r cs1" by (auto dest!: Suc.IH(5) intro: skip_ws_Cons shorter_skip_ws)
      with expect_shorter [OF 1(1)] show ?thesis by (blast intro: shorter_trans)
    qed
  next
    case 5
    then show ?case
    proof (cases rule: item_loop_cases)
      case (1 w cs1 c cs2)
      have "shorter cs2 cs1" "shorter cs1 cs" using 1 by (blast intro: shorter_intros Suc.IH(1))+
      then have "shorter cs2 cs" by (blast intro: shorter_trans)
      moreover have "shorter r cs2 \<or> r = cs2" using 1 by (blast dest: Suc.IH(5))
      ultimately show ?thesis by (blast intro: shorter_trans)
    qed
  }
qed simp_all


section \<open>Accepted values lie in the safe domain\<close>

lemma parse_ok:
  "parse_value f d cs = Inr (v, r) \<Longrightarrow> valid_str cs \<Longrightarrow> jcs_ok v d"
  "parse_object f d cs = Inr (v, r) \<Longrightarrow> valid_str cs \<Longrightarrow> \<exists>ms. v = JObject ms \<and> members_ok ms d"
  "member_loop f d ms seen cs = Inr (v, r) \<Longrightarrow> valid_str cs \<Longrightarrow> members_ok ms d \<Longrightarrow>
     set seen = fst ` set ms \<Longrightarrow> \<exists>ms. v = JObject ms \<and> members_ok ms d"
  "parse_array f d cs = Inr (v, r) \<Longrightarrow> valid_str cs \<Longrightarrow>
     \<exists>vs. v = JArray vs \<and> list_all (\<lambda>w. jcs_ok w d) vs"
  "item_loop f d vs cs = Inr (v, r) \<Longrightarrow> valid_str cs \<Longrightarrow> list_all (\<lambda>w. jcs_ok w d) vs \<Longrightarrow>
     \<exists>vs. v = JArray vs \<and> list_all (\<lambda>w. jcs_ok w d) vs"
proof (induction f arbitrary: d cs v r ms seen vs)
  case (Suc f)
  {
    case 1
    note valid = \<open>valid_str cs\<close>
    from \<open>parse_value (Suc f) d cs = Inr (v, r)\<close> show ?case
    proof (cases rule: parse_value_cases)
      case object
      with Suc.IH(2) valid show ?thesis by (fastforce simp: members_ok_def)
    next
      case array
      with Suc.IH(4) valid show ?thesis by fastforce
    qed (use valid in \<open>auto dest: parse_string_spec parse_number_spec\<close>)
  next
    case 2
    then show ?case
    proof (cases rule: parse_object_cases)
      case (1 cs1)
      then have "valid_str (skip_ws cs1)"
        using \<open>valid_str cs\<close> by (meson expect_shorter shorter_valid skip_ws_valid)
      with 1 show ?thesis by (auto dest!: Suc.IH(3) simp: members_ok_def)
    qed
  next
    case 3
    from \<open>member_loop (Suc f) d ms seen cs = Inr (v, r)\<close> show ?case
    proof (cases rule: member_loop_cases)
      case (1 key cs2 cs3 w cs4 c cs5)
      have k: "valid_str key" "valid_str cs2"
        using parse_string_spec [OF 1(1)] 3(2) by (auto dest: skip_ws_valid shorter_valid)
      then have cs3: "valid_str (skip_ws cs3)"
        using 1(3) by (meson expect_shorter shorter_valid skip_ws_valid)
      then have w: "jcs_ok w d" and cs4: "valid_str cs4"
        using Suc.IH(1) [OF 1(4)] parse_shorter(1) [OF 1(4)] shorter_valid by blast+
      then have cs5: "valid_str cs5" using 1(5) by (blast intro: shorter_valid skip_ws_Cons)
      have ms: "members_ok (ms @ [(key, w)]) d" using 3 1(2) k(1) w by (simp add: members_ok_snoc)
      have "set (key # seen) = fst ` set (ms @ [(key, w)])" using 3(4) by simp
      then show ?thesis using 1(6) ms Suc.IH(3) [OF _ cs5 ms] by blast
    qed
  next
    case 4
    then show ?case
    proof (cases rule: parse_array_cases)
      case (1 cs1)
      then have "valid_str (skip_ws cs1)"
        using \<open>valid_str cs\<close> by (meson expect_shorter shorter_valid skip_ws_valid)
      with 1 show ?thesis by (auto dest!: Suc.IH(5))
    qed
  next
    case 5
    from \<open>item_loop (Suc f) d vs cs = Inr (v, r)\<close> show ?case
    proof (cases rule: item_loop_cases)
      case (1 w cs1 c cs2)
      have w: "jcs_ok w d" and cs1: "valid_str cs1"
        using Suc.IH(1) [OF 1(1)] parse_shorter(1) [OF 1(1)] 5(2) skip_ws_valid shorter_valid by blast+
      then have cs2: "valid_str cs2" using 1(2) by (blast intro: shorter_valid skip_ws_Cons)
      have vs: "list_all (\<lambda>w. jcs_ok w d) (vs @ [w])" using 5 w by simp
      show ?thesis using 1(3) vs Suc.IH(5) [OF _ cs2 vs] by blast
    qed
  }
qed simp_all

section \<open>Fuel and errors\<close>

lemma expect_error: "expect c cs = Err e \<Longrightarrow> e = CanonicalizationFailed"
  by (cases cs) (auto split: if_splits)

lemma parse_literal_error: "parse_literal l cs = Err e \<Longrightarrow> e = CanonicalizationFailed"
  by (induction l arbitrary: cs) (auto simp: result_simps dest: expect_error)

lemma read_hex_error: "read_hex n acc cs = Err e \<Longrightarrow> e = CanonicalizationFailed"
  by (induction n acc cs rule: read_hex.induct) (auto simp: result_simps)

lemma parse_unicode_escape_error: "parse_unicode_escape cs = Err e \<Longrightarrow> e = CanonicalizationFailed"
  unfolding parse_unicode_escape_def read_hex4_def
  by (auto simp: result_simps dest: read_hex_error expect_error split: if_split_asm)

lemma string_loop_error: "string_loop out cs = Err e \<Longrightarrow> e = CanonicalizationFailed"
  by (induction out cs rule: string_loop.induct)
    (auto simp: result_simps dest: parse_unicode_escape_error split: if_split_asm list.split_asm option.split_asm)

lemma parse_string_error: "parse_string cs = Err e \<Longrightarrow> e = CanonicalizationFailed"
  by (auto simp: parse_string_def result_simps dest: expect_error string_loop_error)

lemma check_safe_integer_error: "check_safe_integer i = Err e \<Longrightarrow> e = CanonicalizationFailed"
  by (auto simp: check_safe_integer_def split: if_splits)

lemma parse_number_error: "parse_number cs = Err e \<Longrightarrow> e = CanonicalizationFailed"
  unfolding parse_number_def Let_def
  by (auto simp: result_simps dest: check_safe_integer_error split: if_split_asm list.split_asm)

lemmas token_errors = expect_error parse_literal_error parse_string_error parse_number_error

text \<open>A failing parse step either rejects on its own or passes on the failure of a nested step, which
  runs on no more input.\<close>

lemma parse_value_fails:
  assumes "parse_value (Suc f) d cs = Inl x"
  obtains (own) "x = Rejected CanonicalizationFailed"
  | (object) "cs \<noteq> []" "parse_object f (d + 1) cs = Inl x"
  | (array) "cs \<noteq> []" "parse_array f (d + 1) cs = Inl x"
proof (cases "peek cs")
  case (Some c)
  then have "cs \<noteq> []" by (simp add: peek_Some)
  show thesis
  proof (cases "c = 123 \<or> c = 91")
    case True
    with assms Some \<open>cs \<noteq> []\<close> show thesis
      by (auto simp: parse_simps split: if_split_asm intro: own object array)
  next
    case False
    with assms Some have "x = Rejected CanonicalizationFailed"
      by (auto simp: parse_simps result_simps parse_bool_def parse_null_def split: if_split_asm dest: token_errors)
    then show thesis by (rule own)
  qed
qed (use assms own in \<open>simp add: parse_simps\<close>)

lemma parse_object_fails:
  assumes "parse_object (Suc f) d cs = Inl x"
  obtains (own) "x = Rejected CanonicalizationFailed"
  | (loop) cs1 where "shorter cs1 cs" "member_loop f d [] [] cs1 = Inl x"
proof (cases "expect 123 cs")
  case (Inr cs1)
  with assms own loop [of "skip_ws cs1"] show thesis
    by (auto simp: parse_simps Let_def split: if_split_asm dest: expect_shorter intro: skip_ws_shorter)
qed (use assms own in \<open>auto simp: parse_simps dest: token_errors\<close>)

lemma parse_array_fails:
  assumes "parse_array (Suc f) d cs = Inl x"
  obtains (own) "x = Rejected CanonicalizationFailed"
  | (loop) cs1 where "shorter cs1 cs" "item_loop f d [] cs1 = Inl x"
proof (cases "expect 91 cs")
  case (Inr cs1)
  with assms own loop [of "skip_ws cs1"] show thesis
    by (auto simp: parse_simps Let_def split: if_split_asm dest: expect_shorter intro: skip_ws_shorter)
qed (use assms own in \<open>auto simp: parse_simps dest: token_errors\<close>)

lemma item_loop_fails:
  assumes "item_loop (Suc f) d vs cs = Inl x"
  obtains (own) "x = Rejected CanonicalizationFailed"
  | (item) "parse_value f d (skip_ws cs) = Inl x"
  | (loop) vs' cs2 where "shorter cs2 cs" "item_loop f d vs' cs2 = Inl x"
proof (cases "parse_value f d (skip_ws cs)")
  case (Inr p)
  then obtain w cs1 where p: "parse_value f d (skip_ws cs) = Inr (w, cs1)" by (cases p) auto
  show thesis
  proof (cases "skip_ws cs1")
    case (Cons c cs2)
    have "shorter cs2 cs"
      using skip_ws_Cons [OF Cons] shorter_skip_ws [OF parse_shorter(1) [OF p]] by (rule shorter_trans)
    with assms p Cons show thesis
      by (auto simp: parse_simps Let_def split: if_split_asm intro: own loop)
  qed (use assms own p in \<open>auto simp: parse_simps Let_def\<close>)
qed (use assms item in \<open>auto simp: parse_simps\<close>)

lemma member_loop_fails:
  assumes "member_loop (Suc f) d ms seen cs = Inl x"
  obtains (own) "x = Rejected CanonicalizationFailed"
  | (item) cs1 where "shorter cs1 cs" "parse_value f d cs1 = Inl x"
  | (loop) ms' seen' cs1 where "shorter cs1 cs" "member_loop f d ms' seen' cs1 = Inl x"
proof (cases "peek (skip_ws cs) = Some 34 \<and> (\<exists>key cs2 cs3. parse_string (skip_ws cs) = Ok (key, cs2) \<and>
    key \<notin> set seen \<and> expect 58 (skip_ws cs2) = Ok cs3)")
  case True
  then obtain key cs2 cs3 where q: "peek (skip_ws cs) = Some 34" "parse_string (skip_ws cs) = Ok (key, cs2)"
    "key \<notin> set seen" "expect 58 (skip_ws cs2) = Ok cs3" by blast
  have "shorter cs2 cs" "shorter cs3 cs2"
    using q by (auto dest: parse_string_spec expect_shorter intro: shorter_skip_ws)
  then have cs3: "shorter cs3 cs" by (blast intro: shorter_trans)
  show thesis
  proof (cases "parse_value f d (skip_ws cs3)")
    case (Inl y)
    with assms q item [OF skip_ws_shorter [OF cs3]] show thesis by (auto simp: parse_simps)
  next
    case (Inr p)
    then obtain w cs4 where p: "parse_value f d (skip_ws cs3) = Inr (w, cs4)" by (cases p) auto
    show thesis
    proof (cases "skip_ws cs4")
      case (Cons c cs5)
      have "shorter cs5 cs"
        using skip_ws_Cons [OF Cons] shorter_skip_ws [OF parse_shorter(1) [OF p]] cs3
        by (blast intro: shorter_trans)
      with assms q p Cons show thesis
        by (auto simp: parse_simps Let_def split: if_split_asm intro: own loop)
    qed (use assms own q p in \<open>auto simp: parse_simps Let_def\<close>)
  qed
next
  case False
  then have "x = Rejected CanonicalizationFailed"
    using assms by (auto simp: parse_simps Let_def result_simps split: if_split_asm dest: token_errors)
  then show thesis by (rule own)
qed

lemma parse_rejected:
  "parse_value f d cs = Inl (Rejected e) \<Longrightarrow> e = CanonicalizationFailed"
  "parse_object f d cs = Inl (Rejected e) \<Longrightarrow> e = CanonicalizationFailed"
  "member_loop f d ms seen cs = Inl (Rejected e) \<Longrightarrow> e = CanonicalizationFailed"
  "parse_array f d cs = Inl (Rejected e) \<Longrightarrow> e = CanonicalizationFailed"
  "item_loop f d vs cs = Inl (Rejected e) \<Longrightarrow> e = CanonicalizationFailed"
proof (induction f arbitrary: d cs ms seen vs)
  case (Suc f)
  {
    case 1 then show ?case by (cases rule: parse_value_fails) (auto dest: Suc.IH)
  next
    case 2 then show ?case by (cases rule: parse_object_fails) (auto dest: Suc.IH)
  next
    case 3 then show ?case by (cases rule: member_loop_fails) (auto dest: Suc.IH)
  next
    case 4 then show ?case by (cases rule: parse_array_fails) (auto dest: Suc.IH)
  next
    case 5 then show ?case by (cases rule: item_loop_fails) (auto dest: Suc.IH)
  }
qed (simp_all add: parse_simps)

lemma parse_value_fuel:
  "parse_value f d cs = Inl Out_of_fuel \<Longrightarrow> f \<le> 3 * length cs"
  "parse_object f d cs = Inl Out_of_fuel \<Longrightarrow> cs \<noteq> [] \<Longrightarrow> f < 3 * length cs"
  "member_loop f d ms seen cs = Inl Out_of_fuel \<Longrightarrow> f \<le> 3 * length cs + 1"
  "parse_array f d cs = Inl Out_of_fuel \<Longrightarrow> cs \<noteq> [] \<Longrightarrow> f < 3 * length cs"
  "item_loop f d vs cs = Inl Out_of_fuel \<Longrightarrow> f \<le> 3 * length cs + 1"
proof (induction f arbitrary: d cs ms seen vs)
  case (Suc f)
  {
    case 1 then show ?case
      by (cases rule: parse_value_fails) (auto dest: Suc.IH(2,4))
  next
    case 2 then show ?case
      by (cases rule: parse_object_fails) (auto dest!: Suc.IH(3) simp: shorter_def)
  next
    case 3 then show ?case
      by (cases rule: member_loop_fails) (auto dest!: Suc.IH(1,3) simp: shorter_def)
  next
    case 4 then show ?case
      by (cases rule: parse_array_fails) (auto dest!: Suc.IH(5) simp: shorter_def)
  next
    case 5 then show ?case
      using skip_ws_length [of cs]
      by (cases rule: item_loop_fails) (auto dest!: Suc.IH(1,5) simp: shorter_def)
  }
qed auto

lemma parse_error:
  assumes "parse bs = Err e"
  shows "e = CanonicalizationFailed"
proof (cases "from_utf8 bs")
  case (Some cs)
  define p where "p = parse_value (parse_fuel (skip_ws cs)) 0 (skip_ws cs)"
  show ?thesis
    using assms parse_rejected(1) [of "parse_fuel (skip_ws cs)" 0 "skip_ws cs", folded p_def]
    unfolding parse_def Some ok_or.simps and_then.simps Let_def p_def [symmetric]
    by (auto split: sum.split_asm parse_error.split_asm if_split_asm)
qed (use assms in \<open>simp add: parse_def\<close>)

text \<open>The out-of-fuel branch of \<open>parse\<close> is dead.\<close>

lemma parse_fuel_enough: "parse_value (parse_fuel cs) d cs \<noteq> Inl Out_of_fuel"
  using parse_value_fuel(1) [of "parse_fuel cs" d cs] by (auto simp: parse_fuel_def)

lemma parse_Ok:
  "parse bs = Ok v \<longleftrightarrow>
     (\<exists>cs rest. from_utf8 bs = Some cs \<and>
       parse_value (parse_fuel (skip_ws cs)) 0 (skip_ws cs) = Inr (v, rest) \<and> skip_ws rest = [])"
proof (cases "from_utf8 bs")
  case (Some cs)
  define p where "p = parse_value (parse_fuel (skip_ws cs)) 0 (skip_ws cs)"
  show ?thesis
    unfolding parse_def Some ok_or.simps and_then.simps Let_def p_def [symmetric] option.inject simp_thms
    by (auto simp: p_def [symmetric] split: sum.splits parse_error.splits)
qed (simp add: parse_def)

lemma parse_safe: "parse bs = Ok v \<Longrightarrow> jcs_ok v 0"
  unfolding parse_Ok by (blast intro: parse_ok(1) skip_ws_valid from_utf8_valid)

end
