(* ===== verification/Canonical_Roundtrip.thy ===== *)
theory Canonical_Roundtrip
  imports Canonical_Parser "HOL-Library.Multiset"
begin

text \<open>
  The canonical serializer of \<open>canonical.rs\<close> read back by its own parser: the value written
  and the value parsed agree up to the order of object members (\<open>sort_value\<close>), so canonical
  bytes determine the value, members may come in any order, and canonical bytes are a fixed
  point of canonicalization. The value path through \<open>serde_json::Value\<close> is shown injective.
\<close>

section \<open>Member order\<close>

lemma cmp_units_less: "cmp_units xs ys = Less \<longleftrightarrow> xs < ys"
  by (induction xs ys rule: cmp_units.induct) auto

lemma cmp_units_greater: "cmp_units xs ys = Greater \<longleftrightarrow> ys < xs"
  by (induction xs ys rule: cmp_units.induct) auto

abbreviation member_key :: "ustring \<times> 'v \<Rightarrow> nat list" where
  "member_key \<equiv> encode_utf16 \<circ> fst"

lemma insert_by_insort:
  "insert_by (\<lambda>a b. cmp_utf16 (fst a) (fst b)) x xs = insort_key member_key x xs"
  by (induction xs) (auto simp: cmp_utf16_def cmp_units_greater)

lemma sort_members_sort_key: "sort_members ms = sort_key member_key ms"
  unfolding sort_members_def sort_by_def sort_key_def
  by (rule foldr_cong) (simp_all add: insert_by_insort fun_eq_iff)

lemma set_sort_members [simp]: "set (sort_members ms) = set ms"
  by (simp add: sort_members_sort_key)

lemma sort_members_sorted: "sorted (map member_key (sort_members ms))"
  unfolding sort_members_sort_key by (rule sorted_sort_key)

lemma distinct_sort_members:
  "distinct (map fst ms) \<Longrightarrow> distinct (map fst (sort_members ms))"
proof -
  have "mset (map fst (sort_members ms)) = mset (map fst ms)"
    by (simp add: sort_members_sort_key)
  then show "distinct (map fst ms) \<Longrightarrow> ?thesis" by (metis mset_eq_imp_distinct_iff)
qed


lemma sort_members_map:
  "sort_members (map (\<lambda>(k, v). (k, g v)) ms) = map (\<lambda>(k, v). (k, g v)) (sort_members ms)"
proof -
  have "insort_key member_key (k, g v) (map (\<lambda>(k, v). (k, g v)) xs) =
      map (\<lambda>(k, v). (k, g v)) (insort_key member_key (k, v) xs)" for k v xs
    by (induction xs) auto
  then show ?thesis by (induction ms) (auto simp: sort_members_sort_key)
qed

lemma sort_members_idem [simp]: "sort_members (sort_members ms) = sort_members ms"
  using sort_members_sorted [of ms] by (simp add: sort_members_sort_key [of "sort_members ms"] sorted_sort_id sort_key_id_if_sorted)

lemma distinct_no_adjacent: "distinct (map fst xs) \<Longrightarrow> \<not> adjacent_dup xs"
  by (induction xs rule: adjacent_dup.induct) auto

lemma sorted_adjacent_distinct:
  "sorted (map member_key xs) \<Longrightarrow> \<forall>x \<in> set xs. valid_str (fst x) \<Longrightarrow> \<not> adjacent_dup xs \<Longrightarrow> distinct (map fst xs)"
proof (induction xs rule: adjacent_dup.induct)
  case (1 a b ms)
  have "encode_utf16 (fst a) \<noteq> encode_utf16 (fst b)"
    using 1 encode_utf16_inj by auto
  then have "encode_utf16 (fst a) < encode_utf16 (fst b)" using 1 by auto
  then have "\<forall>x \<in> set (b # ms). encode_utf16 (fst a) < encode_utf16 (fst x)" using 1 by fastforce
  then have "fst a \<notin> fst ` set (b # ms)" by fastforce
  then show ?case using 1 by auto
qed auto

text \<open>Equal member sets sort to one list.\<close>

lemma sort_members_unique:
  assumes "set ms = set ns" "distinct (map fst ms)" "distinct (map fst ns)" "\<forall>x \<in> set ms. valid_str (fst x)"
  shows "sort_members ms = sort_members ns"
proof (rule map_sorted_distinct_set_unique [where f = member_key])
  have inj: "inj_on member_key (set xs)" if "distinct (map fst xs)" "\<forall>x \<in> set xs. valid_str (fst x)" for xs :: "(ustring \<times> 'a) list"
    using that encode_utf16_inj by (auto simp: distinct_map inj_on_def)
  show "inj_on member_key (set (sort_members ms) \<union> set (sort_members ns))"
    using inj [of ms] assms by simp
  show "distinct (map member_key (sort_members ms))" "distinct (map member_key (sort_members ns))"
    using assms inj [of "sort_members ms"] inj [of "sort_members ns"] distinct_sort_members
    by (fastforce simp: distinct_map)+
qed (use assms sort_members_sorted in auto)

section \<open>Tokens\<close>

text \<open>What may follow a value without extending a number.\<close>

definition follows :: "ustring \<Rightarrow> bool" where
  "follows rest \<longleftrightarrow> (case rest of [] \<Rightarrow> True | c # _ \<Rightarrow> \<not> is_digit c \<and> c \<noteq> 46 \<and> c \<noteq> 101 \<and> c \<noteq> 69)"

definition starts :: "ustring \<Rightarrow> bool" where
  "starts out \<longleftrightarrow> out \<noteq> [] \<and> \<not> is_ws (hd out) \<and> hd out \<noteq> 93 \<and> hd out \<noteq> 125"

lemma follows_sep [simp]: "follows (44 # r)" "follows (93 # r)" "follows (125 # r)" "follows []"
  by (simp_all add: follows_def is_digit_def)

lemma starts_append: "starts out \<Longrightarrow> starts (out @ r)"
  by (auto simp: starts_def)

lemma starts_skip_ws [simp]: "starts out \<Longrightarrow> skip_ws out = out"
  by (cases out) (auto simp: starts_def skip_ws_def)

lemma skip_ws_sep [simp]: "skip_ws (44 # r) = 44 # r" "skip_ws (93 # r) = 93 # r"
  "skip_ws (125 # r) = 125 # r" "skip_ws (58 # r) = 58 # r" "skip_ws (34 # r) = 34 # r"
  by (simp_all add: skip_ws_def is_ws_def)

lemma hex_char_digit: "d < 16 \<Longrightarrow> to_hex_digit (hex_char d) = Some d"
  by (auto simp: to_hex_digit_def hex_char_def)

lemma unicode_escape_control:
  assumes "c \<le> 0x1F"
  shows "parse_unicode_escape (48 # 48 # hex_char (c div 16) # hex_char (c mod 16) # r) = Ok (c, r)"
proof -
  have d: "c div 16 < 16" "c mod 16 < 16" using assms by auto
  have four: "4 = Suc (Suc (Suc (Suc 0)))" by simp
  have "to_hex_digit 48 = Some 0" by (simp add: to_hex_digit_def)
  then have "read_hex4 (48 # 48 # hex_char (c div 16) # hex_char (c mod 16) # r) = Ok (c, r)"
    unfolding read_hex4_def four using d by (simp add: hex_char_digit)
  then show ?thesis
    using assms by (simp add: parse_unicode_escape_def char_from_u32_def is_scalar_def)
qed

lemma string_loop_write_char:
  "string_loop out (write_char c @ r) = string_loop (out @ [c]) r"
  by (auto simp: write_char_def simple_escape_def unicode_escape_control)

lemma string_loop_write:
  "string_loop out (concat (map write_char s) @ 34 # r) = Ok (out @ s, r)"
  by (induction s arbitrary: out) (simp_all add: string_loop_write_char)

lemma parse_string_write [simp]: "parse_string (write_string s @ r) = Ok (s, r)"
  by (simp add: parse_string_def write_string_def string_loop_write)

lemma write_string_Cons: "\<exists>t. write_string s = 34 # t"
  by (simp add: write_string_def)

lemma takeWhile_digits:
  "\<forall>c \<in> set ds. is_digit c \<Longrightarrow> follows r \<Longrightarrow> takeWhile is_digit (ds @ r) = ds \<and> dropWhile is_digit (ds @ r) = r"
  by (induction ds) (auto simp: follows_def split: list.splits)

lemma parse_digits_write:
  assumes "follows r"
  shows "(case dec n @ r of [] \<Rightarrow> Err CanonicalizationFailed
     | c # rest \<Rightarrow> if c = 48 then Ok ([48], rest)
         else if 49 \<le> c \<and> c \<le> 57 then Ok (c # takeWhile is_digit rest, dropWhile is_digit rest)
         else Err CanonicalizationFailed) = Ok (dec n, r)"
proof -
  obtain c ds where d: "dec n = c # ds" by (cases "dec n") auto
  have dig: "\<forall>x \<in> set (dec n). is_digit x" using dec_digits by blast
  show ?thesis
  proof (cases "c = 48")
    case True
    with d have "n = 0" using dec_hd [of n] by simp
    with d have "ds = []" by simp
    with d True show ?thesis by simp
  next
    case False
    then show ?thesis using d dig assms takeWhile_digits [of ds r] by (auto simp: is_digit_def)
  qed
qed

lemma parse_number_write:
  assumes "follows r" "\<bar>i\<bar> \<le> MAX_SAFE_INTEGER"
  shows "parse_number (write_integer i @ r) = Ok (JInteger i, r)"
proof -
  have follow: "peek r \<notin> {Some 46, Some 101, Some 69}"
    using assms(1) by (auto simp: follows_def peek_def split: list.splits)
  have safe: "is_i64 i" "check_safe_integer i = Ok ()"
    using assms(2) by (auto simp: i64_simps MAX_SAFE_INTEGER_def check_safe_integer_def)
  have nd: "peek (dec n @ r) \<noteq> Some 45" for n
    using dec_digits [of 45 n] by (cases "dec n") (auto simp: is_digit_def)
  show ?thesis
  proof (cases "i < 0")
    case True
    then have w: "write_integer i @ r = 45 # (dec (nat (- i)) @ r)" by (simp add: write_integer_def)
    have "parse_i64 True (dec (nat (- i))) = Some i" using True safe by (simp add: parse_i64_def Let_def)
    then show ?thesis
      unfolding parse_number_def w Let_def peek_simps list.sel simp_thms if_True parse_digits_write [OF assms(1)]
        and_then.simps prod.case
      using follow safe by simp
  next
    case False
    then have w: "write_integer i @ r = dec (nat i) @ r" by (simp add: write_integer_def)
    have "parse_i64 False (dec (nat i)) = Some i" using False safe by (simp add: parse_i64_def Let_def)
    then show ?thesis
      unfolding parse_number_def w Let_def nd [THEN eq_False [THEN iffD2]] simp_thms if_False parse_digits_write [OF assms(1)]
        and_then.simps prod.case
      using follow safe by simp
  qed
qed


section \<open>Reading back what was written\<close>

fun sort_value :: "jcs \<Rightarrow> jcs" where
  "sort_value (JArray vs) = JArray (map sort_value vs)"
| "sort_value (JObject ms) = JObject (sort_members (map (\<lambda>(k, v). (k, sort_value v)) ms))"
| "sort_value v = v"

definition reads :: "nat \<Rightarrow> ustring \<Rightarrow> jcs \<Rightarrow> bool" where
  "reads d out v \<longleftrightarrow> starts out \<and>
     (\<forall>rest f. follows rest \<longrightarrow> 3 * length (out @ rest) < f \<longrightarrow> parse_value f d (out @ rest) = Inr (v, rest))"

lemma readsI:
  assumes "starts out"
    "\<And>rest f. follows rest \<Longrightarrow> 3 * length (out @ rest) \<le> f \<Longrightarrow> parse_value (Suc f) d (out @ rest) = Inr (v, rest)"
  shows "reads d out v"
  unfolding reads_def using assms by (metis less_Suc_eq_le gr0_conv_Suc less_nat_zero_code not_gr_zero)

lemma readsD:
  "reads d out v \<Longrightarrow> follows rest \<Longrightarrow> 3 * length (out @ rest) < f \<Longrightarrow> parse_value f d (out @ rest) = Inr (v, rest)"
  by (simp add: reads_def)

lemma reads_starts: "reads d out v \<Longrightarrow> starts out"
  by (simp add: reads_def)

lemma comma_sep_Cons: "outs \<noteq> [] \<Longrightarrow> comma_sep (out # outs) = out @ 44 # comma_sep outs"
  by (cases outs) auto

lemma item_loop_reads:
  "list_all2 (\<lambda>v out. reads d out v) vs outs \<Longrightarrow> vs \<noteq> [] \<Longrightarrow>
   3 * length (comma_sep outs @ 93 # rest) + 1 < f \<Longrightarrow>
   item_loop f d acc (comma_sep outs @ 93 # rest) = Inr (JArray (acc @ vs), rest)"
proof (induction vs arbitrary: outs acc f)
  case (Cons v vs)
  then obtain out outs' where outs: "outs = out # outs'" "reads d out v" "list_all2 (\<lambda>v out. reads d out v) vs outs'"
    by (auto simp: list_all2_Cons1)
  from Cons.prems(3) obtain g where f: "f = Suc g" by (cases f) auto
  have skip: "skip_ws (out @ r) = out @ r" for r using outs(2) by (simp add: reads_starts starts_append)
  show ?case
  proof (cases "vs = []")
    case True
    then have "outs' = []" using outs(3) by simp
    then show ?thesis
      using readsD [OF outs(2), of "93 # rest" g] Cons.prems(3) True f outs(1)
      by (simp add: item_loop.simps skip Let_def)
  next
    case False
    then have ne: "outs' \<noteq> []" using outs(3) by auto
    have "item_loop g d (acc @ [v]) (comma_sep outs' @ 93 # rest) = Inr (JArray ((acc @ [v]) @ vs), rest)"
      by (rule Cons.IH [OF outs(3) False]) (use Cons.prems(3) f outs(1) ne in \<open>auto simp: comma_sep_Cons\<close>)
    then show ?thesis
      using readsD [OF outs(2), of "44 # comma_sep outs' @ 93 # rest" g] Cons.prems(3) f outs(1) ne
      by (simp add: item_loop.simps skip Let_def comma_sep_Cons)
  qed
qed simp

definition member_reads :: "nat \<Rightarrow> ustring \<times> jcs \<Rightarrow> ustring \<Rightarrow> bool" where
  "member_reads d m piece \<longleftrightarrow> (\<exists>out. piece = write_string (fst m) @ 58 # out \<and> reads d out (snd m))"

lemma member_loop_reads:
  "list_all2 (member_reads d) ms pieces \<Longrightarrow> ms \<noteq> [] \<Longrightarrow> distinct (map fst ms) \<Longrightarrow>
   set seen \<inter> fst ` set ms = {} \<Longrightarrow> 3 * length (comma_sep pieces @ 125 # rest) + 1 < f \<Longrightarrow>
   member_loop f d acc seen (comma_sep pieces @ 125 # rest) = Inr (JObject (acc @ ms), rest)"
proof (induction ms arbitrary: pieces acc seen f)
  case (Cons m ms)
  obtain k v where m: "m = (k, v)" by (cases m)
  from Cons.prems(1) obtain piece pieces' where "pieces = piece # pieces'" "member_reads d m piece"
    and rest: "list_all2 (member_reads d) ms pieces'"
    by (auto simp: list_all2_Cons1)
  then obtain out where ps: "pieces = (write_string k @ 58 # out) # pieces'" "reads d out v"
      "list_all2 (member_reads d) ms pieces'"
    using m by (auto simp: member_reads_def)
  from Cons.prems(5) obtain g where f: "f = Suc g" by (cases f) auto
  have skip: "skip_ws (out @ r) = out @ r" for r using ps(2) by (simp add: reads_starts starts_append)
  have quote: "skip_ws (write_string k @ r) = write_string k @ r" "peek (write_string k @ r) = Some 34" for r
    by (simp_all add: write_string_def)
  have k: "k \<notin> set seen" using Cons.prems(4) m by auto
  show ?case
  proof (cases "ms = []")
    case True
    then have "pieces' = []" using ps(3) by simp
    then show ?thesis
      using readsD [OF ps(2), of "125 # rest" g] Cons.prems(5) True f ps(1) k m
      by (simp add: member_loop.simps skip quote Let_def)
  next
    case False
    then have ne: "pieces' \<noteq> []" using ps(3) by auto
    have "member_loop g d (acc @ [(k, v)]) (k # seen) (comma_sep pieces' @ 125 # rest) =
        Inr (JObject ((acc @ [(k, v)]) @ ms), rest)"
      by (rule Cons.IH [OF ps(3) False]) (use Cons.prems f ps(1) ne m in \<open>auto simp: comma_sep_Cons\<close>)
    then show ?thesis
      using readsD [OF ps(2), of "44 # comma_sep pieces' @ 125 # rest" g] Cons.prems(5) f ps(1) ne k m
      by (simp add: member_loop.simps skip quote Let_def comma_sep_Cons)
  qed
qed simp

lemma comma_sep_starts: "outs \<noteq> [] \<Longrightarrow> starts (hd outs) \<Longrightarrow> starts (comma_sep outs)"
  by (cases outs rule: comma_sep.cases) (auto simp: starts_append)

lemma reads_array:
  assumes "d < MAX_PARSE_DEPTH" "list_all2 (\<lambda>v out. reads (d + 1) out v) vs outs"
  shows "reads d ([91] @ comma_sep outs @ [93]) (JArray vs)"
proof (rule readsI)
  fix rest f
  assume fuel: "3 * length (([91] @ comma_sep outs @ [93]) @ rest) \<le> f"
  then obtain g where f: "f = Suc g" by (cases f) auto
  show "parse_value (Suc f) d (([91] @ comma_sep outs @ [93]) @ rest) = Inr (JArray vs, rest)"
  proof (cases "vs = []")
    case True
    then show ?thesis using assms f by (simp add: parse_value.simps parse_array.simps Let_def)
  next
    case False
    then have st: "starts (comma_sep outs @ 93 # rest)"
      using assms(2) by (intro starts_append comma_sep_starts; cases vs; cases outs; auto dest: reads_starts)
    have "item_loop g (d + 1) [] (comma_sep outs @ 93 # rest) = Inr (JArray ([] @ vs), rest)"
      by (rule item_loop_reads [OF assms(2) False]) (use fuel f in auto)
    then show ?thesis
      using st assms(1) f by (auto simp: parse_value.simps parse_array.simps Let_def starts_def peek_Some)
  qed
qed (simp add: starts_def is_ws_def)

lemma reads_object:
  assumes "d < MAX_PARSE_DEPTH" "list_all2 (member_reads (d + 1)) ms pieces" "distinct (map fst ms)"
  shows "reads d ([123] @ comma_sep pieces @ [125]) (JObject ms)"
proof (rule readsI)
  fix rest f
  assume fuel: "3 * length (([123] @ comma_sep pieces @ [125]) @ rest) \<le> f"
  then obtain g where f: "f = Suc g" by (cases f) auto
  show "parse_value (Suc f) d (([123] @ comma_sep pieces @ [125]) @ rest) = Inr (JObject ms, rest)"
  proof (cases "ms = []")
    case True
    then show ?thesis using assms f by (simp add: parse_value.simps parse_object.simps Let_def)
  next
    case False
    then have "member_reads (d + 1) (hd ms) (hd pieces)" "pieces \<noteq> []"
      using assms(2) by (cases ms; cases pieces; auto)+
    then have "starts (hd pieces)" by (auto simp: member_reads_def write_string_def starts_def is_ws_def)
    with \<open>pieces \<noteq> []\<close> have st: "starts (comma_sep pieces @ 125 # rest)"
      by (intro starts_append comma_sep_starts)
    have "member_loop g (d + 1) [] [] (comma_sep pieces @ 125 # rest) = Inr (JObject ([] @ ms), rest)"
      by (rule member_loop_reads [OF assms(2) False assms(3)]) (use fuel f in auto)
    then show ?thesis
      using st assms(1) f by (auto simp: parse_value.simps parse_object.simps Let_def starts_def peek_Some)
  qed
qed (simp add: starts_def is_ws_def)

lemma reads_leaf:
  "reads d (lit ''null'') JNull" "reads d (lit ''true'') (JBool True)" "reads d (lit ''false'') (JBool False)"
  "reads d (write_string s) (JString s)"
  "\<bar>i\<bar> \<le> MAX_SAFE_INTEGER \<Longrightarrow> reads d (write_integer i) (JInteger i)"
proof -
  show "reads d (lit ''null'') JNull" "reads d (lit ''true'') (JBool True)" "reads d (lit ''false'') (JBool False)"
    by (rule readsI; simp add: lit_def starts_def is_ws_def parse_value.simps parse_null_def parse_bool_def)+
  show "reads d (write_string s) (JString s)"
  proof (rule readsI)
    show "starts (write_string s)" by (simp add: write_string_def starts_def is_ws_def)
    obtain t where t: "write_string s = 34 # t" using write_string_Cons by blast
    show "parse_value (Suc f) d (write_string s @ rest) = Inr (JString s, rest)" for f rest
      using parse_string_write [of s rest] by (simp add: parse_value.simps t del: parse_string_write)
  qed
  assume i: "\<bar>i\<bar> \<le> MAX_SAFE_INTEGER"
  show "reads d (write_integer i) (JInteger i)"
  proof (rule readsI)
    obtain c t where w: "write_integer i = c # t" and c: "c = 45 \<or> is_digit c"
      using dec_digits dec_nonempty unfolding write_integer_def
      by (metis hd_Cons_tl hd_in_set)
    then show "starts (write_integer i)" by (auto simp: starts_def is_ws_def is_digit_def)
    show "parse_value (Suc f) d (write_integer i @ rest) = Inr (JInteger i, rest)" if "follows rest" for f rest
      using parse_number_write [OF that i] c by (auto simp: parse_value.simps w is_digit_def)
  qed
qed


lemma collect_Ok_list_all2:
  "collect (map g xs) = Ok outs \<Longrightarrow> list_all2 (\<lambda>x out. g x = Ok out) xs outs"
  unfolding collect_eq_Inr by (auto simp: list_all2_conv_all_nth list_eq_iff_nth_eq)

lemma write_reads:
  "write_value v d = Ok out \<Longrightarrow> jcs_ok v d \<Longrightarrow> reads d out (sort_value v)"
proof (induction v d arbitrary: out rule: write_value.induct)
  case (6 items depth)
  from "6.prems" obtain outs where d: "depth < MAX_PARSE_DEPTH"
    and c: "collect (map (\<lambda>item. write_value item (depth + 1)) items) = Ok outs"
    and out: "out = [91] @ comma_sep outs @ [93]"
    by (auto simp: result_simps)
  have "list_all2 (\<lambda>v out. reads (depth + 1) out v) (map sort_value items) outs"
    unfolding list_all2_map1
    by (rule list.rel_mono_strong [OF collect_Ok_list_all2 [OF c]])
      (use "6.IH" d "6.prems"(2) in \<open>auto simp: list_all_iff\<close>)
  then show ?case unfolding out sort_value.simps by (rule reads_array [OF d])
next
  case (7 members depth)
  let ?g = "\<lambda>(key, val). and_then (write_value val (depth + 1)) (\<lambda>out. Ok (write_string key @ [58] @ out))"
  from "7.prems" obtain outs where d: "depth < MAX_PARSE_DEPTH" and nd: "\<not> adjacent_dup (sort_members members)"
    and c: "collect (map ?g (sort_members members)) = Ok outs"
    and out: "out = [123] @ comma_sep outs @ [125]"
    by (auto simp: result_simps Let_def split: if_split_asm)
  let ?ms = "map (\<lambda>(k, v). (k, sort_value v)) (sort_members members)"
  have "list_all2 (member_reads (depth + 1)) ?ms outs"
    unfolding list_all2_map1
    by (rule list.rel_mono_strong [OF collect_Ok_list_all2 [OF c]])
      (use "7.IH" d nd "7.prems"(2) in \<open>fastforce simp: list_all_iff result_simps member_reads_def\<close>)
  moreover have "distinct (map fst ?ms)"
    using "7.prems"(2) distinct_sort_members [of members] by (simp add: comp_def split_def)
  ultimately show ?case unfolding out sort_value.simps sort_members_map by (rule reads_object [OF d])
qed (auto intro: reads_leaf)


section \<open>Writing\<close>

lemma list_all2_exists: "\<forall>x \<in> set xs. \<exists>y. g x = Ok y \<Longrightarrow> \<exists>ys. collect (map g xs) = Ok ys"
  by (induction xs) auto

lemma write_total: "jcs_ok v d \<Longrightarrow> \<exists>out. write_value v d = Ok out"
proof (induction v d rule: write_value.induct)
  case (6 items depth)
  then have "\<exists>outs. collect (map (\<lambda>item. write_value item (depth + 1)) items) = Ok outs"
    by (intro list_all2_exists) (auto simp: list_all_iff)
  with 6 show ?case by auto
next
  case (7 members depth)
  have d: "depth < MAX_PARSE_DEPTH" and nd: "\<not> adjacent_dup (sort_members members)"
    using 7 distinct_no_adjacent [OF distinct_sort_members [of members]] by auto
  have "\<exists>outs. collect (map (\<lambda>(key, val). and_then (write_value val (depth + 1)) (\<lambda>out.
      Ok (write_string key @ [58] @ out))) (sort_members members)) = Ok outs"
    using 7 d nd by (intro list_all2_exists) (fastforce simp: list_all_iff)
  with d nd show ?case by (auto simp: Let_def)
qed auto

lemma valid_lit [simp]: "valid_str (lit s)"
proof -
  have "(of_char c :: nat) < 256" for c
    by (metis of_char_mod_256 mod_less_divisor zero_less_numeral)
  then have "(of_char c :: nat) < 0xD800" for c by (rule less_trans) simp
  then show ?thesis by (auto simp: valid_str_def lit_def is_scalar_def)
qed

lemma valid_dec [simp]: "valid_str (dec n)"
  by (auto simp: valid_str_def is_scalar_def is_digit_def dest!: dec_digits)

lemma valid_write_string: "valid_str s \<Longrightarrow> valid_str (write_string s)"
  by (induction s) (auto simp: write_string_def write_char_def hex_char_def is_scalar_def)

lemma valid_comma_sep: "\<forall>x \<in> set outs. valid_str x \<Longrightarrow> valid_str (comma_sep outs)"
  by (induction outs rule: comma_sep.induct) (auto simp: is_scalar_def)

lemma collect_Ok_mem: "collect (map g xs) = Ok outs \<Longrightarrow> y \<in> set outs \<Longrightarrow> \<exists>x \<in> set xs. g x = Ok y"
  unfolding collect_eq_Inr by (metis imageE image_eqI list.set_map)

lemma write_valid: "write_value v d = Ok out \<Longrightarrow> jcs_ok v d \<Longrightarrow> valid_str out"
proof (induction v d arbitrary: out rule: write_value.induct)
  case (6 items depth)
  from "6.prems" obtain outs where d: "depth < MAX_PARSE_DEPTH"
    and c: "collect (map (\<lambda>item. write_value item (depth + 1)) items) = Ok outs"
    and out: "out = [91] @ comma_sep outs @ [93]"
    by (auto simp: result_simps)
  have "\<forall>y \<in> set outs. valid_str y"
    using "6.IH" "6.prems"(2) d collect_Ok_mem [OF c] by (fastforce simp: list_all_iff)
  then show ?case unfolding out by (simp add: valid_comma_sep is_scalar_def)
next
  case (7 members depth)
  let ?g = "\<lambda>(key, val). and_then (write_value val (depth + 1)) (\<lambda>out. Ok (write_string key @ [58] @ out))"
  from "7.prems" obtain outs where d: "depth < MAX_PARSE_DEPTH" and nd: "\<not> adjacent_dup (sort_members members)"
    and c: "collect (map ?g (sort_members members)) = Ok outs"
    and out: "out = [123] @ comma_sep outs @ [125]"
    by (auto simp: result_simps Let_def split: if_split_asm)
  have "valid_str y" if "y \<in> set outs" for y
  proof -
    from collect_Ok_mem [OF c that] obtain k v o' where m: "(k, v) \<in> set members"
      "write_value v (depth + 1) = Ok o'" "y = write_string k @ [58] @ o'"
      by (auto simp: result_simps)
    then have "valid_str k" "jcs_ok v (depth + 1)" using "7.prems"(2) by (auto simp: list_all_iff)
    then show ?thesis
      using m "7.IH" [OF _ refl nd, of "(k, v)" k v o'] d by (simp add: valid_write_string is_scalar_def)
  qed
  then show ?case unfolding out by (simp add: valid_comma_sep is_scalar_def)
qed (auto simp: write_integer_def valid_write_string is_scalar_def)

lemma adjacent_dup_map: "adjacent_dup (map (\<lambda>(k, v). (k, g v)) ms) = adjacent_dup ms"
  by (induction ms rule: adjacent_dup.induct) auto

lemma write_sort_value: "write_value (sort_value v) d = write_value v d"
proof (induction v d rule: write_value.induct)
  case (6 items depth)
  have "map (\<lambda>item. write_value item (depth + 1)) (map sort_value items) =
      map (\<lambda>item. write_value item (depth + 1)) items" if "depth < MAX_PARSE_DEPTH"
    using 6 that by auto
  then show ?case by (auto simp del: map_map)
next
  case (7 members depth)
  let ?g = "\<lambda>(key, val). and_then (write_value val (depth + 1)) (\<lambda>out. Ok (write_string key @ [58] @ out))"
  have "map ?g (map (\<lambda>(k, v). (k, sort_value v)) (sort_members members)) = map ?g (sort_members members)"
    if "depth < MAX_PARSE_DEPTH" "\<not> adjacent_dup (sort_members members)"
    using 7 that by auto
  then show ?case
    by (auto simp: Let_def sort_members_map adjacent_dup_map simp del: map_map)
qed simp_all

lemma sort_value_ok: "jcs_ok v d \<Longrightarrow> jcs_ok (sort_value v) d"
proof (induction v arbitrary: d rule: sort_value.induct)
  case (2 ms)
  have "distinct (map fst (map (\<lambda>(k, v). (k, sort_value v)) ms))"
    using 2 by (simp add: comp_def split_def)
  from distinct_sort_members [OF this] 2 show ?case by (auto simp: list_all_iff)
qed (auto simp: list_all_iff)

lemma canonicalize_value_Ok:
  assumes "jcs_ok v 0"
  shows "\<exists>out. canonicalize_value v = Ok (utf8 out) \<and> valid_str out \<and> reads 0 out (sort_value v)"
proof -
  obtain out where "write_value v 0 = Ok out" using write_total [OF assms] by blast
  then show ?thesis
    using write_valid [OF _ assms] write_reads [OF _ assms] by (auto simp: canonicalize_value_def)
qed

lemma parse_canonical:
  assumes "canonicalize_value v = Ok bs" "jcs_ok v 0"
  shows "parse bs = Ok (sort_value v)"
proof -
  obtain out where out: "bs = utf8 out" "valid_str out" "reads 0 out (sort_value v)"
    using canonicalize_value_Ok [OF assms(2)] assms(1) by auto
  have "skip_ws out = out" using reads_starts [OF out(3)] by simp
  moreover have "parse_value (parse_fuel out) 0 out = Inr (sort_value v, [])"
    using readsD [OF out(3), of "[]" "parse_fuel out"] by (simp add: parse_fuel_def)
  ultimately show ?thesis using out(1,2) by (auto simp: parse_Ok skip_ws_def)
qed

lemma sort_value_canonicalize: "canonicalize_value (sort_value v) = canonicalize_value v"
  by (simp add: canonicalize_value_def write_sort_value)


section \<open>The value path\<close>

fun to_json :: "jcs \<Rightarrow> json" where
  "to_json JNull = Null"
| "to_json (JBool b) = Bool b"
| "to_json (JInteger i) = Number (NInt i)"
| "to_json (JString s) = Str s"
| "to_json (JArray vs) = Arr (map to_json vs)"
| "to_json (JObject ms) = Obj (map (\<lambda>(k, v). (k, to_json v)) ms)"

lemma number_value:
  "from_serde_value_at (Number n) d = Ok v \<Longrightarrow> \<exists>i. n = NInt i \<and> v = JInteger i \<and> \<bar>i\<bar> \<le> MAX_SAFE_INTEGER"
  by (cases n) (auto simp: result_simps check_safe_integer_def MAX_SAFE_INTEGER_def i64_simps split: if_split_asm)

lemma from_serde_array:
  "from_serde_value_at (Arr items) d = Ok v \<longleftrightarrow> d < MAX_PARSE_DEPTH \<and>
     (\<exists>out. collect (map (\<lambda>item. from_serde_value_at item (d + 1)) items) = Ok out \<and> v = JArray out)"
  by (auto simp: result_simps)

lemma from_serde_object:
  "from_serde_value_at (Obj ms) d = Ok v \<longleftrightarrow> d < MAX_PARSE_DEPTH \<and>
     (\<exists>out. collect (map (\<lambda>(k, v). and_then (from_serde_value_at v (d + 1)) (\<lambda>w. Ok (k, w))) ms) = Ok out \<and>
       v = JObject out)"
  by (auto simp: result_simps)

lemma from_serde_to_json: "from_serde_value_at j d = Ok v \<Longrightarrow> to_json v = j"
proof (induction j d arbitrary: v rule: from_serde_value_at.induct)
  case (5 items depth)
  from "5.prems" obtain out where v: "v = JArray out" and d: "depth < MAX_PARSE_DEPTH"
    and c: "map (\<lambda>item. from_serde_value_at item (depth + 1)) items = map Inr out"
    unfolding from_serde_array collect_eq_Inr by blast
  then have len: "length items = length out" by (metis length_map)
  have "map to_json out = items"
  proof (rule nth_equalityI)
    fix i assume "i < length (map to_json out)"
    then have i: "i < length items" "i < length out" using len by simp_all
    have "map (\<lambda>item. from_serde_value_at item (depth + 1)) items ! i = map Inr out ! i" by (simp only: c)
    then have "from_serde_value_at (items ! i) (depth + 1) = Inr (out ! i)"
      unfolding nth_map [OF i(1)] nth_map [OF i(2)] .
    then show "map to_json out ! i = items ! i" using "5.IH" [of "items ! i" "out ! i"] d i by simp
  qed (simp add: len)
  then show ?case by (simp add: v)
next
  case (6 ms depth)
  let ?g = "\<lambda>(k, v). and_then (from_serde_value_at v (depth + 1)) (\<lambda>w. Ok (k, w))"
  from "6.prems" obtain out where v: "v = JObject out" and d: "depth < MAX_PARSE_DEPTH"
    and c: "map ?g ms = map Inr out"
    unfolding from_serde_object collect_eq_Inr by blast
  then have len: "length ms = length out" by (metis length_map)
  have "map (\<lambda>(k, v). (k, to_json v)) out = ms"
  proof (rule nth_equalityI)
    fix i assume "i < length (map (\<lambda>(k, v). (k, to_json v)) out)"
    then have i: "i < length ms" "i < length out" using len by simp_all
    obtain k w where m: "ms ! i = (k, w)" by (cases "ms ! i")
    have "map ?g ms ! i = map Inr out ! i" by (simp only: c)
    then have "?g (ms ! i) = Inr (out ! i)" unfolding nth_map [OF i(1)] nth_map [OF i(2)] .
    then obtain u where u: "from_serde_value_at w (depth + 1) = Ok u" "out ! i = (k, u)"
      by (auto simp: m result_simps)
    have "(k, w) \<in> set ms" using i m by (metis nth_mem)
    then have "to_json u = w" using "6.IH" [of "(k, w)" k w u] d u by simp
    then show "map (\<lambda>(k, v). (k, to_json v)) out ! i = ms ! i" using i u m by simp
  qed (simp add: len)
  then show ?case by (simp add: v)
qed (auto dest!: number_value simp del: from_serde_value_at.simps(3))

lemma from_serde_ok: "from_serde_value_at j d = Ok v \<Longrightarrow> json_wf j \<Longrightarrow> jcs_ok v d"
proof (induction j d arbitrary: v rule: from_serde_value_at.induct)
  case (5 items depth)
  from "5.prems"(1) obtain out where v: "v = JArray out" and d: "depth < MAX_PARSE_DEPTH"
    and c: "collect (map (\<lambda>item. from_serde_value_at item (depth + 1)) items) = Ok out"
    unfolding from_serde_array by blast
  have "jcs_ok w (depth + 1)" if "w \<in> set out" for w
    using collect_Ok_mem [OF c that] "5.IH" "5.prems"(2) d by (auto simp: list_all_iff)
  then show ?case using v d by (simp add: list_all_iff)
next
  case (6 ms depth)
  from "6.prems"(1) obtain out where v: "v = JObject out" and d: "depth < MAX_PARSE_DEPTH"
    and c: "collect (map (\<lambda>(k, v). and_then (from_serde_value_at v (depth + 1)) (\<lambda>w. Ok (k, w))) ms) = Ok out"
    unfolding from_serde_object by blast
  have "valid_str k \<and> jcs_ok w (depth + 1)" if m: "(k, w) \<in> set out" for k w
  proof -
    from collect_Ok_mem [OF c m] obtain u where u: "(k, u) \<in> set ms" "from_serde_value_at u (depth + 1) = Ok w"
      by (auto simp: result_simps)
    then have "valid_str k" "json_wf u" using "6.prems"(2) by (auto simp: list_all_iff)
    then show ?thesis using "6.IH" [OF _ u(1) refl u(2)] d by simp
  qed
  moreover have "map fst out = map fst ms"
    using from_serde_to_json [OF "6.prems"(1)] v by (auto simp: comp_def split_def)
  moreover have "distinct (map fst ms)" using "6.prems"(2) by (simp add: keys_sorted_distinct)
  ultimately show ?case using v d by (auto simp: list_all_iff)
qed (auto dest!: number_value simp del: from_serde_value_at.simps(3))

lemma sort_value_leaf:
  assumes "v = sort_value w" "\<And>vs. v \<noteq> JArray vs" "\<And>ms. v \<noteq> JObject ms"
  shows "v = w"
  using assms by (cases w) auto

lemma json_wf_member: "json_wf (to_json (JObject ms)) \<Longrightarrow> (k, v) \<in> set ms \<Longrightarrow> json_wf (to_json v)"
  by (auto simp: list_all_iff)

lemma to_json_sort_value_inj:
  "json_wf (to_json v) \<Longrightarrow> json_wf (to_json w) \<Longrightarrow> sort_value v = sort_value w \<Longrightarrow> v = w"
proof (induction v arbitrary: w rule: sort_value.induct)
  case (1 vs)
  then obtain ws where w: "w = JArray ws" by (cases w) auto
  from 1(4) w have eq: "map sort_value vs = map sort_value ws" by simp
  have "vs = ws"
  proof (rule nth_equalityI)
    show len: "length vs = length ws" using eq by (metis length_map)
    show "vs ! i = ws ! i" if i: "i < length vs" for i
    proof (rule "1.IH")
      show mem: "vs ! i \<in> set vs" using i by simp
      have "ws ! i \<in> set ws" using i len by simp
      with mem 1(2,3) w show "json_wf (to_json (vs ! i))" "json_wf (to_json (ws ! i))"
        by (auto simp: list_all_iff)
      have "map sort_value vs ! i = map sort_value ws ! i" by (simp only: eq)
      then show "sort_value (vs ! i) = sort_value (ws ! i)" using i len by simp
    qed
  qed
  then show ?case by (simp add: w)
next
  case (2 ms)
  then obtain ns where w: "w = JObject ns" by (cases w) auto
  let ?N = "map (\<lambda>(k, v). (k, sort_value v))"
  have keys: "map fst (?N xs) = map fst xs" for xs by (simp add: comp_def split_def)
  have sorted: "keys_sorted xs" if "json_wf (to_json (JObject xs))" for xs
    using that by (simp add: keys_sorted_def comp_def split_def)
  have "sort_members (?N ms) = sort_members (?N ns)" using 2(4) unfolding w by simp
  then have "set (sort_members (?N ms)) = set (sort_members (?N ns))" by (rule arg_cong)
  then have mem: "set (?N ms) = set (?N ns)" unfolding set_sort_members .
  have "keys_sorted (?N ms)" "keys_sorted (?N ns)"
    using sorted [OF 2(2)] sorted [OF 2(3) [unfolded w]] unfolding keys_sorted_def keys .
  then have eq: "?N ms = ?N ns" using mem by (rule sorted_members_unique)
  have "ms = ns"
  proof (rule nth_equalityI)
    show len: "length ms = length ns" using arg_cong [OF eq, of length] by (simp only: length_map)
    show "ms ! i = ns ! i" if i: "i < length ms" for i
    proof -
      obtain k v k' v' where m: "ms ! i = (k, v)" "ns ! i = (k', v')" by (cases "ms ! i"; cases "ns ! i")
      have "?N ms ! i = ?N ns ! i" by (simp only: eq)
      then have "k = k'" "sort_value v = sort_value v'" using i len m by simp_all
      moreover have mem: "(k, v) \<in> set ms" "(k', v') \<in> set ns" using i len m by (metis nth_mem)+
      moreover have "json_wf (to_json v)" "json_wf (to_json v')"
        using json_wf_member [OF 2(2) mem(1)] json_wf_member [OF 2(3) [unfolded w] mem(2)] .
      ultimately show ?thesis using "2.IH" [OF mem(1) refl, of v'] m by simp
    qed
  qed
  then show ?case by (simp add: w)
qed (auto intro: sort_value_leaf)

lemma canonicalize_json_value_inj:
  assumes "canonicalize_json_value j = Ok bs" "canonicalize_json_value k = Ok bs" "json_wf j" "json_wf k"
  shows "j = k"
proof -
  from assms obtain v w where v: "from_serde_value_at j 0 = Ok v" "canonicalize_value v = Ok bs"
    and w: "from_serde_value_at k 0 = Ok w" "canonicalize_value w = Ok bs"
    by (auto simp: canonicalize_json_value_def from_serde_value_def result_simps)
  have "sort_value v = sort_value w"
    using parse_canonical [OF v(2) from_serde_ok [OF v(1) assms(3)]]
      parse_canonical [OF w(2) from_serde_ok [OF w(1) assms(4)]] by simp
  moreover have "to_json v = j" "to_json w = k" using v w from_serde_to_json by blast+
  ultimately show ?thesis using to_json_sort_value_inj [of v w] assms(3,4) by simp
qed


lemma write_value_dup:
  assumes "\<not> distinct (map fst ms)" "\<forall>x \<in> set ms. valid_str (fst x)"
  shows "write_value (JObject ms) d = Err CanonicalizationFailed"
proof -
  have "\<not> distinct (map fst (sort_members ms))"
  proof -
    have "mset (map fst (sort_members ms)) = mset (map fst ms)" by (simp add: sort_members_sort_key)
    then show ?thesis using assms(1) by (metis mset_eq_imp_distinct_iff)
  qed
  then have "adjacent_dup (sort_members ms)"
    using sorted_adjacent_distinct [OF sort_members_sorted [of ms]] assms(2) by auto
  then show ?thesis by (simp add: Let_def)
qed

section \<open>Evaluation\<close>

lemmas [eval_simps] =
  lit_def i64_simps dec.simps utf8_char_def utf16_char_def is_digit_def
  MAX_PARSE_DEPTH_def MAX_SAFE_INTEGER_def check_safe_integer_def
  canonicalize_json_value_def from_serde_value_def canonicalize_value_def
  sort_members_def sort_by_def cmp_utf16_def write_integer_def write_string_def write_char_def hex_char_def
  canonicalize_def parse_def parse_fuel_def skip_ws_def is_ws_def parse_string_def
  parse_number_def parse_i64_def parse_bool_def parse_null_def simple_escape_def

text \<open>One step of fuel given as a numeral.\<close>

lemmas parse_numeral =
  parse_value.simps(2) [of "pred_numeral k" for k, folded numeral_eq_Suc]
  parse_object.simps(2) [of "pred_numeral k" for k, folded numeral_eq_Suc]
  member_loop.simps(2) [of "pred_numeral k" for k, folded numeral_eq_Suc]
  parse_array.simps(2) [of "pred_numeral k" for k, folded numeral_eq_Suc]
  item_loop.simps(2) [of "pred_numeral k" for k, folded numeral_eq_Suc]

lemmas parse_eval = parse_numeral eval_simps Let_def

section \<open>Properties\<close>

text \<open>
  C21: every value of the safe domain has canonical bytes, and parsing them returns the value
  itself with the members of every object in canonical order.
\<close>

theorem canonical_roundtrip:
  assumes "jcs_ok v 0"
  shows "\<exists>bs. canonicalize_value v = Ok bs \<and> parse bs = Ok (sort_value v)"
  using canonicalize_value_Ok [OF assms] parse_canonical [OF _ assms] by blast

definition sample_value :: jcs where
  "sample_value = JObject [(lit ''b'', JArray [JInteger (-7), JNull]), (lit ''a'', JString [34, 10, 233])]"

lemma sample_value_ok: "jcs_ok sample_value 0"
  by (simp add: sample_value_def MAX_PARSE_DEPTH_def MAX_SAFE_INTEGER_def is_scalar_def)

theorem canonical_roundtrip_witness:
  "\<exists>bs. canonicalize_value sample_value = Ok bs \<and> parse bs = Ok (sort_value sample_value)"
  by (rule canonical_roundtrip [OF sample_value_ok])



text \<open>
  canonicalization is idempotent on the wire: the bytes it returns canonicalize to
  themselves.
\<close>

theorem canonicalize_fixpoint:
  assumes "canonicalize bs = Ok cs"
  shows "canonicalize cs = Ok cs"
proof -
  from assms obtain v where v: "parse bs = Ok v" "canonicalize_value v = Ok cs"
    by (auto simp: canonicalize_def result_simps)
  then have "parse cs = Ok (sort_value v)" using parse_canonical parse_safe by blast
  then show ?thesis using v by (simp add: canonicalize_def sort_value_canonicalize)
qed

theorem canonicalize_fixpoint_witness:
  "canonicalize (lit ''{ \"b\" : -0, \"a\":[ ] }'') = Ok (lit ''{\"a\":[],\"b\":0}'') \<and>
   canonicalize (lit ''{\"a\":[],\"b\":0}'') = Ok (lit ''{\"a\":[],\"b\":0}'')"
proof -
  have "canonicalize (lit ''{ \"b\" : -0, \"a\":[ ] }'') = Ok (lit ''{\"a\":[],\"b\":0}'')"
    by (simp add: parse_eval)
  then show ?thesis using canonicalize_fixpoint by blast
qed

text \<open>
  C23: the raw-bytes parser is fail-closed: whatever it accepts lies in the safe domain (unique
  member names at every level, integers within 2^53 - 1, scalar strings, nesting at most 128)
  and has canonical bytes; its only error is \<open>CanonicalizationFailed\<close>, and its fuel never
  runs out.
\<close>

theorem parse_fails_closed:
  "(parse bs = Ok v \<longrightarrow> jcs_ok v 0 \<and> (\<exists>cs. canonicalize bs = Ok cs)) \<and>
   (parse bs = Err e \<longrightarrow> e = CanonicalizationFailed) \<and>
   parse_value (parse_fuel text) depth text \<noteq> Inl Out_of_fuel"
  using parse_safe [of bs v] canonicalize_value_Ok [of v] parse_error [of bs e] parse_fuel_enough
  by (auto simp: canonicalize_def)

theorem parse_fails_closed_witness:
  "parse (lit ''[1,2]'') = Ok (JArray [JInteger 1, JInteger 2]) \<and>
   jcs_ok (JArray [JInteger 1, JInteger 2]) 0 \<and>
   parse (lit ''{\"a\":1,\"a\":2}'') = Err CanonicalizationFailed"
proof -
  have "parse (lit ''[1,2]'') = Ok (JArray [JInteger 1, JInteger 2])"
    "parse (lit ''{\"a\":1,\"a\":2}'') = Err CanonicalizationFailed" by (simp_all add: parse_eval)
  then show ?thesis using parse_fails_closed [of "lit ''[1,2]''"] by blast
qed

text \<open>
  the value path used for signing is injective: two well-formed JSON values with the same
  canonical bytes are the same value.
\<close>

theorem value_path_injective:
  assumes "json_wf j" and "json_wf k"
    and "canonicalize_json_value j = Ok bs" and "canonicalize_json_value k = Ok bs"
  shows "j = k"
  using assms canonicalize_json_value_inj by blast

theorem value_path_injective_witness:
  "canonicalize_json_value (Obj [(lit ''a'', Number (NInt 1))]) \<noteq>
   canonicalize_json_value (Obj [(lit ''a'', Number (NInt 2))])"
proof
  let ?j = "Obj [(lit ''a'', Number (NInt 1))]" and ?k = "Obj [(lit ''a'', Number (NInt 2))]"
  assume eq: "canonicalize_json_value ?j = canonicalize_json_value ?k"
  have "canonicalize_json_value ?j = Ok (lit ''{\"a\":1}'')" by (simp add: eval_simps)
  moreover have "json_wf ?j" "json_wf ?k" by simp_all
  ultimately have "?j = ?k" using eq value_path_injective by metis
  then show False by simp
qed

text \<open>
  on hand-built trees too, an object with a repeated member name has no canonical form, and
  the order of the members of an object without repetition does not matter.
\<close>

theorem object_members_are_a_set:
  assumes "\<forall>m \<in> set ms. valid_str (fst m)"
  shows "(\<not> distinct (map fst ms) \<longrightarrow> canonicalize_value (JObject ms) = Err CanonicalizationFailed) \<and>
    (distinct (map fst ms) \<and> distinct (map fst ns) \<and> set ms = set ns \<longrightarrow>
       canonicalize_value (JObject ms) = canonicalize_value (JObject ns))"
proof -
  have "canonicalize_value (JObject ms) = canonicalize_value (JObject ns)"
    if "distinct (map fst ms)" "distinct (map fst ns)" "set ms = set ns"
    using sort_members_unique [OF that(3,1,2) assms] by (simp add: canonicalize_value_def)
  then show ?thesis using write_value_dup [OF _ assms, of 0] by (auto simp: canonicalize_value_def)
qed

theorem object_members_are_a_set_witness:
  "canonicalize_value (JObject [(lit ''a'', JNull), (lit ''b'', JNull), (lit ''a'', JBool True)]) =
   Err CanonicalizationFailed"
  using object_members_are_a_set [of "[(lit ''a'', JNull), (lit ''b'', JNull), (lit ''a'', JBool True)]"]
  by simp

end
