(* ===== verification/Crypto.thy ===== *)
theory Crypto
  imports Canonical_Roundtrip
begin

text \<open>
  \<open>encoding.rs\<close>, \<open>hash.rs\<close> and \<open>crypto.rs\<close>: the Base64URL choke point, the SHA-256 hash
  identifier and the Ed25519 signing and verification primitives. The algorithms themselves
  are library code of other crates; the record \<open>ext\<close> carries them as parameters, and the
  predicates below state what their documentation promises.
\<close>

section \<open>Library functions the program calls\<close>

text \<open>
  \<open>base64_encode\<close>/\<open>base64_decode\<close> are the \<open>URL_SAFE_NO_PAD\<close> engine, \<open>sha256\<close> is
  \<open>Sha256::digest\<close>; \<open>key_point_ok\<close> tells whether \<open>VerifyingKey::from_bytes\<close> accepts the bytes,
  \<open>verify_strict\<close>, \<open>ed_public\<close> and \<open>ed_sign\<close> are the Ed25519 operations on raw bytes;
  \<open>from_slice\<close> and \<open>to_vec\<close> are the JSON text parser and printer of \<open>serde_json\<close>.
\<close>

record ext =
  base64_encode :: "bytes \<Rightarrow> ustring"
  base64_decode :: "ustring \<Rightarrow> bytes option"
  sha256 :: "bytes \<Rightarrow> bytes"
  key_point_ok :: "bytes \<Rightarrow> bool"
  verify_strict :: "bytes \<Rightarrow> bytes \<Rightarrow> bytes \<Rightarrow> bool"
  ed_public :: "bytes \<Rightarrow> bytes"
  ed_sign :: "bytes \<Rightarrow> bytes \<Rightarrow> bytes"
  from_slice :: "bytes \<Rightarrow> json option"
  to_vec :: "json \<Rightarrow> bytes option"

definition byte_list :: "bytes \<Rightarrow> bool" where
  "byte_list bs \<longleftrightarrow> list_all (\<lambda>b. b < 256) bs"

definition base64_documented :: "ext \<Rightarrow> bool" where
  "base64_documented x \<longleftrightarrow>
     (\<forall>bs. byte_list bs \<longrightarrow> base64_decode x (base64_encode x bs) = Some bs \<and> valid_str (base64_encode x bs)) \<and>
     (\<forall>s bs. base64_decode x s = Some bs \<longrightarrow> byte_list bs \<and> length bs \<le> length s)"

definition sha256_documented :: "ext \<Rightarrow> bool" where
  "sha256_documented x \<longleftrightarrow> (\<forall>bs. length (sha256 x bs) = 32 \<and> byte_list (sha256 x bs))"

definition ed25519_documented :: "ext \<Rightarrow> bool" where
  "ed25519_documented x \<longleftrightarrow>
     (\<forall>seed msg. length seed = 32 \<longrightarrow>
        length (ed_public x seed) = 32 \<and> byte_list (ed_public x seed) \<and> key_point_ok x (ed_public x seed) \<and>
        length (ed_sign x seed msg) = 64 \<and> byte_list (ed_sign x seed msg) \<and>
        verify_strict x (ed_public x seed) msg (ed_sign x seed msg))"

text \<open>
  The JSON parser reads a document of the safe domain as the value it denotes: the same tree,
  with the members of every object in the order of the map. What it returns is a value of the
  Rust types. A value of the safe domain prints as a JSON text that denotes it.
\<close>

fun key_order :: "jcs \<Rightarrow> json" where
  "key_order JNull = Null"
| "key_order (JBool b) = Bool b"
| "key_order (JInteger i) = Number (NInt i)"
| "key_order (JString s) = Str s"
| "key_order (JArray vs) = Arr (map key_order vs)"
| "key_order (JObject ms) = Obj (sort_key fst (map (\<lambda>(k, v). (k, key_order v)) ms))"

definition serde_documented :: "ext \<Rightarrow> bool" where
  "serde_documented x \<longleftrightarrow>
     (\<forall>bs v. parse bs = Ok v \<longrightarrow> from_slice x bs = Some (key_order v)) \<and>
     (\<forall>bs j. from_slice x bs = Some j \<longrightarrow> json_wf j)"

definition serde_prints :: "ext \<Rightarrow> bool" where
  "serde_prints x \<longleftrightarrow>
     (\<forall>j v. json_wf j \<and> from_serde_value j = Ok v \<longrightarrow>
        (\<exists>bs w. to_vec x j = Some bs \<and> parse bs = Ok w \<and> key_order w = j))"

section \<open>Encoding and hash identifiers\<close>

definition b64url_encode :: "ext \<Rightarrow> bytes \<Rightarrow> ustring" where
  "b64url_encode x bs = base64_encode x bs"

definition b64url_decode :: "ext \<Rightarrow> ustring \<Rightarrow> bytes mcps_result" where
  "b64url_decode x s = ok_or CanonicalizationFailed (base64_decode x s)"

definition SHA256_PREFIX :: ustring where
  "SHA256_PREFIX = lit ''sha256:''"

definition SHA256_LEN :: nat where
  "SHA256_LEN = 32"

definition strip_prefix :: "ustring \<Rightarrow> ustring \<Rightarrow> ustring option" where
  "strip_prefix p s = (if prefix p s then Some (drop (length p) s) else None)"

definition sha256_hash_id :: "ext \<Rightarrow> bytes \<Rightarrow> ustring" where
  "sha256_hash_id x bs = SHA256_PREFIX @ b64url_encode x (sha256 x bs)"

definition parse_hash_id :: "ext \<Rightarrow> ustring \<Rightarrow> bytes mcps_result" where
  "parse_hash_id x s =
     and_then (ok_or CanonicalizationFailed (strip_prefix SHA256_PREFIX s)) (\<lambda>body.
     and_then (b64url_decode x body) (\<lambda>bs.
       if length bs = SHA256_LEN then Ok bs else Err CanonicalizationFailed))"

section \<open>Ed25519\<close>

definition SIGNATURE_LEN :: nat where
  "SIGNATURE_LEN = 64"

definition ensure_ed25519_alg :: "ustring \<Rightarrow> mcps_error \<Rightarrow> unit mcps_result" where
  "ensure_ed25519_alg alg on_error = (if alg = SIG_ALG_ED25519 then Ok () else Err on_error)"

record verification_key =
  vk_inner :: bytes

definition vk_from_bytes :: "ext \<Rightarrow> bytes \<Rightarrow> verification_key mcps_result" where
  "vk_from_bytes x bs =
     (if key_point_ok x bs then Ok \<lparr>vk_inner = bs\<rparr> else Err ActorBindingFailed)"

definition vk_from_b64url :: "ext \<Rightarrow> ustring \<Rightarrow> verification_key mcps_result" where
  "vk_from_b64url x s =
     and_then (map_err (\<lambda>_. ActorBindingFailed) (b64url_decode x s)) (\<lambda>decoded.
       if length decoded = 32 then vk_from_bytes x decoded else Err ActorBindingFailed)"

definition vk_to_bytes :: "verification_key \<Rightarrow> bytes" where
  "vk_to_bytes key = vk_inner key"

definition vk_to_b64url :: "ext \<Rightarrow> verification_key \<Rightarrow> ustring" where
  "vk_to_b64url x key = b64url_encode x (vk_inner key)"

record signing_key =
  sk_seed :: bytes

definition from_seed_bytes :: "bytes \<Rightarrow> signing_key" where
  "from_seed_bytes seed = \<lparr>sk_seed = seed\<rparr>"

definition public_key :: "ext \<Rightarrow> signing_key \<Rightarrow> verification_key" where
  "public_key x sk = \<lparr>vk_inner = ed_public x (sk_seed sk)\<rparr>"

definition sign :: "ext \<Rightarrow> signing_key \<Rightarrow> bytes \<Rightarrow> ustring" where
  "sign x sk preimage = b64url_encode x (ed_sign x (sk_seed sk) preimage)"

definition verify_ed25519_with ::
    "ext \<Rightarrow> bytes \<Rightarrow> ustring \<Rightarrow> verification_key \<Rightarrow> mcps_error \<Rightarrow> unit mcps_result" where
  "verify_ed25519_with x preimage signature_b64url key on_error =
     (case b64url_decode x signature_b64url of
        Inl _ \<Rightarrow> Err on_error
      | Inr bs \<Rightarrow>
          if length bs \<noteq> SIGNATURE_LEN then Err on_error
          else if verify_strict x (vk_inner key) preimage bs then Ok () else Err on_error)"

definition verify_ed25519 :: "ext \<Rightarrow> bytes \<Rightarrow> ustring \<Rightarrow> verification_key \<Rightarrow> unit mcps_result" where
  "verify_ed25519 x preimage signature_b64url key =
     verify_ed25519_with x preimage signature_b64url key InvalidSignature"

section \<open>Laws\<close>

lemma strip_prefix_append [simp]: "strip_prefix p (p @ s) = Some s"
  by (simp add: strip_prefix_def)

lemma b64url_roundtrip: "base64_documented x \<Longrightarrow> byte_list bs \<Longrightarrow> b64url_decode x (b64url_encode x bs) = Ok bs"
  by (simp add: b64url_decode_def b64url_encode_def base64_documented_def)

lemma b64url_encode_inj:
  "base64_documented x \<Longrightarrow> byte_list as \<Longrightarrow> byte_list bs \<Longrightarrow> b64url_encode x as = b64url_encode x bs \<longleftrightarrow> as = bs"
  by (metis b64url_roundtrip sum.inject(2))

lemma sha256_hash_id_eq:
  "base64_documented x \<Longrightarrow> sha256_documented x \<Longrightarrow>
     sha256_hash_id x as = sha256_hash_id x bs \<longleftrightarrow> sha256 x as = sha256 x bs"
  by (simp add: sha256_hash_id_def b64url_encode_inj sha256_documented_def)

lemma ensure_ed25519_alg_Ok [result_simps]:
  "ensure_ed25519_alg alg e = Ok u \<longleftrightarrow> alg = SIG_ALG_ED25519"
  by (simp add: ensure_ed25519_alg_def)

lemma verify_ed25519_with_Ok [result_simps]:
  "verify_ed25519_with x pre s key e = Ok u \<longleftrightarrow>
     (\<exists>bs. base64_decode x s = Some bs \<and> length bs = SIGNATURE_LEN \<and> verify_strict x (vk_inner key) pre bs)"
  by (cases "base64_decode x s") (auto simp: verify_ed25519_with_def b64url_decode_def)

lemma verify_ed25519_with_Err:
  "verify_ed25519_with x pre s key e = Err d \<Longrightarrow> d = e"
  by (auto simp: verify_ed25519_with_def split: sum.split_asm if_split_asm)

lemma sign_verify:
  assumes "base64_documented x" "ed25519_documented x" "length (sk_seed sk) = 32"
  shows "verify_ed25519_with x pre (sign x sk pre) (public_key x sk) e = Ok ()"
  using assms
  by (auto simp: verify_ed25519_with_Ok sign_def b64url_encode_def base64_documented_def
      ed25519_documented_def public_key_def SIGNATURE_LEN_def)

section \<open>A concrete instance\<close>

text \<open>
  A transparent instance of the parameters for witnesses: bytes encode as themselves, the
  digest reduces to bytes and pads or cuts to 32 of them, a signature is the key followed by the padded message, and
  JSON text is read by the parser of this library.
\<close>

definition pad :: "nat \<Rightarrow> bytes \<Rightarrow> bytes" where
  "pad n bs = take n (map (\<lambda>b. b mod 256) bs @ replicate n 0)"

definition sample_ext :: ext where
  "sample_ext = \<lparr>base64_encode = (\<lambda>bs. bs), base64_decode = (\<lambda>s. if byte_list s then Some s else None), sha256 = pad 32,
     key_point_ok = (\<lambda>_. True),
     verify_strict = (\<lambda>key msg sig. sig = pad 64 (key @ msg)),
     ed_public = pad 32, ed_sign = (\<lambda>seed msg. pad 64 (pad 32 seed @ msg)),
     from_slice = (\<lambda>bs. case parse bs of Inr v \<Rightarrow> Some (key_order v) | Inl _ \<Rightarrow> None),
     to_vec = (\<lambda>j. case canonicalize_json_value j of Inr bs \<Rightarrow> Some bs | Inl _ \<Rightarrow> None)\<rparr>"

lemma length_pad [simp]: "length (pad n bs) = n"
  by (simp add: pad_def)

lemma byte_list_pad [simp]: "byte_list (pad n bs)"
  by (auto simp: byte_list_def pad_def list_all_iff dest!: in_set_takeD)

lemma byte_list_valid: "byte_list bs \<Longrightarrow> valid_str bs"
  by (auto simp: byte_list_def valid_str_def is_scalar_def list_all_iff)

lemma key_order_keys: "distinct (map fst ms) \<Longrightarrow> keys_sorted (sort_key fst ms)"
proof -
  assume "distinct (map fst ms)"
  moreover have "mset (map fst (sort_key fst ms)) = mset (map fst ms)" by simp
  ultimately have "distinct (map fst (sort_key fst ms))" by (metis mset_eq_imp_distinct_iff)
  then show ?thesis by (simp add: keys_sorted_def strict_sorted_iff)
qed

lemma key_order_wf: "jcs_ok v d \<Longrightarrow> json_wf (key_order v)"
proof (induction v arbitrary: d rule: key_order.induct)
  case (6 ms)
  have "distinct (map fst (map (\<lambda>(k, v). (k, key_order v)) ms))"
    using "6.prems" by (simp add: comp_def split_def)
  from key_order_keys [OF this] show ?case
    using 6 by (fastforce simp: list_all_iff)
qed (auto simp: list_all_iff)

lemma sample_ext_documented:
  "base64_documented sample_ext" "sha256_documented sample_ext" "ed25519_documented sample_ext"
  "serde_documented sample_ext"
proof -
  show "base64_documented sample_ext" "sha256_documented sample_ext" "ed25519_documented sample_ext"
    by (simp_all add: base64_documented_def sha256_documented_def ed25519_documented_def sample_ext_def byte_list_valid)
  show "serde_documented sample_ext"
    unfolding serde_documented_def sample_ext_def
    by (auto split: sum.split_asm intro: key_order_wf [OF parse_safe])
qed

section \<open>Reading canonical bytes\<close>

lemma key_order_sort_value: "json_wf (to_json v) \<Longrightarrow> key_order (sort_value v) = to_json v"
proof (induction v rule: sort_value.induct)
  case (1 vs)
  then show ?case by (simp add: list_all_iff)
next
  case (2 ms)
  let ?N = "map (\<lambda>(k, v). (k, sort_value v))" and ?K = "map (\<lambda>(k, v). (k, key_order v))"
  let ?J = "map (\<lambda>(k, v). (k, to_json v)) ms"
  have s: "keys_sorted ?J" using 2(2) by simp
  have set: "set (?K (sort_members (?N ms))) = set ?J"
    using 2(1) json_wf_member [OF 2(2)] by (force simp: set_sort_members image_iff)
  have "distinct (map fst ms)"
    using keys_sorted_distinct [OF s] by (simp add: comp_def split_def)
  then have "distinct (map fst (sort_members (?N ms)))"
    by (intro distinct_sort_members) (simp add: comp_def split_def)
  then have "keys_sorted (sort_key fst (?K (sort_members (?N ms))))"
    by (intro key_order_keys) (simp add: comp_def split_def)
  then show ?case using sorted_members_unique [OF _ s] set by simp
qed auto

lemma canonical_bytes_read:
  assumes "serde_documented x" "json_wf j" "canonicalize_json_value j = Ok bs"
  shows "from_slice x bs = Some j" "canonicalize bs = Ok bs"
proof -
  from assms(3) obtain v where v: "from_serde_value_at j 0 = Ok v" "canonicalize_value v = Ok bs"
    by (auto simp: canonicalize_json_value_def from_serde_value_def result_simps)
  have p: "parse bs = Ok (sort_value v)" using parse_canonical [OF v(2) from_serde_ok [OF v(1) assms(2)]] .
  then have "from_slice x bs = Some (key_order (sort_value v))" using assms(1) by (auto simp: serde_documented_def)
  moreover have "to_json v = j" using from_serde_to_json [OF v(1)] .
  ultimately show "from_slice x bs = Some j" using key_order_sort_value [of v] assms(2) by simp
  show "canonicalize bs = Ok bs" using p sort_value_canonicalize v from_serde_ok [OF v(1) assms(2)] by (simp add: canonicalize_def)
qed

lemma utf8_byte_list: "valid_str s \<Longrightarrow> byte_list (utf8 s)"
proof -
  have "\<forall>b \<in> set (utf8_char c). b < 256" if "is_scalar c" for c
    using that by (auto simp: utf8_char_def is_scalar_def)
  then show "valid_str s \<Longrightarrow> byte_list (utf8 s)"
    by (fastforce simp: utf8_def valid_str_def byte_list_def list_all_iff)
qed

lemma canonical_byte_list:
  assumes "canonicalize_json_value j = Ok bs" "json_wf j"
  shows "byte_list bs"
proof -
  from assms(1) obtain v out where v: "from_serde_value_at j 0 = Ok v" "write_value v 0 = Ok out" "bs = utf8 out"
    by (auto simp: canonicalize_json_value_def from_serde_value_def canonicalize_value_def result_simps)
  show ?thesis unfolding v(3) using write_valid [OF v(2) from_serde_ok [OF v(1) assms(2)]] by (rule utf8_byte_list)
qed

text \<open>The member order of a map, as an order on the parsed tree.\<close>

fun map_order :: "jcs \<Rightarrow> jcs" where
  "map_order (JArray vs) = JArray (map map_order vs)"
| "map_order (JObject ms) = JObject (sort_key fst (map (\<lambda>(k, v). (k, map_order v)) ms))"
| "map_order v = v"

lemma sort_key_fst_map: "sort_key fst (map (\<lambda>(k, v). (k, f v)) ms) = map (\<lambda>(k, v). (k, f v)) (sort_key fst ms)"
proof -
  let ?f = "\<lambda>(k, v). (k, f v)"
  have insort: "insort_key fst (?f m) (map ?f ms) = map ?f (insort_key fst m ms)" for m ms
    by (induction ms; cases m) auto
  show ?thesis by (induction ms) (simp_all add: insort)
qed

lemma to_json_map_order: "to_json (map_order v) = key_order v"
proof (induction v rule: map_order.induct)
  case (2 ms)
  have "map (\<lambda>(k, v). (k, to_json v)) (sort_key fst (map (\<lambda>(k, v). (k, map_order v)) ms)) =
      sort_key fst (map (\<lambda>(k, v). (k, key_order v)) ms)"
    unfolding sort_key_fst_map [symmetric] using 2 by (simp add: comp_def split_def) (metis (mono_tags, lifting) map_eq_conv prod.collapse)
  then show ?case by simp
qed auto

lemma map_order_ok: "jcs_ok v d \<Longrightarrow> jcs_ok (map_order v) d"
proof (induction v arbitrary: d rule: map_order.induct)
  case (2 ms)
  have "distinct (map fst (sort_key fst (map (\<lambda>(k, v). (k, map_order v)) ms)))"
    using 2(2) by (intro keys_sorted_distinct [OF key_order_keys]) (simp add: comp_def split_def)
  then show ?case using 2 by (fastforce simp: list_all_iff)
qed (auto simp: list_all_iff)

lemma sort_value_map_order: "jcs_ok v d \<Longrightarrow> sort_value (map_order v) = sort_value v"
proof (induction v arbitrary: d rule: map_order.induct)
  case (2 ms)
  let ?N = "map (\<lambda>(k, v). (k, sort_value v))" and ?S = "sort_key fst (map (\<lambda>(k, v). (k, map_order v)) ms)"
  have "sort_members (?N ?S) = sort_members (?N ms)"
  proof (rule sort_members_unique)
    have "sort_value (map_order v) = sort_value v" if "(k, v) \<in> set ms" for k v
      using 2(1) [OF that refl, of "d + 1"] 2(2) that by (auto simp: list_all_iff)
    then show "set (?N ?S) = set (?N ms)" by (force simp: image_iff)
    have "distinct (map fst ?S)"
      using 2(2) by (intro keys_sorted_distinct [OF key_order_keys]) (simp add: comp_def split_def)
    then show "distinct (map fst (?N ?S))" by (simp add: comp_def split_def)
    show "distinct (map fst (?N ms))" using 2(2) by (simp add: comp_def split_def)
    show "\<forall>x\<in>set (?N ?S). valid_str (fst x)" using 2(2) by (fastforce simp: list_all_iff)
  qed
  then show ?case by simp
qed (auto simp: list_all_iff)

lemma from_serde_of_json: "jcs_ok v d \<Longrightarrow> from_serde_value_at (to_json v) d = Ok v"
proof (induction v arbitrary: d rule: map_order.induct)
  case (1 vs)
  have "map (\<lambda>item. from_serde_value_at item (d + 1)) (map to_json vs) = map Inr vs"
    using 1 by (auto simp: list_all_iff)
  then show ?case using 1(2) unfolding to_json.simps from_serde_array collect_eq_Inr by simp
next
  case (2 ms)
  have "map (\<lambda>(k, v). and_then (from_serde_value_at v (d + 1)) (\<lambda>w. Ok (k, w))) (map (\<lambda>(k, v). (k, to_json v)) ms) = map Inr ms"
    using 2 by (auto simp: list_all_iff)
  then show ?case using 2(2) unfolding to_json.simps from_serde_object collect_eq_Inr by simp
qed (auto simp: check_safe_integer_def MAX_SAFE_INTEGER_def i64_simps)

text \<open>The printer of the instance writes the canonical form.\<close>

lemma sample_ext_prints: "serde_prints sample_ext"
  unfolding serde_prints_def
proof (intro allI impI)
  fix j v assume j: "json_wf j \<and> from_serde_value j = Ok v"
  then have ok: "jcs_ok v 0" and v: "to_json v = j"
    unfolding from_serde_value_def using from_serde_ok from_serde_to_json by blast+
  from canonicalize_value_Ok [OF ok] obtain bs where bs: "canonicalize_value v = Ok bs" by blast
  then have "to_vec sample_ext j = Some bs" using j by (simp add: sample_ext_def canonicalize_json_value_def)
  moreover have "parse bs = Ok (sort_value v)" using parse_canonical [OF bs ok] .
  moreover have "key_order (sort_value v) = j" using key_order_sort_value [of v] v j by simp
  ultimately show "\<exists>bs w. to_vec sample_ext j = Some bs \<and> parse bs = Ok w \<and> key_order w = j" by blast
qed

text \<open>The value the JSON parser returns has the canonical form of the bytes it was read from.\<close>

lemma canonicalize_read_value:
  assumes "serde_documented x" "canonicalize raw = Ok bs" "from_slice x raw = Some value"
  shows "canonicalize_json_value value = Ok bs"
proof -
  from assms(2) obtain v where v: "parse raw = Ok v" "canonicalize_value v = Ok bs"
    by (auto simp: canonicalize_def result_simps)
  have val: "value = to_json (map_order v)"
    using assms(1,3) v(1) by (auto simp: serde_documented_def to_json_map_order)
  note ok = parse_safe [OF v(1)]
  have "canonicalize_value (map_order v) = canonicalize_value v"
    by (metis sort_value_canonicalize sort_value_map_order [OF ok])
  then show ?thesis
    using from_serde_of_json [OF map_order_ok [OF ok]] v(2)
    by (simp add: val canonicalize_json_value_def from_serde_value_def)
qed

text \<open>The values that canonicalize: safe integers only, bounded nesting.\<close>

fun safe_json :: "json \<Rightarrow> nat \<Rightarrow> bool" where
  "safe_json (Number n) d \<longleftrightarrow> (case n of NInt i \<Rightarrow> \<bar>i\<bar> \<le> MAX_SAFE_INTEGER | NFloat b \<Rightarrow> False)"
| "safe_json (Arr vs) d \<longleftrightarrow> d < MAX_PARSE_DEPTH \<and> list_all (\<lambda>v. safe_json v (d + 1)) vs"
| "safe_json (Obj ms) d \<longleftrightarrow> d < MAX_PARSE_DEPTH \<and> list_all (\<lambda>(k, v). safe_json v (d + 1)) ms"
| "safe_json v d \<longleftrightarrow> True"

lemma collect_total: "(\<And>r. r \<in> set rs \<Longrightarrow> \<exists>y. r = Ok y) \<Longrightarrow> \<exists>ys. collect rs = Ok ys"
proof (induction rs)
  case (Cons r rs)
  then obtain y ys where "r = Ok y" "collect rs = Ok ys" by fastforce
  then show ?case by simp
qed simp

lemma from_serde_safe: "safe_json j d \<Longrightarrow> \<exists>v. from_serde_value_at j d = Ok v"
proof (induction j d rule: safe_json.induct)
  case (1 n d)
  then show ?case
    by (cases n) (auto simp: check_safe_integer_def MAX_SAFE_INTEGER_def i64_simps)
next
  case (2 vs d)
  have "\<exists>out. collect (map (\<lambda>item. from_serde_value_at item (d + 1)) vs) = Ok out"
    using 2 by (intro collect_total) (auto simp: list_all_iff)
  then show ?case using 2(2) unfolding from_serde_array by auto
next
  case (3 ms d)
  have "\<exists>out. collect (map (\<lambda>(k, v). and_then (from_serde_value_at v (d + 1)) (\<lambda>w. Ok (k, w))) ms) = Ok out"
    using 3 by (intro collect_total) (fastforce simp: list_all_iff)
  then show ?case using 3(2) unfolding from_serde_object by auto
qed auto

lemma safe_canonicalizes: "safe_json j 0 \<Longrightarrow> json_wf j \<Longrightarrow> \<exists>bs. canonicalize_json_value j = Ok bs"
  using from_serde_safe [of j 0] canonicalize_value_Ok from_serde_ok
  unfolding canonicalize_json_value_def from_serde_value_def by fastforce

text \<open>A safe value that was printed is read back, and its bytes are in the safe domain.\<close>

lemma printed_value_reads:
  assumes "serde_documented x" "serde_prints x" "json_wf j" "safe_json j 0"
  shows "\<exists>bs cs. to_vec x j = Some bs \<and> from_slice x bs = Some j \<and> canonicalize bs = Ok cs"
proof -
  from from_serde_safe [OF assms(4)] obtain v where "from_serde_value j = Ok v"
    by (auto simp: from_serde_value_def)
  with assms(2,3) obtain bs w where bs: "to_vec x j = Some bs" "parse bs = Ok w" "key_order w = j"
    unfolding serde_prints_def by blast
  have "from_slice x bs = Some j" using assms(1) bs by (auto simp: serde_documented_def)
  moreover obtain cs where "canonicalize_value w = Ok cs"
    using canonicalize_value_Ok [OF parse_safe [OF bs(2)]] by blast
  ultimately show ?thesis using bs by (auto simp: canonicalize_def)
qed

section \<open>Properties\<close>

text \<open>
  what a signing key signs, the matching public key verifies, whatever error the caller
  asks for, and a public key survives its Base64URL form.
\<close>

theorem sign_then_verify:
  assumes "base64_documented x" and "ed25519_documented x" and "length (sk_seed sk) = 32"
  shows "verify_ed25519_with x preimage (sign x sk preimage) (public_key x sk) on_error = Ok () \<and>
    vk_from_b64url x (vk_to_b64url x (public_key x sk)) = Ok (public_key x sk)"
proof -
  have "length (ed_public x (sk_seed sk)) = 32" "byte_list (ed_public x (sk_seed sk))"
    "key_point_ok x (ed_public x (sk_seed sk))"
    using assms by (auto simp: ed25519_documented_def)
  then have "vk_from_b64url x (vk_to_b64url x (public_key x sk)) = Ok (public_key x sk)"
    using assms(1)
    by (simp add: vk_from_b64url_def vk_to_b64url_def public_key_def b64url_roundtrip vk_from_bytes_def)
  then show ?thesis using sign_verify [OF assms] by simp
qed

theorem sign_then_verify_witness:
  "verify_ed25519_with sample_ext [1, 2] (sign sample_ext \<lparr>sk_seed = replicate 32 7\<rparr> [1, 2])
     (public_key sample_ext \<lparr>sk_seed = replicate 32 7\<rparr>) InvalidSignature = Ok ()"
  using sign_then_verify [OF sample_ext_documented(1,3), of "\<lparr>sk_seed = replicate 32 7\<rparr>" "[1, 2]" InvalidSignature]
  by simp

text \<open>
  a hash identifier parses back to the digest it was made from, and two byte strings share
  an identifier only when they share the digest; a text without the prefix, with an undecodable
  body or of another length is refused.
\<close>

theorem hash_id_roundtrip:
  assumes "base64_documented x" and "sha256_documented x"
  shows "parse_hash_id x (sha256_hash_id x bs) = Ok (sha256 x bs) \<and>
    (sha256_hash_id x as = sha256_hash_id x bs \<longleftrightarrow> sha256 x as = sha256 x bs) \<and>
    (parse_hash_id x s = Ok d \<longrightarrow> length d = SHA256_LEN \<and> prefix SHA256_PREFIX s)"
proof -
  have "parse_hash_id x (sha256_hash_id x bs) = Ok (sha256 x bs)"
    using assms by (simp add: parse_hash_id_def sha256_hash_id_def b64url_roundtrip sha256_documented_def SHA256_LEN_def)
  moreover have "parse_hash_id x s = Ok d \<longrightarrow> length d = SHA256_LEN \<and> prefix SHA256_PREFIX s"
    by (auto simp: parse_hash_id_def result_simps strip_prefix_def split: if_split_asm)
  ultimately show ?thesis using sha256_hash_id_eq [OF assms] by blast
qed

theorem hash_id_roundtrip_witness:
  "parse_hash_id sample_ext (sha256_hash_id sample_ext [1, 2, 3]) = Ok (sha256 sample_ext [1, 2, 3])"
  using hash_id_roundtrip [OF sample_ext_documented(1,2)] by blast

end
