(* ===== verification/Envelope.thy ===== *)
theory Envelope
  imports Crypto
begin

text \<open>
  \<open>mcps-core/src/envelope.rs\<close>: the signed envelope structures with the deserialization their
  \<open>serde\<close> attributes give them. A struct is read from an object in the order of the map, an
  unknown field or a value of the wrong type stops it at once, and missing fields are found at
  the end; it is also read from an array, element by element in field order.
\<close>

section \<open>Structures\<close>

record signature_block =
  sb_alg :: ustring
  sb_key_id :: ustring
  sb_value :: "ustring option"

record request_envelope =
  re_version :: ustring
  re_signer :: ustring
  re_on_behalf_of :: ustring
  re_audience :: ustring
  re_authorization_hash :: ustring
  re_nonce :: ustring
  re_issued_at :: ustring
  re_expires_at :: ustring
  re_signature :: signature_block

record response_envelope =
  rs_request_hash :: ustring
  rs_server_signer :: ustring
  rs_issued_at :: ustring
  rs_signature :: signature_block

datatype authorization_binding =
    OpaqueBytes ustring ustring
  | AuthzSystemReference ustring ustring ustring ustring ustring

record draft02_request_envelope =
  d2_version :: ustring
  d2_canonicalization_id :: ustring
  d2_signer :: ustring
  d2_on_behalf_of :: ustring
  d2_audience :: ustring
  d2_authorization_binding :: authorization_binding
  d2_nonce :: ustring
  d2_issued_at :: ustring
  d2_expires_at :: ustring
  d2_signature :: signature_block

record draft02_response_envelope =
  d2r_version :: ustring
  d2r_canonicalization_id :: ustring
  d2r_request_hash :: ustring
  d2r_server_signer :: ustring
  d2r_issued_at :: ustring
  d2r_signature :: signature_block

section \<open>Deserialization\<close>

text \<open>The only distinction the program draws between failures is an unknown field.\<close>

datatype de_error = UnknownField | OtherDe

type_synonym 'a de = "json \<Rightarrow> de_error + 'a"

definition de_string :: "ustring de" where
  "de_string v = (case as_str v of Some s \<Rightarrow> Ok s | None \<Rightarrow> Err OtherDe)"

definition de_option :: "'a de \<Rightarrow> 'a option de" where
  "de_option de v = (if v = Null then Ok None else and_then (de v) (\<lambda>a. Ok (Some a)))"

text \<open>A check of every member in map order, against the fields of the struct.\<close>

fun de_scan :: "(ustring \<times> unit de) list \<Rightarrow> members \<Rightarrow> de_error + unit" where
  "de_scan fs [] = Ok ()"
| "de_scan fs ((k, v) # ms) =
     (case map_of fs k of
        None \<Rightarrow> Err UnknownField
      | Some de \<Rightarrow> and_then (de v) (\<lambda>_. de_scan fs ms))"

definition checked :: "'a de \<Rightarrow> unit de" where
  "checked de v = and_then (de v) (\<lambda>_. Ok ())"

definition de_field :: "members \<Rightarrow> string \<Rightarrow> 'a de \<Rightarrow> de_error + 'a" where
  "de_field ms k de = and_then (ok_or OtherDe (obj_get (lit k) ms)) de"

definition de_optional_field :: "members \<Rightarrow> string \<Rightarrow> 'a de \<Rightarrow> de_error + 'a option" where
  "de_optional_field ms k de =
     (case obj_get (lit k) ms of None \<Rightarrow> Ok None | Some v \<Rightarrow> de_option de v)"

definition next_element :: "'a de \<Rightarrow> json list \<Rightarrow> de_error + 'a \<times> json list" where
  "next_element de vs = (case vs of [] \<Rightarrow> Err OtherDe | v # rest \<Rightarrow> and_then (de v) (\<lambda>a. Ok (a, rest)))"

definition no_more :: "json list \<Rightarrow> de_error + unit" where
  "no_more vs = (if vs = [] then Ok () else Err OtherDe)"

definition string_fields :: "string list \<Rightarrow> (ustring \<times> unit de) list" where
  "string_fields ks = map (\<lambda>k. (lit k, checked de_string)) ks"

definition de_signature_block :: "signature_block de" where
  "de_signature_block v =
     (case v of
        Obj ms \<Rightarrow>
          and_then (de_scan (string_fields [''alg'', ''key_id''] @ [(lit ''value'', checked (de_option de_string))]) ms) (\<lambda>_.
          and_then (de_field ms ''alg'' de_string) (\<lambda>alg.
          and_then (de_field ms ''key_id'' de_string) (\<lambda>key_id.
          and_then (de_optional_field ms ''value'' de_string) (\<lambda>sig.
            Ok \<lparr>sb_alg = alg, sb_key_id = key_id, sb_value = sig\<rparr>))))
      | Arr vs \<Rightarrow>
          and_then (next_element de_string vs) (\<lambda>(alg, vs).
          and_then (next_element de_string vs) (\<lambda>(key_id, vs).
          and_then (next_element (de_option de_string) vs) (\<lambda>(sig, vs).
          and_then (no_more vs) (\<lambda>_.
            Ok \<lparr>sb_alg = alg, sb_key_id = key_id, sb_value = sig\<rparr>))))
      | _ \<Rightarrow> Err OtherDe)"

definition signature_field :: "(ustring \<times> unit de) list" where
  "signature_field = [(lit ''signature'', checked de_signature_block)]"

definition de_request_envelope :: "request_envelope de" where
  "de_request_envelope v =
     (case v of
        Obj ms \<Rightarrow>
          and_then (de_scan (string_fields [''version'', ''signer'', ''on_behalf_of'', ''audience'',
            ''authorization_hash'', ''nonce'', ''issued_at'', ''expires_at''] @ signature_field) ms) (\<lambda>_.
          and_then (de_field ms ''version'' de_string) (\<lambda>version.
          and_then (de_field ms ''signer'' de_string) (\<lambda>signer.
          and_then (de_field ms ''on_behalf_of'' de_string) (\<lambda>obo.
          and_then (de_field ms ''audience'' de_string) (\<lambda>audience.
          and_then (de_field ms ''authorization_hash'' de_string) (\<lambda>ah.
          and_then (de_field ms ''nonce'' de_string) (\<lambda>nonce.
          and_then (de_field ms ''issued_at'' de_string) (\<lambda>issued_at.
          and_then (de_field ms ''expires_at'' de_string) (\<lambda>expires_at.
          and_then (de_field ms ''signature'' de_signature_block) (\<lambda>sig.
            Ok \<lparr>re_version = version, re_signer = signer, re_on_behalf_of = obo, re_audience = audience,
              re_authorization_hash = ah, re_nonce = nonce, re_issued_at = issued_at,
              re_expires_at = expires_at, re_signature = sig\<rparr>))))))))))
      | Arr vs \<Rightarrow>
          and_then (next_element de_string vs) (\<lambda>(version, vs).
          and_then (next_element de_string vs) (\<lambda>(signer, vs).
          and_then (next_element de_string vs) (\<lambda>(obo, vs).
          and_then (next_element de_string vs) (\<lambda>(audience, vs).
          and_then (next_element de_string vs) (\<lambda>(ah, vs).
          and_then (next_element de_string vs) (\<lambda>(nonce, vs).
          and_then (next_element de_string vs) (\<lambda>(issued_at, vs).
          and_then (next_element de_string vs) (\<lambda>(expires_at, vs).
          and_then (next_element de_signature_block vs) (\<lambda>(sig, vs).
          and_then (no_more vs) (\<lambda>_.
            Ok \<lparr>re_version = version, re_signer = signer, re_on_behalf_of = obo, re_audience = audience,
              re_authorization_hash = ah, re_nonce = nonce, re_issued_at = issued_at,
              re_expires_at = expires_at, re_signature = sig\<rparr>))))))))))
      | _ \<Rightarrow> Err OtherDe)"

definition de_response_envelope :: "response_envelope de" where
  "de_response_envelope v =
     (case v of
        Obj ms \<Rightarrow>
          and_then (de_scan (string_fields [''request_hash'', ''server_signer'', ''issued_at''] @ signature_field) ms) (\<lambda>_.
          and_then (de_field ms ''request_hash'' de_string) (\<lambda>request_hash.
          and_then (de_field ms ''server_signer'' de_string) (\<lambda>server_signer.
          and_then (de_field ms ''issued_at'' de_string) (\<lambda>issued_at.
          and_then (de_field ms ''signature'' de_signature_block) (\<lambda>sig.
            Ok \<lparr>rs_request_hash = request_hash, rs_server_signer = server_signer,
              rs_issued_at = issued_at, rs_signature = sig\<rparr>)))))
      | Arr vs \<Rightarrow>
          and_then (next_element de_string vs) (\<lambda>(request_hash, vs).
          and_then (next_element de_string vs) (\<lambda>(server_signer, vs).
          and_then (next_element de_string vs) (\<lambda>(issued_at, vs).
          and_then (next_element de_signature_block vs) (\<lambda>(sig, vs).
          and_then (no_more vs) (\<lambda>_.
            Ok \<lparr>rs_request_hash = request_hash, rs_server_signer = server_signer,
              rs_issued_at = issued_at, rs_signature = sig\<rparr>)))))
      | _ \<Rightarrow> Err OtherDe)"

text \<open>
  The tagged enum, read from an object: the tag selects the variant, whose fields are then
  required; other members are ignored. The draft-02 readers below are only reached for an
  object, because the version selector has been read from it by name.
\<close>

definition de_authorization_binding :: "authorization_binding de" where
  "de_authorization_binding v =
     (case as_object v of
        None \<Rightarrow> Err OtherDe
      | Some ms \<Rightarrow>
          and_then (de_field ms ''binding_type'' de_string) (\<lambda>tag.
            if tag = BINDING_TYPE_OPAQUE_BYTES then
              and_then (de_field ms ''digest_alg'' de_string) (\<lambda>digest_alg.
              and_then (de_field ms ''digest_value'' de_string) (\<lambda>digest_value.
                Ok (OpaqueBytes digest_alg digest_value)))
            else if tag = BINDING_TYPE_AUTHZ_SYSTEM_REFERENCE then
              and_then (de_field ms ''authorization_system_id'' de_string) (\<lambda>system_id.
              and_then (de_field ms ''reference_scheme_id'' de_string) (\<lambda>scheme_id.
              and_then (de_field ms ''reference_value'' de_string) (\<lambda>reference_value.
              and_then (de_field ms ''digest_alg'' de_string) (\<lambda>digest_alg.
              and_then (de_field ms ''digest_value'' de_string) (\<lambda>digest_value.
                Ok (AuthzSystemReference system_id scheme_id reference_value digest_alg digest_value))))))
            else Err OtherDe))"

definition de_draft02_request_envelope :: "draft02_request_envelope de" where
  "de_draft02_request_envelope v =
     (case as_object v of
        None \<Rightarrow> Err OtherDe
      | Some ms \<Rightarrow>
          and_then (de_scan (string_fields [''version'', ''canonicalization_id'', ''signer'', ''on_behalf_of'',
            ''audience'', ''nonce'', ''issued_at'', ''expires_at''] @
            [(lit ''authorization_binding'', checked de_authorization_binding)] @ signature_field) ms) (\<lambda>_.
          and_then (de_field ms ''version'' de_string) (\<lambda>version.
          and_then (de_field ms ''canonicalization_id'' de_string) (\<lambda>cid.
          and_then (de_field ms ''signer'' de_string) (\<lambda>signer.
          and_then (de_field ms ''on_behalf_of'' de_string) (\<lambda>obo.
          and_then (de_field ms ''audience'' de_string) (\<lambda>audience.
          and_then (de_field ms ''authorization_binding'' de_authorization_binding) (\<lambda>ab.
          and_then (de_field ms ''nonce'' de_string) (\<lambda>nonce.
          and_then (de_field ms ''issued_at'' de_string) (\<lambda>issued_at.
          and_then (de_field ms ''expires_at'' de_string) (\<lambda>expires_at.
          and_then (de_field ms ''signature'' de_signature_block) (\<lambda>sig.
            Ok \<lparr>d2_version = version, d2_canonicalization_id = cid, d2_signer = signer,
              d2_on_behalf_of = obo, d2_audience = audience, d2_authorization_binding = ab,
              d2_nonce = nonce, d2_issued_at = issued_at, d2_expires_at = expires_at,
              d2_signature = sig\<rparr>))))))))))))"

definition de_draft02_response_envelope :: "draft02_response_envelope de" where
  "de_draft02_response_envelope v =
     (case as_object v of
        None \<Rightarrow> Err OtherDe
      | Some ms \<Rightarrow>
          and_then (de_scan (string_fields [''version'', ''canonicalization_id'', ''request_hash'',
            ''server_signer'', ''issued_at''] @ signature_field) ms) (\<lambda>_.
          and_then (de_field ms ''version'' de_string) (\<lambda>version.
          and_then (de_field ms ''canonicalization_id'' de_string) (\<lambda>cid.
          and_then (de_field ms ''request_hash'' de_string) (\<lambda>request_hash.
          and_then (de_field ms ''server_signer'' de_string) (\<lambda>server_signer.
          and_then (de_field ms ''issued_at'' de_string) (\<lambda>issued_at.
          and_then (de_field ms ''signature'' de_signature_block) (\<lambda>sig.
            Ok \<lparr>d2r_version = version, d2r_canonicalization_id = cid, d2r_request_hash = request_hash,
              d2r_server_signer = server_signer, d2r_issued_at = issued_at, d2r_signature = sig\<rparr>))))))))"

section \<open>Serialization\<close>

text \<open>The objects \<open>serde\<close> writes, members in map order; an absent signature value is omitted.\<close>

definition ser_signature_block :: "signature_block \<Rightarrow> json" where
  "ser_signature_block sb =
     Obj ([(lit ''alg'', Str (sb_alg sb)), (lit ''key_id'', Str (sb_key_id sb))] @
       (case sb_value sb of None \<Rightarrow> [] | Some s \<Rightarrow> [(lit ''value'', Str s)]))"

definition request_members :: "request_envelope \<Rightarrow> json \<Rightarrow> members" where
  "request_members env sig =
     [(lit ''audience'', Str (re_audience env)), (lit ''authorization_hash'', Str (re_authorization_hash env)),
      (lit ''expires_at'', Str (re_expires_at env)), (lit ''issued_at'', Str (re_issued_at env)),
      (lit ''nonce'', Str (re_nonce env)), (lit ''on_behalf_of'', Str (re_on_behalf_of env)),
      (lit ''signature'', sig), (lit ''signer'', Str (re_signer env)), (lit ''version'', Str (re_version env))]"

definition ser_request_envelope :: "request_envelope \<Rightarrow> json" where
  "ser_request_envelope env = Obj (request_members env (ser_signature_block (re_signature env)))"

definition response_members :: "response_envelope \<Rightarrow> json \<Rightarrow> members" where
  "response_members env sig =
     [(lit ''issued_at'', Str (rs_issued_at env)), (lit ''request_hash'', Str (rs_request_hash env)),
      (lit ''server_signer'', Str (rs_server_signer env)), (lit ''signature'', sig)]"

definition ser_response_envelope :: "response_envelope \<Rightarrow> json" where
  "ser_response_envelope env = Obj (response_members env (ser_signature_block (rs_signature env)))"

definition binding_members :: "authorization_binding \<Rightarrow> members" where
  "binding_members ab = (case ab of
     OpaqueBytes alg v \<Rightarrow> [(lit ''binding_type'', Str BINDING_TYPE_OPAQUE_BYTES), (lit ''digest_alg'', Str alg),
       (lit ''digest_value'', Str v)]
   | AuthzSystemReference sys scheme ref alg v \<Rightarrow>
       [(lit ''authorization_system_id'', Str sys), (lit ''binding_type'', Str BINDING_TYPE_AUTHZ_SYSTEM_REFERENCE),
        (lit ''digest_alg'', Str alg), (lit ''digest_value'', Str v),
        (lit ''reference_scheme_id'', Str scheme), (lit ''reference_value'', Str ref)])"

definition draft02_members :: "draft02_request_envelope \<Rightarrow> json \<Rightarrow> members" where
  "draft02_members env sig =
     [(lit ''audience'', Str (d2_audience env)),
      (lit ''authorization_binding'', Obj (binding_members (d2_authorization_binding env))),
      (lit ''canonicalization_id'', Str (d2_canonicalization_id env)),
      (lit ''expires_at'', Str (d2_expires_at env)), (lit ''issued_at'', Str (d2_issued_at env)),
      (lit ''nonce'', Str (d2_nonce env)), (lit ''on_behalf_of'', Str (d2_on_behalf_of env)),
      (lit ''signature'', sig), (lit ''signer'', Str (d2_signer env)), (lit ''version'', Str (d2_version env))]"

definition ser_draft02_request_envelope :: "draft02_request_envelope \<Rightarrow> json" where
  "ser_draft02_request_envelope env = Obj (draft02_members env (ser_signature_block (d2_signature env)))"

definition draft02_response_members :: "draft02_response_envelope \<Rightarrow> json \<Rightarrow> members" where
  "draft02_response_members env sig =
     [(lit ''canonicalization_id'', Str (d2r_canonicalization_id env)), (lit ''issued_at'', Str (d2r_issued_at env)),
      (lit ''request_hash'', Str (d2r_request_hash env)), (lit ''server_signer'', Str (d2r_server_signer env)),
      (lit ''signature'', sig), (lit ''version'', Str (d2r_version env))]"

definition ser_draft02_response_envelope :: "draft02_response_envelope \<Rightarrow> json" where
  "ser_draft02_response_envelope env = Obj (draft02_response_members env (ser_signature_block (d2r_signature env)))"

section \<open>Laws\<close>

lemma de_string_Ok [result_simps]: "de_string v = Ok s \<longleftrightarrow> v = Str s"
  by (cases v) (auto simp: de_string_def)

lemma de_string_Str [simp]: "de_string (Str s) = Ok s"
  by (simp add: de_string_def)

lemma checked_Ok [result_simps]: "checked de v = Ok u \<longleftrightarrow> (\<exists>a. de v = Ok a)"
  by (auto simp: checked_def result_simps)

lemma de_field_Ok [result_simps]:
  "de_field ms k de = Ok a \<longleftrightarrow> (\<exists>v. obj_get (lit k) ms = Some v \<and> de v = Ok a)"
  by (auto simp: de_field_def result_simps)

lemma de_scan_Ok:
  "de_scan fs ms = Ok u \<longleftrightarrow> (\<forall>(k, v) \<in> set ms. \<exists>de. map_of fs k = Some de \<and> de v = Ok ())"
  by (induction fs ms rule: de_scan.induct) (auto simp: result_simps split: option.splits)

lemma de_scan_keys: "de_scan fs ms = Ok u \<Longrightarrow> fst ` set ms \<subseteq> fst ` set fs"
  unfolding de_scan_Ok by (force dest: map_of_SomeD)

lemma string_fields_keys: "fst ` set (string_fields ks) = lit ` set ks"
  by (auto simp: string_fields_def image_iff)

lemma keys_sorted_lit: "keys_sorted (map (\<lambda>(k, v). (lit k, v)) ms) \<longleftrightarrow> sorted_wrt (<) (map (\<lambda>m. lit (fst m)) ms)"
  by (simp add: keys_sorted_def comp_def split_def)

text \<open>A sorted member list is determined by its lookups on any list of keys that covers it.\<close>

lemma members_determined:
  assumes "keys_sorted ms" "keys_sorted ns" "fst ` set ms \<subseteq> fst ` set ns"
    and "\<And>k v. (k, v) \<in> set ns \<Longrightarrow> obj_get k ms = Some v"
  shows "ms = ns"
proof (rule members_ext [OF assms(1,2)])
  fix k
  show "obj_get k ms = obj_get k ns"
  proof (cases "obj_get k ns")
    case None
    then have "k \<notin> fst ` set ms" using assms(3) by (auto simp: obj_get_eq_None)
    then have "obj_get k ms = None" unfolding obj_get_eq_None .
    then show ?thesis using None by simp
  next
    case (Some v)
    then show ?thesis using assms(4) obj_get_SomeD by fastforce
  qed
qed

lemmas lit_less = lit_def

lemma request_members_sorted: "keys_sorted (request_members env sig)"
  by (simp add: request_members_def lit_def)

lemma response_members_sorted: "keys_sorted (response_members env sig)"
  by (simp add: response_members_def lit_def)

lemma de_request_envelope_members:
  assumes "de_request_envelope (Obj ms) = Ok env" "keys_sorted ms"
  shows "\<exists>sig. ms = request_members env sig \<and> de_signature_block sig = Ok (re_signature env)"
proof -
  from assms(1) obtain u where
    scan: "de_scan (string_fields [''version'', ''signer'', ''on_behalf_of'', ''audience'',
            ''authorization_hash'', ''nonce'', ''issued_at'', ''expires_at''] @ signature_field) ms = Ok u"
    and f: "obj_get (lit ''version'') ms = Some (Str (re_version env))"
      "obj_get (lit ''signer'') ms = Some (Str (re_signer env))"
      "obj_get (lit ''on_behalf_of'') ms = Some (Str (re_on_behalf_of env))"
      "obj_get (lit ''audience'') ms = Some (Str (re_audience env))"
      "obj_get (lit ''authorization_hash'') ms = Some (Str (re_authorization_hash env))"
      "obj_get (lit ''nonce'') ms = Some (Str (re_nonce env))"
      "obj_get (lit ''issued_at'') ms = Some (Str (re_issued_at env))"
      "obj_get (lit ''expires_at'') ms = Some (Str (re_expires_at env))"
    and s: "\<exists>sig. obj_get (lit ''signature'') ms = Some sig \<and> de_signature_block sig = Ok (re_signature env)"
    by (auto simp: de_request_envelope_def result_simps)
  from s obtain sig where sig: "obj_get (lit ''signature'') ms = Some sig" "de_signature_block sig = Ok (re_signature env)"
    by blast
  have "ms = request_members env sig"
  proof (rule members_determined [OF assms(2) request_members_sorted])
    have "fst ` set ms \<subseteq> lit ` {''version'', ''signer'', ''on_behalf_of'', ''audience'',
        ''authorization_hash'', ''nonce'', ''issued_at'', ''expires_at''} \<union> {lit ''signature''}"
      using de_scan_keys [OF scan] by (simp add: string_fields_keys image_Un signature_field_def)
    also have "\<dots> \<subseteq> fst ` set (request_members env sig)" by (simp add: request_members_def)
    finally show "fst ` set ms \<subseteq> fst ` set (request_members env sig)" .
    show "obj_get k ms = Some v" if "(k, v) \<in> set (request_members env sig)" for k v
      using that f sig by (auto simp: request_members_def)
  qed
  then show ?thesis using sig(2) by blast
qed

lemma de_response_envelope_members:
  assumes "de_response_envelope (Obj ms) = Ok env" "keys_sorted ms"
  shows "\<exists>sig. ms = response_members env sig \<and> de_signature_block sig = Ok (rs_signature env)"
proof -
  from assms(1) obtain u where
    scan: "de_scan (string_fields [''request_hash'', ''server_signer'', ''issued_at''] @ signature_field) ms = Ok u"
    and f: "obj_get (lit ''request_hash'') ms = Some (Str (rs_request_hash env))"
      "obj_get (lit ''server_signer'') ms = Some (Str (rs_server_signer env))"
      "obj_get (lit ''issued_at'') ms = Some (Str (rs_issued_at env))"
    and s: "\<exists>sig. obj_get (lit ''signature'') ms = Some sig \<and> de_signature_block sig = Ok (rs_signature env)"
    by (auto simp: de_response_envelope_def result_simps)
  from s obtain sig where sig: "obj_get (lit ''signature'') ms = Some sig" "de_signature_block sig = Ok (rs_signature env)"
    by blast
  have "ms = response_members env sig"
  proof (rule members_determined [OF assms(2) response_members_sorted])
    have "fst ` set ms \<subseteq> lit ` {''request_hash'', ''server_signer'', ''issued_at''} \<union> {lit ''signature''}"
      using de_scan_keys [OF scan] by (simp add: string_fields_keys image_Un signature_field_def)
    also have "\<dots> \<subseteq> fst ` set (response_members env sig)" by (simp add: response_members_def)
    finally show "fst ` set ms \<subseteq> fst ` set (response_members env sig)" .
    show "obj_get k ms = Some v" if "(k, v) \<in> set (response_members env sig)" for k v
      using that f sig by (auto simp: response_members_def)
  qed
  then show ?thesis using sig(2) by blast
qed

lemma de_signature_block_ser [simp]: "de_signature_block (ser_signature_block sb) = Ok sb"
  by (cases sb; cases "sb_value sb")
    (simp_all add: de_signature_block_def ser_signature_block_def string_fields_def checked_def
      de_field_def de_optional_field_def de_option_def)

text \<open>A signature block with a value, read from an object, is the serialized one.\<close>

lemma de_signature_block_object:
  assumes "de_signature_block (Obj ms) = Ok sb" "keys_sorted ms" "sb_value sb \<noteq> None"
  shows "Obj ms = ser_signature_block sb"
proof -
  from assms(3) obtain val where val: "sb_value sb = Some val" by blast
  from assms(1) obtain u where
    scan: "de_scan (string_fields [''alg'', ''key_id''] @ [(lit ''value'', checked (de_option de_string))]) ms = Ok u"
    and f: "obj_get (lit ''alg'') ms = Some (Str (sb_alg sb))" "obj_get (lit ''key_id'') ms = Some (Str (sb_key_id sb))"
    and o: "de_optional_field ms ''value'' de_string = Ok (sb_value sb)"
    by (auto simp: de_signature_block_def result_simps)
  have v: "obj_get (lit ''value'') ms = Some (Str val)"
    using o val by (auto simp: de_optional_field_def de_option_def result_simps split: option.split_asm if_split_asm)
  have "ms = [(lit ''alg'', Str (sb_alg sb)), (lit ''key_id'', Str (sb_key_id sb)), (lit ''value'', Str val)]"
  proof (rule members_determined [OF assms(2)])
    show "fst ` set ms \<subseteq> fst ` set [(lit ''alg'', Str (sb_alg sb)), (lit ''key_id'', Str (sb_key_id sb)), (lit ''value'', Str val)]"
      using de_scan_keys [OF scan] by (simp add: string_fields_keys image_Un insert_commute)
  qed (use f v in \<open>auto simp: lit_def\<close>)
  then show ?thesis by (simp add: ser_signature_block_def val)
qed

lemma de_request_envelope_ser: "de_request_envelope (ser_request_envelope env) = Ok env"
  by (cases env)
    (simp add: de_request_envelope_def ser_request_envelope_def request_members_def string_fields_def
      signature_field_def checked_def de_field_def)

lemma de_response_envelope_ser: "de_response_envelope (ser_response_envelope env) = Ok env"
  by (cases env)
    (simp add: de_response_envelope_def ser_response_envelope_def response_members_def string_fields_def
      signature_field_def checked_def de_field_def)

lemma binding_members_sorted: "keys_sorted (binding_members ab)"
  by (cases ab) (simp_all add: binding_members_def lit_def)

lemma de_authorization_binding_ser [simp]: "de_authorization_binding (Obj (binding_members ab)) = Ok ab"
  by (cases ab) (simp_all add: de_authorization_binding_def binding_members_def de_field_def const_defs)

lemma de_draft02_request_envelope_ser: "de_draft02_request_envelope (ser_draft02_request_envelope env) = Ok env"
  by (cases env)
    (simp add: de_draft02_request_envelope_def ser_draft02_request_envelope_def draft02_members_def string_fields_def
      signature_field_def checked_def de_field_def)

lemma de_draft02_response_envelope_ser: "de_draft02_response_envelope (ser_draft02_response_envelope env) = Ok env"
  by (cases env)
    (simp add: de_draft02_response_envelope_def ser_draft02_response_envelope_def draft02_response_members_def
      string_fields_def signature_field_def checked_def de_field_def)

section \<open>Properties\<close>


text \<open>
  an accepted request envelope object carries nothing but its fields: if a sorted object
  deserializes, its members are exactly the nine fields of the envelope, with the values that
  were read; no unknown, duplicate or ignored member can ride along.
\<close>

theorem envelope_has_no_extra_members:
  assumes "de_request_envelope (Obj ms) = Ok env" and "keys_sorted ms"
  shows "\<exists>sig. ms = request_members env sig \<and> de_signature_block sig = Ok (re_signature env)"
  using de_request_envelope_members [OF assms] .

definition sample_request_envelope :: request_envelope where
  "sample_request_envelope = \<lparr>re_version = VERSION_DRAFT_01, re_signer = lit ''s'', re_on_behalf_of = lit ''p'',
     re_audience = lit ''a'', re_authorization_hash = lit ''sha256:x'', re_nonce = lit ''n'',
     re_issued_at = lit ''2026-01-01T00:00:00Z'', re_expires_at = lit ''2026-01-01T00:05:00Z'',
     re_signature = \<lparr>sb_alg = SIG_ALG_ED25519, sb_key_id = lit ''k'', sb_value = Some (lit ''v'')\<rparr>\<rparr>"

theorem envelope_has_no_extra_members_witness:
  "\<exists>sig. request_members sample_request_envelope (ser_signature_block (re_signature sample_request_envelope)) =
     request_members sample_request_envelope sig \<and>
     de_signature_block sig = Ok (re_signature sample_request_envelope)"
  by (rule envelope_has_no_extra_members)
    (simp_all add: request_members_sorted de_request_envelope_ser [unfolded ser_request_envelope_def])

end
