(* ===== verification/Constraints.thy ===== *)
theory Constraints
  imports Envelope
begin

text \<open>
  \<open>mcps-core/src/constraints.rs\<close>: the structural gates in front of the verification pipeline
  (no batch, no notification) and the extraction of the four envelope kinds with their error
  classification.
\<close>

section \<open>Structural rejects\<close>

definition KNOWN_CANONICALIZATION_SCHEMES :: "ustring list" where
  "KNOWN_CANONICALIZATION_SCHEMES = [CANONICALIZATION_ID_INT53_V1]"

definition reject_batch :: "json \<Rightarrow> unit mcps_result" where
  "reject_batch msg = (if is_array msg then Err BatchForbidden else Ok ())"

definition reject_notification :: "json \<Rightarrow> unit mcps_result" where
  "reject_notification msg =
     (case json_get msg (lit ''id'') of
        None \<Rightarrow> Err NotificationForbidden
      | Some v \<Rightarrow> if v = Null then Err NotificationForbidden else Ok ())"

section \<open>Locating and reading an envelope\<close>

definition locate_envelope :: "json \<Rightarrow> ustring \<Rightarrow> ustring \<Rightarrow> json mcps_result" where
  "locate_envelope msg outer meta_key = ok_or MissingEnvelope (json_path msg [outer, lit ''_meta'', meta_key])"

definition deserialize_envelope :: "'a de \<Rightarrow> json \<Rightarrow> 'a mcps_result" where
  "deserialize_envelope de raw =
     (case de raw of
        Inr envelope \<Rightarrow> Ok envelope
      | Inl err \<Rightarrow> if err = UnknownField then Err UnknownEnvelopeField else Err CanonicalizationFailed)"

definition classify_request_envelope_error :: "json \<Rightarrow> mcps_error \<Rightarrow> mcps_error" where
  "classify_request_envelope_error raw original =
     (if original \<noteq> CanonicalizationFailed then original
      else case as_object raw of
        None \<Rightarrow> original
      | Some obj \<Rightarrow>
          if \<not> obj_contains (lit ''authorization_hash'') obj then AuthorizationHashMissing
          else if \<not> obj_contains (lit ''on_behalf_of'') obj then OnBehalfOfMissing
          else original)"

definition extract_request_envelope :: "json \<Rightarrow> request_envelope mcps_result" where
  "extract_request_envelope msg =
     and_then (locate_envelope msg (lit ''params'') REQUEST_META_KEY) (\<lambda>raw.
     and_then (map_err (classify_request_envelope_error raw) (deserialize_envelope de_request_envelope raw)) (\<lambda>envelope.
       if re_version envelope \<noteq> VERSION_DRAFT_01 then Err UnsupportedVersion else Ok envelope))"

definition extract_response_envelope :: "json \<Rightarrow> response_envelope mcps_result" where
  "extract_response_envelope msg =
     and_then (locate_envelope msg (lit ''result'') RESPONSE_META_KEY) (deserialize_envelope de_response_envelope)"

section \<open>Draft-02 selectors\<close>

definition require_draft02_version :: "json \<Rightarrow> unit mcps_result" where
  "require_draft02_version raw =
     (if Option.bind (json_get raw (lit ''version'')) as_str = Some VERSION_DRAFT_02 then Ok ()
      else Err UnsupportedVersion)"

definition classify_canonicalization_id :: "ustring \<Rightarrow> ustring list \<Rightarrow> ustring list \<Rightarrow> unit mcps_result" where
  "classify_canonicalization_id cid allowlist known =
     (if cid \<in> set allowlist then Ok ()
      else if cid \<in> set known then Err CanonicalizationIdNotAllowed
      else Err CanonicalizationIdUnknown)"

definition check_canonicalization_id :: "json \<Rightarrow> unit mcps_result" where
  "check_canonicalization_id raw =
     (case Option.bind (json_get raw (lit ''canonicalization_id'')) as_str of
        Some cid \<Rightarrow> classify_canonicalization_id cid DRAFT_02_CANONICALIZATION_ALLOWLIST KNOWN_CANONICALIZATION_SCHEMES
      | None \<Rightarrow> Err CanonicalizationIdMissing)"

definition REFERENCE_ONLY :: "string list" where
  "REFERENCE_ONLY = [''authorization_system_id'', ''reference_scheme_id'', ''reference_value'']"

definition get_str :: "members \<Rightarrow> string \<Rightarrow> ustring option" where
  "get_str ms k = Option.bind (obj_get (lit k) ms) as_str"

definition required_binding_fields :: "members \<Rightarrow> ustring \<Rightarrow> string list mcps_result" where
  "required_binding_fields obj binding_type =
     (if binding_type = BINDING_TYPE_OPAQUE_BYTES then
        if list_ex (\<lambda>k. obj_contains (lit k) obj) REFERENCE_ONLY then Err AuthorizationBindingAmbiguousBytes
        else Ok [''binding_type'', ''digest_alg'', ''digest_value'']
      else if binding_type = BINDING_TYPE_AUTHZ_SYSTEM_REFERENCE then
        Ok [''binding_type'', ''authorization_system_id'', ''reference_scheme_id'', ''reference_value'',
          ''digest_alg'', ''digest_value'']
      else Err AuthorizationBindingTypeUnsupported)"

definition check_authorization_binding :: "json \<Rightarrow> unit mcps_result" where
  "check_authorization_binding raw =
     and_then (ok_or AuthorizationBindingMissing (json_get raw (lit ''authorization_binding''))) (\<lambda>binding.
     and_then (ok_or AuthorizationBindingMalformed (as_object binding)) (\<lambda>obj.
     and_then (ok_or AuthorizationBindingMalformed (get_str obj ''binding_type'')) (\<lambda>binding_type.
     and_then (required_binding_fields obj binding_type) (\<lambda>required.
       if length obj \<noteq> length required then Err AuthorizationBindingMalformed
       else if \<not> list_all (\<lambda>k. case get_str obj k of Some s \<Rightarrow> s \<noteq> [] | None \<Rightarrow> False) required
       then Err AuthorizationBindingMalformed
       else if get_str obj ''digest_alg'' \<noteq> Some DIGEST_ALG_SHA256 then Err AuthorizationBindingMalformed
       else Ok ()))))"

definition classify_draft02_request_envelope_error :: "json \<Rightarrow> mcps_error \<Rightarrow> mcps_error" where
  "classify_draft02_request_envelope_error raw original =
     (if original \<noteq> CanonicalizationFailed then original
      else case as_object raw of
        Some obj \<Rightarrow> if \<not> obj_contains (lit ''authorization_binding'') obj then AuthorizationBindingMissing else original
      | None \<Rightarrow> original)"

definition extract_draft02_request_envelope :: "json \<Rightarrow> draft02_request_envelope mcps_result" where
  "extract_draft02_request_envelope msg =
     and_then (locate_envelope msg (lit ''params'') REQUEST_META_KEY) (\<lambda>raw.
     and_then (require_draft02_version raw) (\<lambda>_.
     and_then (check_canonicalization_id raw) (\<lambda>_.
     and_then (check_authorization_binding raw) (\<lambda>_.
       map_err (classify_draft02_request_envelope_error raw)
         (deserialize_envelope de_draft02_request_envelope raw)))))"

definition extract_draft02_response_envelope :: "json \<Rightarrow> draft02_response_envelope mcps_result" where
  "extract_draft02_response_envelope msg =
     and_then (locate_envelope msg (lit ''result'') RESPONSE_META_KEY) (\<lambda>raw.
     and_then (require_draft02_version raw) (\<lambda>_.
     and_then (check_canonicalization_id raw) (\<lambda>_.
       deserialize_envelope de_draft02_response_envelope raw)))"

section \<open>Laws\<close>

lemma reject_batch_Ok [result_simps]: "reject_batch msg = Ok u \<longleftrightarrow> \<not> is_array msg"
  by (simp add: reject_batch_def)

lemma reject_notification_Ok [result_simps]:
  "reject_notification msg = Ok u \<longleftrightarrow> (\<exists>v. json_get msg (lit ''id'') = Some v \<and> v \<noteq> Null)"
  by (auto simp: reject_notification_def split: option.splits)

lemma locate_envelope_Ok [result_simps]:
  "locate_envelope msg outer k = Ok raw \<longleftrightarrow> json_path msg [outer, lit ''_meta'', k] = Some raw"
  by (simp only: locate_envelope_def ok_or_eq_Inr)

lemma deserialize_envelope_Ok [result_simps]: "deserialize_envelope de raw = Ok env \<longleftrightarrow> de raw = Ok env"
  by (auto simp: deserialize_envelope_def split: sum.splits if_splits)

lemma extract_request_envelope_Ok:
  "extract_request_envelope msg = Ok env \<longleftrightarrow>
     (\<exists>raw. json_path msg [lit ''params'', lit ''_meta'', REQUEST_META_KEY] = Some raw \<and>
        de_request_envelope raw = Ok env \<and> re_version env = VERSION_DRAFT_01)"
  unfolding extract_request_envelope_def by (auto simp: result_simps simp del: json_path.simps split: if_split_asm)

lemma extract_response_envelope_Ok:
  "extract_response_envelope msg = Ok env \<longleftrightarrow>
     (\<exists>raw. json_path msg [lit ''result'', lit ''_meta'', RESPONSE_META_KEY] = Some raw \<and>
        de_response_envelope raw = Ok env)"
  unfolding extract_response_envelope_def by (auto simp: result_simps simp del: json_path.simps)

lemma check_canonicalization_id_Ok:
  "check_canonicalization_id raw = Ok u \<longleftrightarrow>
     Option.bind (json_get raw (lit ''canonicalization_id'')) as_str = Some CANONICALIZATION_ID_INT53_V1"
  by (auto simp: check_canonicalization_id_def classify_canonicalization_id_def
      DRAFT_02_CANONICALIZATION_ALLOWLIST_def KNOWN_CANONICALIZATION_SCHEMES_def
      split: option.splits if_splits)

lemma de_draft02_object: "de_draft02_request_envelope raw = Ok env \<Longrightarrow> \<exists>ms. raw = Obj ms"
  by (cases raw) (auto simp: de_draft02_request_envelope_def)

lemma de_draft02_fields:
  assumes "de_draft02_request_envelope (Obj ms) = Ok env"
  shows "obj_get (lit ''version'') ms = Some (Str (d2_version env))"
    "obj_get (lit ''canonicalization_id'') ms = Some (Str (d2_canonicalization_id env))"
    "\<exists>b. obj_get (lit ''authorization_binding'') ms = Some b \<and>
       de_authorization_binding b = Ok (d2_authorization_binding env)"
  using assms by (auto simp: de_draft02_request_envelope_def result_simps)

lemma extract_draft02_request_envelope_Ok:
  "extract_draft02_request_envelope msg = Ok env \<longleftrightarrow>
     (\<exists>raw. json_path msg [lit ''params'', lit ''_meta'', REQUEST_META_KEY] = Some raw \<and>
        check_authorization_binding raw = Ok () \<and> de_draft02_request_envelope raw = Ok env \<and>
        d2_version env = VERSION_DRAFT_02 \<and> d2_canonicalization_id env = CANONICALIZATION_ID_INT53_V1)"
proof
  assume "extract_draft02_request_envelope msg = Ok env"
  then obtain raw where raw: "json_path msg [lit ''params'', lit ''_meta'', REQUEST_META_KEY] = Some raw"
    and v: "require_draft02_version raw = Ok ()" and c: "check_canonicalization_id raw = Ok ()"
    and b: "check_authorization_binding raw = Ok ()" and d: "de_draft02_request_envelope raw = Ok env"
    unfolding extract_draft02_request_envelope_def by (auto simp: result_simps simp del: json_path.simps)
  from de_draft02_object [OF d] obtain ms where ms: "raw = Obj ms" by blast
  have "d2_version env = VERSION_DRAFT_02 \<and> d2_canonicalization_id env = CANONICALIZATION_ID_INT53_V1"
    using v c de_draft02_fields [OF d [unfolded ms]]
    by (auto simp: ms require_draft02_version_def check_canonicalization_id_Ok split: if_split_asm)
  then show "\<exists>raw. json_path msg [lit ''params'', lit ''_meta'', REQUEST_META_KEY] = Some raw \<and>
        check_authorization_binding raw = Ok () \<and> de_draft02_request_envelope raw = Ok env \<and>
        d2_version env = VERSION_DRAFT_02 \<and> d2_canonicalization_id env = CANONICALIZATION_ID_INT53_V1"
    using raw b d by blast
next
  assume "\<exists>raw. json_path msg [lit ''params'', lit ''_meta'', REQUEST_META_KEY] = Some raw \<and>
        check_authorization_binding raw = Ok () \<and> de_draft02_request_envelope raw = Ok env \<and>
        d2_version env = VERSION_DRAFT_02 \<and> d2_canonicalization_id env = CANONICALIZATION_ID_INT53_V1"
  then obtain raw where raw: "json_path msg [lit ''params'', lit ''_meta'', REQUEST_META_KEY] = Some raw"
    and b: "check_authorization_binding raw = Ok ()" and d: "de_draft02_request_envelope raw = Ok env"
    and i: "d2_version env = VERSION_DRAFT_02" "d2_canonicalization_id env = CANONICALIZATION_ID_INT53_V1"
    by blast
  from de_draft02_object [OF d] obtain ms where ms: "raw = Obj ms" by blast
  have "require_draft02_version raw = Ok ()" "check_canonicalization_id raw = Ok ()"
    using i de_draft02_fields [OF d [unfolded ms]]
    by (simp_all add: ms require_draft02_version_def check_canonicalization_id_Ok)
  then show "extract_draft02_request_envelope msg = Ok env"
    using raw b d unfolding extract_draft02_request_envelope_def
    by (simp add: locate_envelope_def deserialize_envelope_def del: json_path.simps)
qed

text \<open>After the structural check, reading the binding cannot fail.\<close>

lemma de_field_get_str: "get_str obj k = Some s \<Longrightarrow> de_field obj k de_string = Ok s"
  by (auto simp: de_field_def get_str_def de_string_def split: bind_splits)

lemma required_fields_read:
  assumes req: "required_binding_fields obj tag = Ok req" and tag: "get_str obj ''binding_type'' = Some tag"
    and str: "\<forall>k\<in>set req. \<exists>s. get_str obj k = Some s"
  shows "\<exists>ab. de_authorization_binding (Obj obj) = Ok ab"
proof (cases "tag = BINDING_TYPE_OPAQUE_BYTES")
  case True
  have "req = [''binding_type'', ''digest_alg'', ''digest_value'']"
    using req True by (simp add: required_binding_fields_def split: if_split_asm)
  then obtain a v where "get_str obj ''digest_alg'' = Some a" "get_str obj ''digest_value'' = Some v"
    using str by auto
  then show ?thesis using tag True by (simp add: de_authorization_binding_def de_field_get_str)
next
  case False
  then have t: "tag = BINDING_TYPE_AUTHZ_SYSTEM_REFERENCE"
    and r: "req = [''binding_type'', ''authorization_system_id'', ''reference_scheme_id'', ''reference_value'',
      ''digest_alg'', ''digest_value'']"
    using req by (simp_all add: required_binding_fields_def split: if_split_asm)
  from str [unfolded r] obtain b c d e f where "get_str obj ''authorization_system_id'' = Some b"
    "get_str obj ''reference_scheme_id'' = Some c" "get_str obj ''reference_value'' = Some d"
    "get_str obj ''digest_alg'' = Some e" "get_str obj ''digest_value'' = Some f"
    by auto
  then show ?thesis using tag t False by (simp add: de_authorization_binding_def de_field_get_str)
qed

lemma check_authorization_binding_Ok:
  "check_authorization_binding raw = Ok () \<longleftrightarrow>
     (\<exists>obj tag req. json_get raw (lit ''authorization_binding'') = Some (Obj obj) \<and>
        get_str obj ''binding_type'' = Some tag \<and> required_binding_fields obj tag = Ok req \<and>
        length obj = length req \<and> (\<forall>k\<in>set req. \<exists>s. get_str obj k = Some s \<and> s \<noteq> []) \<and>
        get_str obj ''digest_alg'' = Some DIGEST_ALG_SHA256)"
proof -
  have all: "list_all (\<lambda>k. case get_str obj k of Some s \<Rightarrow> s \<noteq> [] | None \<Rightarrow> False) req \<longleftrightarrow>
      (\<forall>k\<in>set req. \<exists>s. get_str obj k = Some s \<and> s \<noteq> [])" for obj req
    by (simp add: list_all_iff split: option.split) force
  have obj: "as_object v = Some obj \<longleftrightarrow> v = Obj obj" for v obj
    by (cases v) auto
  show ?thesis
    unfolding check_authorization_binding_def by (simp add: result_simps all obj) blast
qed

lemma checked_binding_reads:
  assumes "check_authorization_binding raw = Ok ()"
  shows "\<exists>obj ab. json_get raw (lit ''authorization_binding'') = Some (Obj obj) \<and>
    de_authorization_binding (Obj obj) = Ok ab"
  using assms unfolding check_authorization_binding_Ok by (metis required_fields_read)

definition REQUEST_FIELDS :: "string list" where
  "REQUEST_FIELDS = [''version'', ''signer'', ''on_behalf_of'', ''audience'', ''authorization_hash'', ''nonce'',
     ''issued_at'', ''expires_at'', ''signature'']"

lemma de_request_envelope_removed:
  assumes "k \<in> set REQUEST_FIELDS" "de_signature_block sig = Ok sb"
  shows "de_request_envelope (Obj (obj_remove (lit k) (request_members env sig))) = Err OtherDe"
proof -
  from assms(1) have "k = ''version'' \<or> k = ''signer'' \<or> k = ''on_behalf_of'' \<or> k = ''audience'' \<or>
      k = ''authorization_hash'' \<or> k = ''nonce'' \<or> k = ''issued_at'' \<or> k = ''expires_at'' \<or> k = ''signature''"
    by (simp add: REQUEST_FIELDS_def)
  then show ?thesis
    by (elim disjE)
      (simp_all add: assms(2) de_request_envelope_def obj_remove_def request_members_def string_fields_def
        signature_field_def checked_def de_field_def)
qed

text \<open>A sorted object with as many members as a list of its own members has no others.\<close>

lemma members_counted:
  assumes "keys_sorted ms" "keys_sorted ns" "length ms = length ns" "\<And>k v. (k, v) \<in> set ns \<Longrightarrow> obj_get k ms = Some v"
  shows "ms = ns"
proof (rule sorted_members_unique [OF assms(1,2)])
  have sub: "set ns \<subseteq> set ms" using assms(4) by (auto dest: obj_get_SomeD)
  have "card (set ms) = length ms" "card (set ns) = length ns"
    using keys_sorted_distinct [OF assms(1)] keys_sorted_distinct [OF assms(2)]
    by (simp_all add: distinct_card distinct_map)
  then show "set ms = set ns" using sub assms(3) by (metis List.finite_set card_subset_eq)
qed

lemma checked_binding_members:
  assumes c: "check_authorization_binding raw = Ok ()" and g: "json_get raw (lit ''authorization_binding'') = Some (Obj obj)"
    and d: "de_authorization_binding (Obj obj) = Ok ab" and s: "keys_sorted obj"
  shows "obj = binding_members ab"
proof (rule members_counted [OF s binding_members_sorted])
  from c g obtain tag req where tag: "get_str obj ''binding_type'' = Some tag"
    and req: "required_binding_fields obj tag = Ok req" and len: "length obj = length req"
    by (auto simp: check_authorization_binding_Ok)
  from tag have t: "obj_get (lit ''binding_type'') obj = Some (Str tag)"
    by (auto simp: get_str_def split: bind_splits elim: as_str.elims)
  show "length obj = length (binding_members ab)"
    using d t req len
    by (auto simp: de_authorization_binding_def required_binding_fields_def binding_members_def result_simps
        split: if_split_asm)
  show "obj_get k obj = Some v" if "(k, v) \<in> set (binding_members ab)" for k v
    using d t that by (auto simp: de_authorization_binding_def binding_members_def result_simps split: if_split_asm)
qed

lemma binding_members_str:
  "(k, v) \<in> set (binding_members ab) \<Longrightarrow> \<exists>s. v = Str s"
  by (cases ab) (auto simp: binding_members_def)

lemma required_binding_members:
  assumes "required_binding_fields (binding_members ab) tag = Ok req"
    "get_str (binding_members ab) ''binding_type'' = Some tag"
  shows "fst ` set (binding_members ab) = lit ` set req"
  using assms
  by (cases ab)
    (auto simp: required_binding_fields_def binding_members_def get_str_def const_defs split: if_split_asm)

lemma checked_binding_values:
  assumes c: "check_authorization_binding raw = Ok ()"
    and g: "json_get raw (lit ''authorization_binding'') = Some (Obj (binding_members ab))"
  shows "list_all (\<lambda>(k, v). v \<noteq> Str []) (binding_members ab) \<and>
    obj_get (lit ''digest_alg'') (binding_members ab) = Some (Str DIGEST_ALG_SHA256)"
proof -
  let ?ms = "binding_members ab"
  have str: "get_str ?ms k = Some s \<longleftrightarrow> obj_get (lit k) ?ms = Some (Str s)" for k s
    by (auto simp: get_str_def split: bind_splits elim: as_str.elims)
  from c g obtain tag req where tag: "get_str ?ms ''binding_type'' = Some tag"
    and req: "required_binding_fields ?ms tag = Ok req"
    and ne: "\<forall>k\<in>set req. \<exists>s. obj_get (lit k) ?ms = Some (Str s) \<and> s \<noteq> []"
    and alg: "obj_get (lit ''digest_alg'') ?ms = Some (Str DIGEST_ALG_SHA256)"
    by (auto simp: check_authorization_binding_Ok str)
  have "v \<noteq> Str []" if kv: "(k, v) \<in> set ?ms" for k v
  proof -
    have "obj_get k ?ms = Some v" using kv obj_get_iff [OF binding_members_sorted] by blast
    moreover have "k \<in> lit ` set req"
      unfolding required_binding_members [OF req tag, symmetric] using kv by force
    ultimately show ?thesis using ne by auto
  qed
  then show ?thesis using alg by (auto simp: list_all_iff)
qed

section \<open>Properties\<close>



text \<open>
  C18: a draft-02 request is bound to its authorization in exactly one form: if extraction
  accepts a well-formed message, its binding object is precisely the members of one of the two
  forms (never a mixture, never an extra member), every value is non-empty and the digest
  algorithm is \<open>sha256\<close>; and the version and canonicalization scheme are the ones of draft-02.
\<close>

theorem draft02_binding_is_one_form:
  assumes "extract_draft02_request_envelope msg = Ok env" and "json_wf msg"
  shows "json_path msg [lit ''params'', lit ''_meta'', REQUEST_META_KEY, lit ''authorization_binding''] =
      Some (Obj (binding_members (d2_authorization_binding env))) \<and>
    list_all (\<lambda>(k, v). v \<noteq> Str []) (binding_members (d2_authorization_binding env)) \<and>
    obj_get (lit ''digest_alg'') (binding_members (d2_authorization_binding env)) = Some (Str DIGEST_ALG_SHA256) \<and>
    d2_version env = VERSION_DRAFT_02 \<and> d2_canonicalization_id env = CANONICALIZATION_ID_INT53_V1"
proof -
  from assms(1) obtain raw where raw: "json_path msg [lit ''params'', lit ''_meta'', REQUEST_META_KEY] = Some raw"
    and c: "check_authorization_binding raw = Ok ()" and d: "de_draft02_request_envelope raw = Ok env"
    and ids: "d2_version env = VERSION_DRAFT_02" "d2_canonicalization_id env = CANONICALIZATION_ID_INT53_V1"
    unfolding extract_draft02_request_envelope_Ok by blast
  from checked_binding_reads [OF c] obtain obj where
    g: "json_get raw (lit ''authorization_binding'') = Some (Obj obj)" by blast
  from de_draft02_object [OF d] obtain ms where ms: "raw = Obj ms" by blast
  have ab: "de_authorization_binding (Obj obj) = Ok (d2_authorization_binding env)"
    using de_draft02_fields(3) [OF d [unfolded ms]] g by (auto simp: ms)
  have path: "json_path msg [lit ''params'', lit ''_meta'', REQUEST_META_KEY, lit ''authorization_binding''] = Some (Obj obj)"
    using raw g by (simp split: option.split_asm)
  have "keys_sorted obj" using json_wf_path [OF assms(2) path] by simp
  from checked_binding_members [OF c g ab this] have obj: "obj = binding_members (d2_authorization_binding env)" .
  show ?thesis
    using path ids checked_binding_values [OF c g [unfolded obj]] by (simp only: obj simp_thms)
qed

definition sample_draft02_envelope :: draft02_request_envelope where
  "sample_draft02_envelope = \<lparr>d2_version = VERSION_DRAFT_02, d2_canonicalization_id = CANONICALIZATION_ID_INT53_V1,
     d2_signer = lit ''s'', d2_on_behalf_of = lit ''p'', d2_audience = lit ''a'',
     d2_authorization_binding = OpaqueBytes DIGEST_ALG_SHA256 (lit ''d''), d2_nonce = lit ''n'',
     d2_issued_at = lit ''2026-01-01T00:00:00Z'', d2_expires_at = lit ''2026-01-01T00:05:00Z'',
     d2_signature = \<lparr>sb_alg = SIG_ALG_ED25519, sb_key_id = lit ''k'', sb_value = Some (lit ''v'')\<rparr>\<rparr>"

definition request_with_envelope :: "json \<Rightarrow> json" where
  "request_with_envelope raw = Obj [(lit ''id'', Number (NInt 1)),
     (lit ''params'', Obj [(lit ''_meta'', Obj [(REQUEST_META_KEY, raw)])])]"

lemma sample_draft02_extracts:
  "extract_draft02_request_envelope (request_with_envelope (ser_draft02_request_envelope sample_draft02_envelope)) =
     Ok sample_draft02_envelope"
  unfolding extract_draft02_request_envelope_Ok check_authorization_binding_Ok
  by (simp add: request_with_envelope_def de_draft02_request_envelope_ser)
    (simp add: ser_draft02_request_envelope_def draft02_members_def binding_members_def sample_draft02_envelope_def
      get_str_def required_binding_fields_def REFERENCE_ONLY_def obj_contains_def const_defs)

theorem draft02_binding_is_one_form_witness:
  "list_all (\<lambda>(k, v). v \<noteq> Str []) (binding_members (d2_authorization_binding sample_draft02_envelope))"
  by (rule draft02_binding_is_one_form [THEN conjunct2, THEN conjunct1, OF sample_draft02_extracts])
    (simp add: request_with_envelope_def ser_draft02_request_envelope_def draft02_members_def binding_members_def
      sample_draft02_envelope_def const_defs ser_signature_block_def valid_lit lit_def is_scalar_def)

end
