(* ===== verification/Signing.thy ===== *)
theory Signing
  imports Constraints "HOL-Library.Sublist"
begin

text \<open>
  \<open>mcps-core/src/signing.rs\<close>: the bytes a signature covers. The preimage is the whole JSON-RPC
  object without \<open>signature.value\<close> and without the trace-context keys of the container's
  \<open>_meta\<close>; \<open>preimage_exclusion_paths\<close> publishes the same exclusion as a list of paths, and the
  lemmas relate the two.
\<close>

section \<open>Paths in a value\<close>

text \<open>A chain of \<open>get_mut\<close> calls and an update at its end; nothing happens when a segment is absent.\<close>

fun update_path :: "ustring list \<Rightarrow> (json \<Rightarrow> json) \<Rightarrow> json \<Rightarrow> json" where
  "update_path [] f v = f v"
| "update_path (k # ks) f (Obj ms) = Obj (obj_update k (update_path ks f) ms)"
| "update_path (k # ks) f v = v"

fun json_remove :: "ustring \<Rightarrow> json \<Rightarrow> json" where
  "json_remove k (Obj ms) = Obj (obj_remove k ms)"
| "json_remove k v = v"

fun json_insert :: "ustring \<Rightarrow> json \<Rightarrow> json \<Rightarrow> json" where
  "json_insert k w (Obj ms) = Obj (obj_insert k w ms)"
| "json_insert k w v = v"

section \<open>Envelope locations\<close>

datatype envelope_location = Request | Response

primrec container_key :: "envelope_location \<Rightarrow> ustring" where
  "container_key Request = lit ''params''"
| "container_key Response = lit ''result''"

primrec meta_key :: "envelope_location \<Rightarrow> ustring" where
  "meta_key Request = REQUEST_META_KEY"
| "meta_key Response = RESPONSE_META_KEY"

section \<open>The preimage\<close>

definition strip_signature_value :: "json \<Rightarrow> envelope_location \<Rightarrow> json mcps_result" where
  "strip_signature_value object location =
     and_then (ok_or MissingEnvelope (json_get object (container_key location))) (\<lambda>container.
     and_then (ok_or MissingEnvelope (json_get container (lit ''_meta''))) (\<lambda>meta.
     and_then (ok_or MissingEnvelope (json_get meta (meta_key location))) (\<lambda>envelope.
     and_then (ok_or MissingEnvelope (json_get envelope (lit ''signature''))) (\<lambda>signature.
     and_then (ok_or MissingEnvelope (as_object signature)) (\<lambda>_.
       Ok (update_path [container_key location, lit ''_meta'', meta_key location, lit ''signature'']
         (json_remove (lit ''value'')) object))))))"

definition strip_observability_meta :: "json \<Rightarrow> envelope_location \<Rightarrow> json" where
  "strip_observability_meta object location =
     update_path [container_key location, lit ''_meta''] (fold json_remove OBSERVABILITY_META_KEYS) object"

definition signing_preimage :: "json \<Rightarrow> envelope_location \<Rightarrow> bytes mcps_result" where
  "signing_preimage object location =
     and_then (strip_signature_value object location) (\<lambda>cloned.
       canonicalize_json_value (strip_observability_meta cloned location))"

definition request_signing_preimage :: "json \<Rightarrow> bytes mcps_result" where
  "request_signing_preimage object = signing_preimage object Request"

definition response_signing_preimage :: "json \<Rightarrow> bytes mcps_result" where
  "response_signing_preimage object = signing_preimage object Response"

definition preimage_exclusion_paths :: "envelope_location \<Rightarrow> ustring list list" where
  "preimage_exclusion_paths location =
     [container_key location, lit ''_meta'', meta_key location, lit ''signature'', lit ''value''] #
     map (\<lambda>key. [container_key location, lit ''_meta'', key]) OBSERVABILITY_META_KEYS"

definition request_hash :: "ext \<Rightarrow> json \<Rightarrow> ustring mcps_result" where
  "request_hash x request_object =
     and_then (request_signing_preimage request_object) (\<lambda>preimage. Ok (sha256_hash_id x preimage))"

text \<open>What every signer of the program does with a preimage: sign it and write the value into the
  signature block of the object.\<close>

definition sign_in_place :: "ext \<Rightarrow> signing_key \<Rightarrow> envelope_location \<Rightarrow> json \<Rightarrow> json mcps_result" where
  "sign_in_place x key location object =
     and_then (signing_preimage object location) (\<lambda>preimage.
       Ok (update_path [container_key location, lit ''_meta'', meta_key location, lit ''signature'']
         (json_insert (lit ''value'') (Str (sign x key preimage))) object))"

section \<open>Deleting a path\<close>

text \<open>What an independent verifier does with the published paths: delete each of them.\<close>

definition delete_path :: "ustring list \<Rightarrow> json \<Rightarrow> json" where
  "delete_path p v = (if p = [] then v else update_path (butlast p) (json_remove (last p)) v)"

definition without_excluded :: "envelope_location \<Rightarrow> json \<Rightarrow> json" where
  "without_excluded location object = fold delete_path (preimage_exclusion_paths location) object"

definition signature_path :: "envelope_location \<Rightarrow> ustring list" where
  "signature_path location = [container_key location, lit ''_meta'', meta_key location, lit ''signature'']"

lemma update_path_id [simp]: "update_path (k # ks) f v = v" if "\<And>ms. v \<noteq> Obj ms"
  using that by (cases v) auto

lemma update_path_comp: "update_path ks f (update_path ks g v) = update_path ks (\<lambda>w. f (g w)) v"
  by (induction ks f v rule: update_path.induct) (auto simp: obj_update_def)

lemma update_path_append: "update_path (ks @ ls) f v = update_path ks (update_path ls f) v"
  by (induction ks "update_path ls f" v rule: update_path.induct) (auto simp: obj_update_def)

lemma json_path_append: "json_path v (ks @ ls) = Option.bind (json_path v ks) (\<lambda>w. json_path w ls)"
  by (induction ks arbitrary: v) (auto split: option.split)

lemma json_path_update:
  "json_path (update_path ks f v) (ks @ p) = Option.bind (json_path v ks) (\<lambda>w. json_path (f w) p)"
  by (induction ks f v rule: update_path.induct) (auto split: option.split)

lemma json_wf_update_path:
  "json_wf v \<Longrightarrow> (\<And>w. json_wf w \<Longrightarrow> json_wf (f w)) \<Longrightarrow> json_wf (update_path ks f v)"
  by (induction ks f v rule: update_path.induct) (simp_all add: json_wf_update del: json_wf.simps(2))

lemma json_wf_json_remove [simp]: "json_wf v \<Longrightarrow> json_wf (json_remove k v)"
  by (cases v) (simp_all add: json_wf_remove del: json_wf.simps(2))

lemma json_wf_fold_remove [simp]: "json_wf v \<Longrightarrow> json_wf (fold json_remove ks v)"
  by (induction ks arbitrary: v) auto

lemma json_wf_delete_path [simp]: "json_wf v \<Longrightarrow> json_wf (delete_path p v)"
  by (simp add: delete_path_def json_wf_update_path)

lemma json_wf_without_excluded [simp]: "json_wf v \<Longrightarrow> json_wf (without_excluded loc v)"
  unfolding without_excluded_def by (rule fold_invariant [where Q = "\<lambda>_. True" and P = json_wf]) simp_all

text \<open>Deleting a path leaves every path that neither extends nor precedes it.\<close>

lemma json_path_update_other:
  "\<not> prefix ks p \<Longrightarrow> \<not> prefix p ks \<Longrightarrow> json_path (update_path ks f v) p = json_path v p"
proof (induction ks f v arbitrary: p rule: update_path.induct)
  case (2 k ks f ms)
  then show ?case by (cases p) (auto split: option.split)
qed auto

lemma json_path_delete_other:
  assumes "\<not> prefix q p" "\<not> prefix p q"
  shows "json_path (delete_path q v) p = json_path v p"
proof -
  have "q \<noteq> []" using assms(1) by auto
  then have q: "q = butlast q @ [last q]" by simp
  show ?thesis
  proof (cases "prefix (butlast q) p")
    case True
    then obtain r where p: "p = butlast q @ r" by (auto simp: prefix_def)
    then obtain k r' where r: "r = k # r'" "k \<noteq> last q"
      using assms q by (cases r) (metis append_Nil2 prefixI, metis append_Cons append_Nil append_assoc prefixI)
    have "json_path (json_remove (last q) w) r = json_path w r" for w
      using r by (cases w) (auto split: option.split)
    then have "json_path (update_path (butlast q) (json_remove (last q)) v) (butlast q @ r) = json_path v (butlast q @ r)"
      by (subst json_path_update) (simp add: json_path_append)
    then show ?thesis using \<open>q \<noteq> []\<close> by (simp add: delete_path_def p)
  next
    case False
    moreover have "\<not> prefix p (butlast q)" using assms(2) q by (metis prefix_prefix)
    ultimately show ?thesis by (simp add: delete_path_def json_path_update_other)
  qed
qed

lemma json_path_without_excluded:
  assumes "\<And>q. q \<in> set (preimage_exclusion_paths loc) \<Longrightarrow> \<not> prefix q p \<and> \<not> prefix p q"
  shows "json_path (without_excluded loc v) p = json_path v p"
proof -
  have "json_path (fold delete_path qs v) p = json_path v p" if "set qs \<subseteq> set (preimage_exclusion_paths loc)" for qs
    using that
  proof (induction qs arbitrary: v)
    case (Cons q qs)
    then show ?case using assms [of q] by (simp add: json_path_delete_other)
  qed simp
  then show ?thesis by (simp add: without_excluded_def)
qed

text \<open>The two strips are the deletion of the published paths.\<close>

lemma as_object_None: "(\<And>ms. v \<noteq> Obj ms) \<Longrightarrow> as_object v = None"
  by (cases v) auto

lemma signature_path_not_Obj:
  "(\<nexists>ms. json_path object (signature_path loc) = Some (Obj ms)) \<Longrightarrow>
     strip_signature_value object loc = Err MissingEnvelope"
  by (auto simp: strip_signature_value_def signature_path_def as_object_None split: option.splits)

lemma signature_path_Obj:
  "json_path object (signature_path loc) = Some (Obj ms) \<Longrightarrow>
     strip_signature_value object loc = Ok (update_path (signature_path loc) (json_remove (lit ''value'')) object)"
  by (auto simp: strip_signature_value_def signature_path_def split: option.splits)

lemma fold_delete_same_parent:
  "fold delete_path (map (\<lambda>k. ks @ [k]) ls) v = update_path ks (fold json_remove ls) v"
proof (induction ls arbitrary: v)
  case Nil
  have "update_path ks (\<lambda>w. w) v = v"
  proof (induction ks arbitrary: v)
    case (Cons k ks)
    then show ?case by (cases v) (auto simp: obj_update_def intro: map_idI)
  qed simp
  then show ?case by (simp add: id_def)
next
  case (Cons l ls)
  then show ?case by (simp add: delete_path_def update_path_comp comp_def)
qed

lemma without_excluded_strip:
  "without_excluded loc object =
     strip_observability_meta (update_path (signature_path loc) (json_remove (lit ''value'')) object) loc"
proof -
  have "map (\<lambda>key. [container_key loc, lit ''_meta'', key]) ls =
      map (\<lambda>key. [container_key loc, lit ''_meta''] @ [key]) ls" for ls by simp
  then show ?thesis
    unfolding without_excluded_def preimage_exclusion_paths_def strip_observability_meta_def
    by (simp only: fold_simps fold_delete_same_parent) (simp add: delete_path_def signature_path_def)
qed

lemma signing_preimage_without_excluded:
  "signing_preimage object loc =
     (case json_path object (signature_path loc) of
        Some (Obj ms) \<Rightarrow> canonicalize_json_value (without_excluded loc object)
      | _ \<Rightarrow> Err MissingEnvelope)"
proof (cases "\<exists>ms. json_path object (signature_path loc) = Some (Obj ms)")
  case True
  then show ?thesis by (auto simp: signing_preimage_def signature_path_Obj without_excluded_strip)
next
  case False
  then show ?thesis
    by (simp add: signing_preimage_def signature_path_not_Obj split: option.split json.split)
qed

lemma signing_preimage_Ok:
  "signing_preimage object loc = Ok bs \<longleftrightarrow>
     (\<exists>ms. json_path object (signature_path loc) = Some (Obj ms)) \<and>
     canonicalize_json_value (without_excluded loc object) = Ok bs"
  by (auto simp: signing_preimage_without_excluded split: option.split json.split)

lemma signing_preimage_inj:
  assumes "signing_preimage a loc = Ok bs" "signing_preimage b loc = Ok bs" "json_wf a" "json_wf b"
  shows "without_excluded loc a = without_excluded loc b"
  using assms canonicalize_json_value_inj [OF _ _ json_wf_without_excluded json_wf_without_excluded]
  by (simp add: signing_preimage_Ok)

text \<open>Writing the value of the signature does not change what it signs.\<close>

lemma json_remove_insert [simp]: "json_remove k (json_insert k v w) = json_remove k w"
proof -
  have "obj_remove k (obj_insert k v ms) = obj_remove k ms" for ms
    by (induction k v ms rule: obj_insert.induct) (auto simp: obj_remove_def)
  then show ?thesis by (cases w) auto
qed

lemma preimage_insert_signature:
  "signing_preimage (update_path (signature_path loc) (json_insert (lit ''value'') v) object) loc =
     signing_preimage object loc"
proof -
  let ?o = "update_path (signature_path loc) (json_insert (lit ''value'') v) object"
  have "without_excluded loc ?o = without_excluded loc object"
    by (simp add: without_excluded_strip update_path_comp)
  moreover have "json_path ?o (signature_path loc) =
      map_option (json_insert (lit ''value'') v) (json_path object (signature_path loc))"
    using json_path_update [of "signature_path loc" _ object "[]"] by (simp add: map_conv_bind_option comp_def)
  ultimately show ?thesis
    by (simp add: signing_preimage_without_excluded split: option.split json.split)
qed

text \<open>Likewise for a trace key of the container's \<open>_meta\<close>.\<close>

lemma obj_remove_update: "obj_remove k (obj_update k' f ms) = obj_update k' f (obj_remove k ms)"
  by (induction ms) (auto simp: obj_remove_def obj_update_def)

lemma json_remove_update_path: "json_remove k (update_path (k' # ks) f v) = update_path (k' # ks) f (json_remove k v)"
  by (cases v) (simp_all add: obj_remove_update)

lemma fold_remove_update_path:
  "fold json_remove ls (update_path (k' # ks) f v) = update_path (k' # ks) f (fold json_remove ls v)"
  by (induction ls arbitrary: v) (simp_all add: json_remove_update_path)

lemma json_remove_remove: "json_remove k (json_remove l v) = json_remove l (json_remove k v)"
  by (cases v) (simp_all add: obj_remove_remove)

lemma fold_json_remove_commute: "fold json_remove ls (json_remove k v) = json_remove k (fold json_remove ls v)"
proof (induction ls arbitrary: v)
  case (Cons l ls)
  then show ?case by (simp only: fold_simps json_remove_remove [of l k])
qed simp

lemma fold_remove_insert: "k \<in> set ls \<Longrightarrow> fold json_remove ls (json_insert k v w) = fold json_remove ls w"
proof (induction ls arbitrary: w)
  case (Cons l ls)
  show ?case
  proof (cases "k = l")
    case False
    then have "k \<in> set ls" using Cons.prems by simp
    then have "fold json_remove ls (json_remove l u) = json_remove l (fold json_remove ls u)" for u
      by (simp add: fold_json_remove_commute)
    then show ?thesis using Cons.IH [OF \<open>k \<in> set ls\<close>] by simp
  qed simp
qed simp

lemma preimage_insert_trace:
  assumes k: "k \<in> set OBSERVABILITY_META_KEYS"
  shows "signing_preimage (update_path [container_key loc, lit ''_meta''] (json_insert k v) object) loc =
     signing_preimage object loc"
proof -
  let ?ks = "[container_key loc, lit ''_meta'']" and ?ls = "[meta_key loc, lit ''signature'']"
  let ?o = "update_path ?ks (json_insert k v) object"
  have sp: "signature_path loc = ?ks @ ?ls" by (simp add: signature_path_def)
  have "without_excluded loc ?o = without_excluded loc object"
    unfolding without_excluded_strip strip_observability_meta_def sp update_path_append update_path_comp
      fold_remove_update_path fold_remove_insert [OF k] ..
  moreover have "k \<noteq> meta_key loc"
    using k by (cases loc) (auto simp: const_defs lit_def)
  then have "json_path (json_insert k v w) ?ls = json_path w ?ls" for w by (cases w) auto
  then have "json_path ?o (signature_path loc) = json_path object (signature_path loc)"
    unfolding sp by (subst json_path_update) (simp only: json_path_append)
  ultimately show ?thesis by (simp only: signing_preimage_without_excluded)
qed

section \<open>Signing a safe message\<close>

lemma safe_update_path:
  "safe_json v d \<Longrightarrow> (\<And>w e. safe_json w e \<Longrightarrow> safe_json (f w) e) \<Longrightarrow> safe_json (update_path ks f v) d"
  by (induction ks f v arbitrary: d rule: update_path.induct) (auto simp: obj_update_def list_all_iff)

lemma safe_json_remove [simp]: "safe_json v d \<Longrightarrow> safe_json (json_remove k v) d"
  by (cases v) (auto simp: obj_remove_def list_all_iff)

lemma safe_fold_delete: "safe_json v d \<Longrightarrow> safe_json (fold delete_path ps v) d"
  by (induction ps arbitrary: v) (simp_all add: delete_path_def safe_update_path)

lemma safe_json_insert: "safe_json v d \<Longrightarrow> safe_json (json_insert k (Str s) v) d"
  by (cases v) (auto simp: list_all_iff dest!: obj_insert_mem)

lemma json_wf_json_insert: "json_wf v \<Longrightarrow> valid_str k \<Longrightarrow> valid_str s \<Longrightarrow> json_wf (json_insert k (Str s) v)"
  by (cases v) (simp_all add: json_wf_insert del: json_wf.simps(2))

lemma safe_preimage:
  assumes "safe_json object 0" "json_wf object" "json_path object (signature_path loc) = Some (Obj ms)"
  shows "\<exists>pre. signing_preimage object loc = Ok pre"
proof -
  have "safe_json (without_excluded loc object) 0"
    unfolding without_excluded_def by (rule safe_fold_delete [OF assms(1)])
  then show ?thesis
    using safe_canonicalizes [OF _ json_wf_without_excluded [OF assms(2)]] assms(3)
    by (simp add: signing_preimage_without_excluded)
qed

lemma sign_valid:
  "base64_documented x \<Longrightarrow> ed25519_documented x \<Longrightarrow> length (sk_seed sk) = 32 \<Longrightarrow> valid_str (sign x sk pre)"
  by (simp add: sign_def b64url_encode_def base64_documented_def ed25519_documented_def)

text \<open>A safe message with a signature block is signed, printed, read back and verified.\<close>

lemma signed_in_place:
  assumes x: "base64_documented x" "ed25519_documented x" "serde_documented x" "serde_prints x"
    and key: "length (sk_seed sk) = 32"
    and object: "json_wf object" "safe_json object 0" "json_path object (signature_path loc) = Some (Obj ms)"
  shows "\<exists>pre signed bs cs. sign_in_place x sk loc object = Ok signed \<and>
    signed = update_path (signature_path loc) (json_insert (lit ''value'') (Str (sign x sk pre))) object \<and>
    signing_preimage signed loc = Ok pre \<and> to_vec x signed = Some bs \<and> from_slice x bs = Some signed \<and>
    canonicalize bs = Ok cs \<and> (\<forall>e. verify_ed25519_with x pre (sign x sk pre) (public_key x sk) e = Ok ())"
proof -
  from safe_preimage [OF object(2,1,3)] obtain pre where pre: "signing_preimage object loc = Ok pre" by blast
  let ?signed = "update_path (signature_path loc) (json_insert (lit ''value'') (Str (sign x sk pre))) object"
  have "json_wf ?signed" "safe_json ?signed 0"
    using object sign_valid [OF x(1,2) key]
    by (auto intro!: json_wf_update_path json_wf_json_insert safe_update_path safe_json_insert)
  from printed_value_reads [OF x(3,4) this] obtain bs cs where
    "to_vec x ?signed = Some bs" "from_slice x bs = Some ?signed" "canonicalize bs = Ok cs" by blast
  moreover have "sign_in_place x sk loc object = Ok ?signed"
    by (simp add: sign_in_place_def pre signature_path_def)
  moreover have "signing_preimage ?signed loc = Ok pre" by (simp add: preimage_insert_signature pre)
  ultimately show ?thesis using sign_verify [OF x(1,2) key] by blast
qed

section \<open>Properties\<close>

text \<open>
  C11: the published exclusion list is the exclusion that is applied: the preimage is the
  canonical form of the object with exactly the paths of \<open>preimage_exclusion_paths\<close> deleted, and
  it exists only when the envelope has a signature object (\<open>MissingEnvelope\<close> otherwise).
\<close>

theorem preimage_is_published_exclusion:
  "signing_preimage object loc =
     (case json_path object (signature_path loc) of
        Some (Obj ms) \<Rightarrow> canonicalize_json_value (fold delete_path (preimage_exclusion_paths loc) object)
      | _ \<Rightarrow> Err MissingEnvelope)"
  by (simp only: signing_preimage_without_excluded without_excluded_def)

text \<open>
  C10: the preimage protects everything that is not excluded: two well-formed messages with the
  same preimage agree at every path that is not inside, or on the way to, an excluded one.
\<close>

theorem preimage_covers_the_rest:
  assumes "signing_preimage a loc = Ok bs" and "signing_preimage b loc = Ok bs"
    and "json_wf a" and "json_wf b"
    and "\<And>q. q \<in> set (preimage_exclusion_paths loc) \<Longrightarrow> \<not> prefix q p \<and> \<not> prefix p q"
  shows "json_path a p = json_path b p"
  using signing_preimage_inj [OF assms(1-4)] json_path_without_excluded [OF assms(5)] by metis

definition sample_signed_message :: "ustring \<Rightarrow> json" where
  "sample_signed_message sig = Obj [(lit ''id'', Number (NInt 1)),
     (lit ''params'', Obj [(lit ''_meta'', Obj [(REQUEST_META_KEY,
       Obj [(lit ''signature'', Obj [(lit ''value'', Str sig)])])])])]"

theorem preimage_covers_the_rest_witness:
  "json_path (sample_signed_message (lit ''x'')) [lit ''id''] = json_path (sample_signed_message (lit ''y'')) [lit ''id'']"
proof (rule preimage_covers_the_rest [where loc = Request])
  show "signing_preimage (sample_signed_message (lit ''x'')) Request =
      Ok (utf8 (lit ''{\"id\":1,\"params\":{\"_meta\":{\"se.syncom/mcps.request\":{\"signature\":{}}}}}''))"
    "signing_preimage (sample_signed_message (lit ''y'')) Request =
      Ok (utf8 (lit ''{\"id\":1,\"params\":{\"_meta\":{\"se.syncom/mcps.request\":{\"signature\":{}}}}}''))"
    by (simp_all add: sample_signed_message_def signing_preimage_def strip_signature_value_def
        strip_observability_meta_def obj_update_def obj_remove_def const_defs eval_simps)
  show "json_wf (sample_signed_message (lit ''x''))" "json_wf (sample_signed_message (lit ''y''))"
    by (simp_all add: sample_signed_message_def REQUEST_META_KEY_def) (simp_all add: lit_def)
  show "\<not> prefix q [lit ''id''] \<and> \<not> prefix [lit ''id''] q"
    if "q \<in> set (preimage_exclusion_paths Request)" for q
    using that by (auto simp: preimage_exclusion_paths_def)
qed

text \<open>
  what is excluded can change without breaking a signature: writing \<open>signature.value\<close>, or
  any trace-context key of the container's \<open>_meta\<close>, leaves the preimage as it was.
\<close>

theorem preimage_ignores_excluded:
  assumes "k \<in> set OBSERVABILITY_META_KEYS"
  shows "signing_preimage (update_path [container_key loc, lit ''_meta''] (json_insert k v) object) loc =
      signing_preimage object loc \<and>
    signing_preimage (update_path (signature_path loc) (json_insert (lit ''value'') v) object) loc =
      signing_preimage object loc"
  using preimage_insert_trace [OF assms] preimage_insert_signature by blast

theorem preimage_ignores_excluded_witness:
  "signing_preimage (update_path [container_key Response, lit ''_meta''] (json_insert (lit ''baggage'') Null) Null) Response =
      signing_preimage Null Response"
  using preimage_ignores_excluded [of "lit ''baggage''"] by (simp add: OBSERVABILITY_META_KEYS_def)

end
