(* ===== verification/Resolver.thy ===== *)
theory Resolver
  imports Crypto
begin

text \<open>
  \<open>mcps-core/src/resolver.rs\<close>: the trust-resolution outcomes and the in-memory reference
  resolver. The contract of a store of bindings is the locale \<open>trust_store\<close>; the reference
  resolver is shown to meet it, which rests on the injectivity of its length-prefixed key.
\<close>

section \<open>Outcomes\<close>

datatype trust_resolver_error =
    NotFound
  | Revoked
  | MalformedKey
  | ResolverUnavailable ustring

primrec resolver_to_mcps_error :: "trust_resolver_error \<Rightarrow> mcps_error" where
  "resolver_to_mcps_error NotFound = ActorBindingFailed"
| "resolver_to_mcps_error Revoked = ActorBindingFailed"
| "resolver_to_mcps_error MalformedKey = ActorBindingFailed"
| "resolver_to_mcps_error (ResolverUnavailable details) = TrustResolverUnavailable"

text \<open>The \<open>TrustResolver\<close> trait has one operation, a function of the pair it is asked about.\<close>

type_synonym resolve_fn = "ustring \<Rightarrow> ustring \<Rightarrow> trust_resolver_error + verification_key"

section \<open>The in-memory resolver\<close>

datatype binding = ActiveBinding verification_key | RevokedBinding

record in_memory_trust_resolver =
  bindings :: "ustring \<rightharpoonup> binding"

definition resolver_new :: in_memory_trust_resolver where
  "resolver_new = \<lparr>bindings = Map.empty\<rparr>"

definition compose_key :: "ustring \<Rightarrow> ustring \<Rightarrow> ustring" where
  "compose_key signer key_id = prefixed_field signer @ [124] @ prefixed_field key_id"

definition resolver_insert ::
    "ustring \<Rightarrow> ustring \<Rightarrow> verification_key \<Rightarrow> in_memory_trust_resolver \<Rightarrow> in_memory_trust_resolver" where
  "resolver_insert signer key_id key r =
     r\<lparr>bindings := (bindings r)(compose_key signer key_id \<mapsto> ActiveBinding key)\<rparr>"

definition resolver_revoke ::
    "ustring \<Rightarrow> ustring \<Rightarrow> in_memory_trust_resolver \<Rightarrow> in_memory_trust_resolver" where
  "resolver_revoke signer key_id r =
     r\<lparr>bindings := (bindings r)(compose_key signer key_id \<mapsto> RevokedBinding)\<rparr>"

definition resolver_resolve :: "in_memory_trust_resolver \<Rightarrow> resolve_fn" where
  "resolver_resolve r signer key_id =
     (case bindings r (compose_key signer key_id) of
        Some (ActiveBinding key) \<Rightarrow> Ok key
      | Some RevokedBinding \<Rightarrow> Err Revoked
      | None \<Rightarrow> Err NotFound)"

lemma compose_key_inj [simp]:
  "compose_key s k = compose_key s' k' \<longleftrightarrow> s = s' \<and> k = k'"
proof
  assume eq: "compose_key s k = compose_key s' k'"
  then have "s = s'" "[124] @ prefixed_field k = [124] @ prefixed_field k'"
    using prefixed_field_unique [of s "[124] @ prefixed_field k" s' "[124] @ prefixed_field k'"]
    by (auto simp: compose_key_def)
  moreover from this(2) have "k = k'" using prefixed_field_unique [of k "[]" k' "[]"] by simp
  ultimately show "s = s' \<and> k = k'" by simp
qed simp

section \<open>The contract of a binding store\<close>

datatype trust_op = Bind ustring ustring verification_key | Revoke ustring ustring

primrec apply_op ::
    "(ustring \<Rightarrow> ustring \<Rightarrow> verification_key \<Rightarrow> 's \<Rightarrow> 's) \<Rightarrow> (ustring \<Rightarrow> ustring \<Rightarrow> 's \<Rightarrow> 's) \<Rightarrow>
     trust_op \<Rightarrow> 's \<Rightarrow> 's" where
  "apply_op bind revoke (Bind s k key) st = bind s k key st"
| "apply_op bind revoke (Revoke s k) st = revoke s k st"

text \<open>The answer an operation gives for a pair, when it is about that pair.\<close>

primrec op_answer :: "trust_op \<Rightarrow> ustring \<Rightarrow> ustring \<Rightarrow> (trust_resolver_error + verification_key) option" where
  "op_answer (Bind s k key) s' k' = (if s = s' \<and> k = k' then Some (Ok key) else None)"
| "op_answer (Revoke s k) s' k' = (if s = s' \<and> k = k' then Some (Err Revoked) else None)"

text \<open>The reference: the last operation about the pair decides.\<close>

fun last_answer :: "trust_op list \<Rightarrow> ustring \<Rightarrow> ustring \<Rightarrow> trust_resolver_error + verification_key" where
  "last_answer [] s k = Err NotFound"
| "last_answer (op # earlier) s k =
     (case op_answer op s k of Some a \<Rightarrow> a | None \<Rightarrow> last_answer earlier s k)"

locale trust_store =
  fixes empty :: 's
    and bind :: "ustring \<Rightarrow> ustring \<Rightarrow> verification_key \<Rightarrow> 's \<Rightarrow> 's"
    and revoke :: "ustring \<Rightarrow> ustring \<Rightarrow> 's \<Rightarrow> 's"
    and resolve :: "'s \<Rightarrow> resolve_fn"
  assumes resolve_empty: "resolve empty s k = Err NotFound"
    and resolve_bind:
      "resolve (bind s k key st) s' k' = (if s = s' \<and> k = k' then Ok key else resolve st s' k')"
    and resolve_revoke:
      "resolve (revoke s k st) s' k' = (if s = s' \<and> k = k' then Err Revoked else resolve st s' k')"
begin

lemma resolve_apply_op:
  "resolve (apply_op bind revoke op st) s k =
     (case op_answer op s k of Some a \<Rightarrow> a | None \<Rightarrow> resolve st s k)"
  by (cases op) (simp_all add: resolve_bind resolve_revoke)

lemma resolve_history: "resolve (foldr (apply_op bind revoke) ops empty) s k = last_answer ops s k"
  by (induction ops) (simp_all add: resolve_empty resolve_apply_op split: option.split)

end

interpretation mem_store: trust_store resolver_new resolver_insert resolver_revoke resolver_resolve
  by unfold_locales
    (auto simp: resolver_resolve_def resolver_new_def resolver_insert_def resolver_revoke_def)

section \<open>Properties\<close>

text \<open>
  C17: the in-memory resolver answers for a (signer, key id) pair by the last insert or revoke
  about exactly that pair, whatever was done to other pairs, in any order (the newest operation
  is the head of the list): keys never leak between pairs even when the fields contain the
  delimiters, rotation keeps both key ids, and a revoked pair stays refused until a new insert.
\<close>

theorem resolver_answers_by_history:
  "resolver_resolve (foldr (apply_op resolver_insert resolver_revoke) ops resolver_new) s k =
   last_answer ops s k"
  by (rule mem_store.resolve_history)

end
