(* ===== verification/Replay.thy ===== *)
theory Replay
  imports Crypto
begin

text \<open>
  \<open>mcps-core/src/replay.rs\<close>: the replay-cache contract and the in-memory reference cache. The
  locale \<open>replay_store\<close> is what the verification pipeline relies on (a triple admitted as fresh
  is held until its deadline), \<open>exact_replay_store\<close> adds that the verdict is exactly
  membership; the reference cache meets both.
\<close>

section \<open>Verdicts and errors\<close>

datatype replay_durability_class = SingleProcessReference | Durable

datatype replay_decision = Fresh | Replay

datatype replay_cache_error = ReplayUnavailable ustring

primrec replay_to_mcps_error :: "replay_cache_error \<Rightarrow> mcps_error" where
  "replay_to_mcps_error (ReplayUnavailable details) = ReplayCacheUnavailable"

definition is_single_process_reference :: "replay_durability_class \<Rightarrow> bool" where
  "is_single_process_reference c \<longleftrightarrow> c = SingleProcessReference"

type_synonym triple = "ustring \<times> ustring \<times> ustring"
type_synonym replay_verdict = "replay_cache_error + replay_decision"

section \<open>The in-memory cache\<close>

record in_memory_replay_cache =
  max_clock_skew_secs :: int
  seen :: "triple \<rightharpoonup> int"

definition replay_new :: "int \<Rightarrow> in_memory_replay_cache" where
  "replay_new skew = \<lparr>max_clock_skew_secs = skew, seen = Map.empty\<rparr>"

text \<open>\<open>BTreeMap::retain\<close> on the deadlines.\<close>

definition retain_from :: "int \<Rightarrow> ('k \<rightharpoonup> int) \<Rightarrow> ('k \<rightharpoonup> int)" where
  "retain_from now m =
     (\<lambda>k. case m k of Some retain_until \<Rightarrow> if retain_until \<ge> now then Some retain_until else None | None \<Rightarrow> None)"

definition replay_prune :: "int \<Rightarrow> in_memory_replay_cache \<Rightarrow> in_memory_replay_cache" where
  "replay_prune now_unix c = c\<lparr>seen := retain_from now_unix (seen c)\<rparr>"

definition check_and_insert ::
    "in_memory_replay_cache \<Rightarrow> ustring \<Rightarrow> ustring \<Rightarrow> ustring \<Rightarrow> int \<Rightarrow>
     replay_verdict \<times> in_memory_replay_cache" where
  "check_and_insert c signer audience nonce expires_at_unix =
     (let key = (signer, audience, nonce) in
      if seen c key \<noteq> None then (Ok Replay, c)
      else let retain_until = saturating_add expires_at_unix (max_clock_skew_secs c)
           in (Ok Fresh, c\<lparr>seen := (seen c)(key \<mapsto> retain_until)\<rparr>))"

definition in_memory_durability_class :: "in_memory_replay_cache \<Rightarrow> replay_durability_class" where
  "in_memory_durability_class c = SingleProcessReference"

lemma retain_from_Some:
  "retain_from now m k = Some d \<longleftrightarrow> m k = Some d \<and> now \<le> d"
  by (auto simp: retain_from_def split: option.splits)

section \<open>The contract of a replay store\<close>

text \<open>
  A cache is exercised by checks and prunes. \<open>'i\<close> is what the environment answers during a
  check (a clock reading, the outcome of a write); \<open>clock i\<close> is the reading at which the call
  may evict entries, if it evicts at all.
\<close>

datatype 'i cache_event = Check 'i ustring ustring ustring int | Prune int

fun run_event ::
    "('i \<Rightarrow> 'c \<Rightarrow> ustring \<Rightarrow> ustring \<Rightarrow> ustring \<Rightarrow> int \<Rightarrow> replay_verdict \<times> 'c) \<Rightarrow> (int \<Rightarrow> 'c \<Rightarrow> 'c) \<Rightarrow>
     'i cache_event \<Rightarrow> 'c \<Rightarrow> 'c" where
  "run_event check prune (Check i s a n e) c = snd (check i c s a n e)"
| "run_event check prune (Prune now) c = prune now c"

fun event_clock :: "('i \<Rightarrow> int option) \<Rightarrow> 'i cache_event \<Rightarrow> int option" where
  "event_clock clock (Check i s a n e) = clock i"
| "event_clock clock (Prune now) = Some now"

definition not_after :: "('i \<Rightarrow> int option) \<Rightarrow> int \<Rightarrow> 'i cache_event list \<Rightarrow> bool" where
  "not_after clock t evs \<longleftrightarrow>
     list_all (\<lambda>ev. case event_clock clock ev of Some now \<Rightarrow> now \<le> t | None \<Rightarrow> True) evs"

lemma not_after_mono: "not_after clock t evs \<Longrightarrow> t \<le> t' \<Longrightarrow> not_after clock t' evs"
  by (auto simp: not_after_def list_all_iff split: option.splits)

locale replay_store =
  fixes check :: "'i \<Rightarrow> 'c \<Rightarrow> ustring \<Rightarrow> ustring \<Rightarrow> ustring \<Rightarrow> int \<Rightarrow> replay_verdict \<times> 'c"
    and prune :: "int \<Rightarrow> 'c \<Rightarrow> 'c"
    and clock :: "'i \<Rightarrow> int option"
    and skew :: "'c \<Rightarrow> int"
    and deadline :: "'c \<Rightarrow> triple \<rightharpoonup> int"
  assumes fresh_absent: "check i c s a n e = (Ok Fresh, c') \<Longrightarrow> deadline c (s, a, n) = None"
    and fresh_recorded:
      "check i c s a n e = (Ok Fresh, c') \<Longrightarrow> \<exists>d. deadline c' (s, a, n) = Some d \<and> saturating_add e (skew c) \<le> d"
    and check_keeps: "check i c s a n e = (r, c') \<Longrightarrow> deadline c t = Some d \<Longrightarrow>
      (\<And>now. clock i = Some now \<Longrightarrow> now \<le> d) \<Longrightarrow> deadline c' t = Some d"
    and prune_keeps: "deadline c t = Some d \<Longrightarrow> now \<le> d \<Longrightarrow> deadline (prune now c) t = Some d"
begin

lemma event_keeps:
  assumes "deadline c t = Some d" "\<And>now. event_clock clock ev = Some now \<Longrightarrow> now \<le> d"
  shows "deadline (run_event check prune ev c) t = Some d"
proof (cases ev)
  case (Check i s a n e)
  obtain r c' where "check i c s a n e = (r, c')" by (cases "check i c s a n e")
  with Check assms check_keeps show ?thesis by auto
next
  case (Prune now)
  with assms prune_keeps show ?thesis by auto
qed

lemma run_keeps:
  "deadline c t = Some d \<Longrightarrow> not_after clock d evs \<Longrightarrow>
   deadline (fold (run_event check prune) evs c) t = Some d"
proof (induction evs arbitrary: c)
  case (Cons ev evs)
  have "deadline (run_event check prune ev c) t = Some d"
    by (rule event_keeps [OF Cons.prems(1)]) (use Cons.prems(2) in \<open>auto simp: not_after_def\<close>)
  moreover have "not_after clock d evs" using Cons.prems(2) by (simp add: not_after_def)
  ultimately show ?case using Cons.IH by simp
qed simp

lemma no_second_admission:
  assumes "check i c s a n e = (Ok Fresh, c')" "not_after clock (saturating_add e (skew c)) evs"
  shows "fst (check j (fold (run_event check prune) evs c') s a n e') \<noteq> Ok Fresh"
proof
  let ?c = "fold (run_event check prune) evs c'"
  assume "fst (check j ?c s a n e') = Ok Fresh"
  then obtain c'' where "check j ?c s a n e' = (Ok Fresh, c'')" by (cases "check j ?c s a n e'") auto
  then have "deadline ?c (s, a, n) = None" by (rule fresh_absent)
  moreover obtain d where "deadline c' (s, a, n) = Some d" "saturating_add e (skew c) \<le> d"
    using fresh_recorded [OF assms(1)] by blast
  then have "deadline ?c (s, a, n) = Some d" using run_keeps not_after_mono [OF assms(2)] by blast
  ultimately show False by simp
qed

end

text \<open>A store whose verdict is exactly membership, with no failure of its own.\<close>

locale exact_replay_store = replay_store +
  assumes check_exact: "fst (check i c s a n e) = Ok (if deadline c (s, a, n) = None then Fresh else Replay)"
    and check_records: "dom (deadline (snd (check i c s a n e))) = insert (s, a, n) (dom (deadline c))"
begin

text \<open>The verdicts of a list of checks, and the reference: fresh at the first occurrence only.\<close>

lemma check_refines:
  "check i c s a n e = (r, c') \<Longrightarrow>
   r = Ok (if (s, a, n) \<in> dom (deadline c) then Replay else Fresh) \<and>
   dom (deadline c') = insert (s, a, n) (dom (deadline c))"
  using check_exact [of i c s a n e] check_records [of i c s a n e] by auto

end

interpretation mem_replay: exact_replay_store "\<lambda>_ :: unit. check_and_insert" replay_prune "\<lambda>_. None"
  max_clock_skew_secs seen
  by unfold_locales
    (auto simp: check_and_insert_def Let_def replay_prune_def retain_from_Some split: if_split_asm)

section \<open>Sequences of checks\<close>

fun decisions :: "in_memory_replay_cache \<Rightarrow> (triple \<times> int) list \<Rightarrow> replay_verdict list" where
  "decisions c [] = []"
| "decisions c (((s, a, n), e) # reqs) =
     (let (r, c') = check_and_insert c s a n e in r # decisions c' reqs)"

fun first_occurrences :: "triple set \<Rightarrow> triple list \<Rightarrow> replay_verdict list" where
  "first_occurrences S [] = []"
| "first_occurrences S (t # ts) = Ok (if t \<in> S then Replay else Fresh) # first_occurrences (insert t S) ts"

lemma decisions_refine: "decisions c reqs = first_occurrences (dom (seen c)) (map fst reqs)"
proof (induction c reqs rule: decisions.induct)
  case (2 c s a n e reqs)
  obtain r c' where r: "check_and_insert c s a n e = (r, c')" by (cases "check_and_insert c s a n e")
  show ?case using 2 [OF r [symmetric] refl] mem_replay.check_refines [OF r] by (simp add: r)
qed simp

lemma in_memory_not_durable: "is_single_process_reference (in_memory_durability_class c)"
  by (simp add: is_single_process_reference_def in_memory_durability_class_def)

section \<open>Properties\<close>

text \<open>
  a triple admitted once is not admitted again: whatever checks and prunes run in between,
  as long as every prune so far is at or before the admitted request's expiry plus the cache's
  skew, a second check of the same triple, with any expiry, is not fresh.
\<close>

theorem no_replay_before_deadline:
  assumes "check_and_insert c signer audience nonce expires = (Ok Fresh, c')"
    and "not_after (\<lambda>_ :: unit. None) (saturating_add expires (max_clock_skew_secs c)) evs"
  shows "fst (check_and_insert (fold (run_event (\<lambda>_. check_and_insert) replay_prune) evs c')
    signer audience nonce expires') = Ok Replay"
  using mem_replay.no_second_admission [OF assms]
    mem_replay.check_exact [of "fold (run_event (\<lambda>_. check_and_insert) replay_prune) evs c'" signer audience nonce expires']
  by (auto split: if_split_asm)

theorem no_replay_before_deadline_witness:
  "fst (check_and_insert
     (fold (run_event (\<lambda>_. check_and_insert) replay_prune) [Prune 1030, Check () [1] [2] [4] 900]
       (snd (check_and_insert (replay_new 30) [1] [2] [3] 1000))) [1] [2] [3] 1000) = Ok Replay"
proof (rule no_replay_before_deadline)
  show "check_and_insert (replay_new 30) [1] [2] [3] 1000 =
      (Ok Fresh, snd (check_and_insert (replay_new 30) [1] [2] [3] 1000))"
    by (simp add: check_and_insert_def replay_new_def)
  show "not_after (\<lambda>_. None) (saturating_add 1000 (max_clock_skew_secs (replay_new 30)))
      [Prune 1030, Check () [1] [2] [4] 900]"
    by (simp add: not_after_def replay_new_def i64_simps)
qed

text \<open>
  C16: without pruning, the in-memory cache refines the set of triples seen: over any sequence of
  requests, exactly the first occurrence of a triple is fresh and every later one is a replay.
\<close>

theorem replay_refines_seen_set:
  "decisions (replay_new skew) reqs = first_occurrences {} (map fst reqs)"
  by (simp add: decisions_refine replay_new_def)

end
