(* ===== verification/Pipeline.thy ===== *)
theory Pipeline
  imports Timestamps Signing Resolver Replay
begin

text \<open>
  \<open>mcps-core/src/pipeline.rs\<close>: the draft-01 and draft-02 request and response verifiers and the
  version dispatcher. The trust resolver and the replay cache are trait objects in the code; here
  they are the arguments \<open>resolve\<close> and \<open>check\<close>, the latter passing the cache state \<open>c\<close> along. A
  verifier returns its result with the cache state after the call.
\<close>

section \<open>Data\<close>

type_synonym 'c replay_fn = "'c \<Rightarrow> ustring \<Rightarrow> ustring \<Rightarrow> ustring \<Rightarrow> int \<Rightarrow> replay_verdict \<times> 'c"

record verification_config =
  expected_audience :: ustring
  skew_secs :: int

datatype verified_authorization = Draft01Hash ustring | Draft02Binding authorization_binding

fun draft01_hash :: "verified_authorization \<Rightarrow> ustring option" where
  "draft01_hash (Draft01Hash h) = Some h"
| "draft01_hash (Draft02Binding b) = None"

fun draft02_binding :: "verified_authorization \<Rightarrow> authorization_binding option" where
  "draft02_binding (Draft02Binding b) = Some b"
| "draft02_binding (Draft01Hash h) = None"

record verified_request =
  vr_signer :: ustring
  vr_key_id :: ustring
  vr_on_behalf_of :: ustring
  vr_audience :: ustring
  vr_authorization :: verified_authorization
  vr_request_hash :: ustring
  vr_nonce :: ustring
  vr_issued_at :: ustring
  vr_expires_at :: ustring
  vr_canonicalization_id :: "ustring option"

record verified_response =
  vs_server_signer :: ustring
  vs_key_id :: ustring
  vs_request_hash :: ustring

section \<open>Field checks\<close>

definition check_authorization_hash :: "ustring \<Rightarrow> unit mcps_result" where
  "check_authorization_hash h =
     (if h = [] \<or> \<not> prefix SHA256_PREFIX h then Err AuthorizationHashMissing else Ok ())"

definition check_on_behalf_of :: "ustring \<Rightarrow> unit mcps_result" where
  "check_on_behalf_of obo = (if obo = [] then Err OnBehalfOfInvalidFormat else Ok ())"

definition check_signature_block :: "ustring \<Rightarrow> ustring option \<Rightarrow> unit mcps_result" where
  "check_signature_block alg val =
     and_then (ensure_ed25519_alg alg InvalidSignature) (\<lambda>_.
       if val = None then Err InvalidSignature else Ok ())"

section \<open>Shared stages\<close>

text \<open>Steps 1--3 of every verifier: read the JSON value, refuse a batch or a notification, and
  check the safe domain on the original bytes.\<close>

definition open_message :: "ext \<Rightarrow> bytes \<Rightarrow> json mcps_result" where
  "open_message x raw_bytes =
     and_then (ok_or CanonicalizationFailed (from_slice x raw_bytes)) (\<lambda>value.
     and_then (reject_batch value) (\<lambda>_.
     and_then (reject_notification value) (\<lambda>_.
     and_then (canonicalize raw_bytes) (\<lambda>_. Ok value))))"

text \<open>Steps 8--11 of the request verifiers, identical in both profiles, followed by the parse of
  the expiry that step 12 starts with.\<close>

definition authenticate_request ::
    "ext \<Rightarrow> resolve_fn \<Rightarrow> verification_config \<Rightarrow> int \<Rightarrow> json \<Rightarrow>
     ustring \<Rightarrow> ustring \<Rightarrow> ustring \<Rightarrow> ustring \<Rightarrow> signature_block \<Rightarrow> int mcps_result" where
  "authenticate_request x resolve config now_unix value signer audience issued_at expires_at sig =
     (if audience \<noteq> expected_audience config then Err InvalidAudience
      else and_then (check_freshness issued_at expires_at now_unix (skew_secs config)) (\<lambda>_.
      and_then (map_err resolver_to_mcps_error (resolve signer (sb_key_id sig))) (\<lambda>key.
      and_then (request_signing_preimage value) (\<lambda>preimage.
      and_then (ok_or InvalidSignature (sb_value sig)) (\<lambda>signature_value.
      and_then (verify_ed25519 x preimage signature_value key) (\<lambda>_.
        parse_rfc3339_utc expires_at))))))"

text \<open>Step 12: the replay cache is consulted last, and its state is returned whatever it answers.\<close>

definition admit :: "'c replay_fn \<Rightarrow> 'c \<Rightarrow> ustring \<Rightarrow> ustring \<Rightarrow> ustring \<Rightarrow> int \<Rightarrow> unit mcps_result \<times> 'c" where
  "admit check c signer audience nonce expires_at_unix =
     (case check c signer audience nonce expires_at_unix of
        (Inr Fresh, c') \<Rightarrow> (Ok (), c')
      | (Inr Replay, c') \<Rightarrow> (Err ReplayDetected, c')
      | (Inl err, c') \<Rightarrow> (Err (replay_to_mcps_error err), c'))"

section \<open>Draft-01\<close>

definition request_checks ::
    "ext \<Rightarrow> resolve_fn \<Rightarrow> verification_config \<Rightarrow> int \<Rightarrow> bytes \<Rightarrow> (json \<times> request_envelope \<times> int) mcps_result" where
  "request_checks x resolve config now_unix raw_bytes =
     and_then (open_message x raw_bytes) (\<lambda>value.
     and_then (extract_request_envelope value) (\<lambda>env.
     and_then (check_authorization_hash (re_authorization_hash env)) (\<lambda>_.
     and_then (check_on_behalf_of (re_on_behalf_of env)) (\<lambda>_.
     and_then (check_signature_block (sb_alg (re_signature env)) (sb_value (re_signature env))) (\<lambda>_.
     and_then (authenticate_request x resolve config now_unix value (re_signer env) (re_audience env)
         (re_issued_at env) (re_expires_at env) (re_signature env)) (\<lambda>expires_at_unix.
       Ok (value, env, expires_at_unix)))))))"

definition verify_request ::
    "ext \<Rightarrow> resolve_fn \<Rightarrow> 'c replay_fn \<Rightarrow> 'c \<Rightarrow> verification_config \<Rightarrow> int \<Rightarrow> bytes \<Rightarrow>
     verified_request mcps_result \<times> 'c" where
  "verify_request x resolve check c config now_unix raw_bytes =
     (case request_checks x resolve config now_unix raw_bytes of
        Inl e \<Rightarrow> (Err e, c)
      | Inr (value, env, expires_at_unix) \<Rightarrow>
          (case admit check c (re_signer env) (re_audience env) (re_nonce env) expires_at_unix of
             (Inl e, c') \<Rightarrow> (Err e, c')
           | (Inr _, c') \<Rightarrow>
               (and_then (request_hash x value) (\<lambda>h.
                  Ok \<lparr>vr_signer = re_signer env, vr_key_id = sb_key_id (re_signature env),
                    vr_on_behalf_of = re_on_behalf_of env, vr_audience = re_audience env,
                    vr_authorization = Draft01Hash (re_authorization_hash env), vr_request_hash = h,
                    vr_nonce = re_nonce env, vr_issued_at = re_issued_at env,
                    vr_expires_at = re_expires_at env, vr_canonicalization_id = None\<rparr>), c')))"

definition verify_response :: "ext \<Rightarrow> resolve_fn \<Rightarrow> ustring \<Rightarrow> bytes \<Rightarrow> verified_response mcps_result" where
  "verify_response x resolve expected_request_hash raw_bytes =
     and_then (open_message x raw_bytes) (\<lambda>value.
     and_then (extract_response_envelope value) (\<lambda>env.
     and_then (ensure_ed25519_alg (sb_alg (rs_signature env)) ResponseSigInvalid) (\<lambda>_.
     and_then (map_err resolver_to_mcps_error (resolve (rs_server_signer env) (sb_key_id (rs_signature env)))) (\<lambda>key.
     and_then (response_signing_preimage value) (\<lambda>preimage.
     and_then (ok_or ResponseSigInvalid (sb_value (rs_signature env))) (\<lambda>signature_value.
     and_then (verify_ed25519_with x preimage signature_value key ResponseSigInvalid) (\<lambda>_.
       if rs_request_hash env \<noteq> expected_request_hash then Err ResponseHashMismatch
       else Ok \<lparr>vs_server_signer = rs_server_signer env, vs_key_id = sb_key_id (rs_signature env),
         vs_request_hash = rs_request_hash env\<rparr>)))))))"

section \<open>Draft-02\<close>

definition request_checks_draft02 ::
    "ext \<Rightarrow> resolve_fn \<Rightarrow> verification_config \<Rightarrow> int \<Rightarrow> bytes \<Rightarrow>
     (json \<times> draft02_request_envelope \<times> int) mcps_result" where
  "request_checks_draft02 x resolve config now_unix raw_bytes =
     and_then (open_message x raw_bytes) (\<lambda>value.
     and_then (extract_draft02_request_envelope value) (\<lambda>env.
     and_then (check_on_behalf_of (d2_on_behalf_of env)) (\<lambda>_.
     and_then (check_signature_block (sb_alg (d2_signature env)) (sb_value (d2_signature env))) (\<lambda>_.
     and_then (authenticate_request x resolve config now_unix value (d2_signer env) (d2_audience env)
         (d2_issued_at env) (d2_expires_at env) (d2_signature env)) (\<lambda>expires_at_unix.
       Ok (value, env, expires_at_unix))))))"

definition verify_request_draft02 ::
    "ext \<Rightarrow> resolve_fn \<Rightarrow> 'c replay_fn \<Rightarrow> 'c \<Rightarrow> verification_config \<Rightarrow> int \<Rightarrow> bytes \<Rightarrow>
     verified_request mcps_result \<times> 'c" where
  "verify_request_draft02 x resolve check c config now_unix raw_bytes =
     (case request_checks_draft02 x resolve config now_unix raw_bytes of
        Inl e \<Rightarrow> (Err e, c)
      | Inr (value, env, expires_at_unix) \<Rightarrow>
          (case admit check c (d2_signer env) (d2_audience env) (d2_nonce env) expires_at_unix of
             (Inl e, c') \<Rightarrow> (Err e, c')
           | (Inr _, c') \<Rightarrow>
               (and_then (request_hash x value) (\<lambda>h.
                  Ok \<lparr>vr_signer = d2_signer env, vr_key_id = sb_key_id (d2_signature env),
                    vr_on_behalf_of = d2_on_behalf_of env, vr_audience = d2_audience env,
                    vr_authorization = Draft02Binding (d2_authorization_binding env), vr_request_hash = h,
                    vr_nonce = d2_nonce env, vr_issued_at = d2_issued_at env,
                    vr_expires_at = d2_expires_at env,
                    vr_canonicalization_id = Some (d2_canonicalization_id env)\<rparr>), c')))"

definition verify_response_draft02 ::
    "ext \<Rightarrow> resolve_fn \<Rightarrow> ustring \<Rightarrow> ustring \<Rightarrow> bytes \<Rightarrow> verified_response mcps_result" where
  "verify_response_draft02 x resolve expected_request_hash expected_canonicalization_id raw_bytes =
     and_then (open_message x raw_bytes) (\<lambda>value.
     and_then (extract_draft02_response_envelope value) (\<lambda>env.
     and_then (ensure_ed25519_alg (sb_alg (d2r_signature env)) ResponseSigInvalid) (\<lambda>_.
     and_then (map_err resolver_to_mcps_error (resolve (d2r_server_signer env) (sb_key_id (d2r_signature env)))) (\<lambda>key.
     and_then (response_signing_preimage value) (\<lambda>preimage.
     and_then (ok_or ResponseSigInvalid (sb_value (d2r_signature env))) (\<lambda>signature_value.
     and_then (verify_ed25519_with x preimage signature_value key ResponseSigInvalid) (\<lambda>_.
       if d2r_canonicalization_id env \<noteq> expected_canonicalization_id then Err CanonicalizationIdMismatch
       else if d2r_request_hash env \<noteq> expected_request_hash then Err ResponseHashMismatch
       else Ok \<lparr>vs_server_signer = d2r_server_signer env, vs_key_id = sb_key_id (d2r_signature env),
         vs_request_hash = d2r_request_hash env\<rparr>)))))))"

section \<open>Version dispatch\<close>

datatype expected_version_policy = Draft02Only | Draft01AndDraft02

datatype version_policy_error = Unset | Unrecognized ustring

definition policy_from_config :: "ustring option \<Rightarrow> version_policy_error + expected_version_policy" where
  "policy_from_config val =
     (case val of
        None \<Rightarrow> Err Unset
      | Some s \<Rightarrow>
          if s = lit ''draft-02-only'' then Ok Draft02Only
          else if s = lit ''draft-01-and-draft-02'' then Ok Draft01AndDraft02
          else Err (Unrecognized s))"

primrec admits :: "expected_version_policy \<Rightarrow> ustring \<Rightarrow> bool" where
  "admits Draft02Only version \<longleftrightarrow> version = VERSION_DRAFT_02"
| "admits Draft01AndDraft02 version \<longleftrightarrow> version = VERSION_DRAFT_01 \<or> version = VERSION_DRAFT_02"

definition read_request_envelope_version :: "json \<Rightarrow> ustring mcps_result" where
  "read_request_envelope_version value =
     and_then (ok_or MissingEnvelope (json_path value [lit ''params'', lit ''_meta'', REQUEST_META_KEY])) (\<lambda>envelope.
       ok_or UnsupportedVersion (Option.bind (json_get envelope (lit ''version'')) as_str))"

definition select_version :: "ext \<Rightarrow> expected_version_policy \<Rightarrow> bytes \<Rightarrow> ustring mcps_result" where
  "select_version x policy raw_bytes =
     and_then (ok_or CanonicalizationFailed (from_slice x raw_bytes)) (\<lambda>value.
     and_then (reject_batch value) (\<lambda>_.
     and_then (reject_notification value) (\<lambda>_.
     and_then (read_request_envelope_version value) (\<lambda>version.
       if \<not> (version = VERSION_DRAFT_01 \<or> version = VERSION_DRAFT_02) then Err UnsupportedVersion
       else if \<not> admits policy version then Err DowngradeForbidden
       else Ok version))))"

definition verify_request_dispatch ::
    "ext \<Rightarrow> resolve_fn \<Rightarrow> 'c replay_fn \<Rightarrow> 'c \<Rightarrow> verification_config \<Rightarrow> int \<Rightarrow> expected_version_policy \<Rightarrow> bytes \<Rightarrow>
     verified_request mcps_result \<times> 'c" where
  "verify_request_dispatch x resolve check c config now_unix policy raw_bytes =
     (case select_version x policy raw_bytes of
        Inl e \<Rightarrow> (Err e, c)
      | Inr version \<Rightarrow>
          if version = VERSION_DRAFT_01 then verify_request x resolve check c config now_unix raw_bytes
          else verify_request_draft02 x resolve check c config now_unix raw_bytes)"

section \<open>Laws\<close>

text \<open>A formatted timestamp is a string of the Rust type.\<close>

lemma fmt_int_valid: "valid_str (fmt_int w i)"
  using valid_dec by (auto simp: fmt_int_def pad_dec_def valid_str_def is_scalar_def)

lemma rfc3339_valid: "valid_str (unix_to_rfc3339_utc t)"
  using fmt_int_valid unfolding unix_to_rfc3339_utc_def Let_def
  by (auto simp: valid_str_def is_scalar_def split: prod.split)

lemma check_authorization_hash_Ok [result_simps]:
  "check_authorization_hash h = Ok u \<longleftrightarrow> prefix SHA256_PREFIX h"
  by (auto simp: check_authorization_hash_def SHA256_PREFIX_def lit_def)

lemma check_on_behalf_of_Ok [result_simps]: "check_on_behalf_of obo = Ok u \<longleftrightarrow> obo \<noteq> []"
  by (simp add: check_on_behalf_of_def)

lemma check_signature_block_Ok [result_simps]:
  "check_signature_block alg val = Ok u \<longleftrightarrow> alg = SIG_ALG_ED25519 \<and> val \<noteq> None"
  by (auto simp: check_signature_block_def result_simps)

lemma open_message_Ok [result_simps]:
  "open_message x raw = Ok value \<longleftrightarrow>
     from_slice x raw = Some value \<and> \<not> is_array value \<and>
     (\<exists>v. json_get value (lit ''id'') = Some v \<and> v \<noteq> Null) \<and> (\<exists>bs. canonicalize raw = Ok bs)"
  by (auto simp: open_message_def result_simps)

lemma authenticate_request_Ok [result_simps]:
  "authenticate_request x resolve config now value signer audience ia ea sig = Ok e \<longleftrightarrow>
     audience = expected_audience config \<and> check_freshness ia ea now (skew_secs config) = Ok () \<and>
     (\<exists>key pre s. resolve signer (sb_key_id sig) = Ok key \<and> signing_preimage value Request = Ok pre \<and>
        sb_value sig = Some s \<and> verify_ed25519 x pre s key = Ok ()) \<and> parse_rfc3339_utc ea = Ok e"
  by (auto simp: authenticate_request_def request_signing_preimage_def result_simps)

lemma admit_Ok: "admit check c s a n e = (Ok u, c') \<longleftrightarrow> check c s a n e = (Ok Fresh, c')"
  by (auto simp: admit_def split: prod.split sum.split replay_decision.split)

lemma admit_state: "snd (admit check c s a n e) = snd (check c s a n e)"
  by (auto simp: admit_def split: prod.split sum.split replay_decision.split)

lemma request_hash_preimage:
  "signing_preimage value Request = Ok pre \<Longrightarrow> request_hash x value = Ok (sha256_hash_id x pre)"
  by (simp add: request_hash_def request_signing_preimage_def)

text \<open>After the checks the request hash is computed without failing, so that the verdict of the
  replay cache is the verdict of the verifier.\<close>

lemma request_checks_Ok:
  "request_checks x resolve config now raw = Ok (value, env, e) \<longleftrightarrow>
     open_message x raw = Ok value \<and> extract_request_envelope value = Ok env \<and>
     prefix SHA256_PREFIX (re_authorization_hash env) \<and> re_on_behalf_of env \<noteq> [] \<and>
     sb_alg (re_signature env) = SIG_ALG_ED25519 \<and>
     authenticate_request x resolve config now value (re_signer env) (re_audience env)
       (re_issued_at env) (re_expires_at env) (re_signature env) = Ok e"
  unfolding request_checks_def
  by (auto simp: and_then_eq_Inr check_authorization_hash_Ok check_on_behalf_of_Ok check_signature_block_Ok
      authenticate_request_Ok)

lemma request_checks_draft02_Ok:
  "request_checks_draft02 x resolve config now raw = Ok (value, env, e) \<longleftrightarrow>
     open_message x raw = Ok value \<and> extract_draft02_request_envelope value = Ok env \<and>
     d2_on_behalf_of env \<noteq> [] \<and> sb_alg (d2_signature env) = SIG_ALG_ED25519 \<and>
     authenticate_request x resolve config now value (d2_signer env) (d2_audience env)
       (d2_issued_at env) (d2_expires_at env) (d2_signature env) = Ok e"
  unfolding request_checks_draft02_def
  by (auto simp: and_then_eq_Inr check_on_behalf_of_Ok check_signature_block_Ok authenticate_request_Ok)

lemma verify_request_Ok:
  "verify_request x resolve check c config now raw = (Ok vr, c') \<longleftrightarrow>
     (\<exists>value env e h. request_checks x resolve config now raw = Ok (value, env, e) \<and>
        check c (re_signer env) (re_audience env) (re_nonce env) e = (Ok Fresh, c') \<and>
        request_hash x value = Ok h \<and>
        vr = \<lparr>vr_signer = re_signer env, vr_key_id = sb_key_id (re_signature env),
          vr_on_behalf_of = re_on_behalf_of env, vr_audience = re_audience env,
          vr_authorization = Draft01Hash (re_authorization_hash env), vr_request_hash = h,
          vr_nonce = re_nonce env, vr_issued_at = re_issued_at env,
          vr_expires_at = re_expires_at env, vr_canonicalization_id = None\<rparr>)"
  unfolding verify_request_def
  by (auto simp: and_then_eq_Inr admit_def split: sum.splits prod.splits replay_decision.splits)

lemma verify_request_draft02_Ok:
  "verify_request_draft02 x resolve check c config now raw = (Ok vr, c') \<longleftrightarrow>
     (\<exists>value env e h. request_checks_draft02 x resolve config now raw = Ok (value, env, e) \<and>
        check c (d2_signer env) (d2_audience env) (d2_nonce env) e = (Ok Fresh, c') \<and>
        request_hash x value = Ok h \<and>
        vr = \<lparr>vr_signer = d2_signer env, vr_key_id = sb_key_id (d2_signature env),
          vr_on_behalf_of = d2_on_behalf_of env, vr_audience = d2_audience env,
          vr_authorization = Draft02Binding (d2_authorization_binding env), vr_request_hash = h,
          vr_nonce = d2_nonce env, vr_issued_at = d2_issued_at env,
          vr_expires_at = d2_expires_at env, vr_canonicalization_id = Some (d2_canonicalization_id env)\<rparr>)"
  unfolding verify_request_draft02_def
  by (auto simp: and_then_eq_Inr admit_def split: sum.splits prod.splits replay_decision.splits)

text \<open>What both profiles establish: the facts about an accepted request, without its envelope.\<close>

lemma verify_request_facts:
  assumes "verify_request x resolve check c config now raw = (Ok vr, c')"
  shows "vr_audience vr = expected_audience config"
    "check_freshness (vr_issued_at vr) (vr_expires_at vr) now (skew_secs config) = Ok ()"
    "\<exists>e. parse_rfc3339_utc (vr_expires_at vr) = Ok e \<and>
       check c (vr_signer vr) (vr_audience vr) (vr_nonce vr) e = (Ok Fresh, c')"
  using assms unfolding verify_request_Ok request_checks_Ok authenticate_request_Ok by auto

lemma verify_request_draft02_facts:
  assumes "verify_request_draft02 x resolve check c config now raw = (Ok vr, c')"
  shows "vr_audience vr = expected_audience config"
    "check_freshness (vr_issued_at vr) (vr_expires_at vr) now (skew_secs config) = Ok ()"
    "\<exists>e. parse_rfc3339_utc (vr_expires_at vr) = Ok e \<and>
       check c (vr_signer vr) (vr_audience vr) (vr_nonce vr) e = (Ok Fresh, c')"
  using assms unfolding verify_request_draft02_Ok request_checks_draft02_Ok authenticate_request_Ok by auto

text \<open>The version the dispatcher reads is the version of the envelope the profile extracts, when
  the envelope is an object.\<close>

lemma version_of_extracted:
  assumes "extract_request_envelope value = Ok env"
  shows "(\<exists>vs. json_path value [lit ''params'', lit ''_meta'', REQUEST_META_KEY] = Some (Arr vs)) \<or>
    read_request_envelope_version value = Ok (re_version env)"
proof -
  from assms obtain raw where raw: "json_path value [lit ''params'', lit ''_meta'', REQUEST_META_KEY] = Some raw"
    and de: "de_request_envelope raw = Ok env" unfolding extract_request_envelope_Ok by blast
  show ?thesis
  proof (cases raw)
    case (Obj ms)
    have "obj_get (lit ''version'') ms = Some (Str (re_version env))"
      using de by (auto simp: Obj de_request_envelope_def result_simps)
    then show ?thesis unfolding read_request_envelope_version_def raw by (simp add: Obj)
  qed (use de raw in \<open>simp_all add: de_request_envelope_def\<close>)
qed

lemma verify_request_dispatch_Ok:
  "verify_request_dispatch x resolve check c config now policy raw = (Ok vr, c') \<longleftrightarrow>
     (select_version x policy raw = Ok VERSION_DRAFT_01 \<and>
        verify_request x resolve check c config now raw = (Ok vr, c')) \<or>
     (select_version x policy raw = Ok VERSION_DRAFT_02 \<and>
        verify_request_draft02 x resolve check c config now raw = (Ok vr, c'))"
proof -
  have "VERSION_DRAFT_01 \<noteq> VERSION_DRAFT_02" by (simp add: const_defs)
  moreover have "v = VERSION_DRAFT_01 \<or> v = VERSION_DRAFT_02" if "select_version x policy raw = Ok v" for v
    using that by (auto simp: select_version_def result_simps split: if_split_asm)
  ultimately show ?thesis
    unfolding verify_request_dispatch_def by (auto split: sum.split)
qed

lemma dispatch_facts:
  assumes "verify_request_dispatch x resolve check c config now policy raw = (Ok vr, c')"
  shows "vr_audience vr = expected_audience config"
    "check_freshness (vr_issued_at vr) (vr_expires_at vr) now (skew_secs config) = Ok ()"
    "\<exists>e. parse_rfc3339_utc (vr_expires_at vr) = Ok e \<and>
       check c (vr_signer vr) (vr_audience vr) (vr_nonce vr) e = (Ok Fresh, c')"
  using assms unfolding verify_request_dispatch_Ok
  by (auto dest: verify_request_facts verify_request_draft02_facts)

text \<open>What is verified about a message depends on its bytes only.\<close>

lemma verify_request_bytes:
  "verify_request x r1 k1 c1 f1 t1 raw = (Ok vr, c1') \<Longrightarrow>
   verify_request x r2 k2 c2 f2 t2 raw = (Ok vr', c2') \<Longrightarrow> vr = vr'"
  unfolding verify_request_Ok request_checks_Ok by auto

lemma verify_request_draft02_bytes:
  "verify_request_draft02 x r1 k1 c1 f1 t1 raw = (Ok vr, c1') \<Longrightarrow>
   verify_request_draft02 x r2 k2 c2 f2 t2 raw = (Ok vr', c2') \<Longrightarrow> vr = vr'"
  unfolding verify_request_draft02_Ok request_checks_draft02_Ok by auto

lemma select_version_bytes: "select_version x p raw = Ok v \<Longrightarrow> select_version x q raw = Ok w \<Longrightarrow> v = w"
  by (auto simp: select_version_def result_simps split: if_split_asm)

lemma dispatch_bytes:
  assumes "verify_request_dispatch x r1 k1 c1 f1 t1 p1 raw = (Ok vr, c1')"
    "verify_request_dispatch x r2 k2 c2 f2 t2 p2 raw = (Ok vr', c2')"
  shows "vr = vr'"
proof -
  have "VERSION_DRAFT_01 \<noteq> VERSION_DRAFT_02" by (simp add: const_defs)
  then show ?thesis
    using assms select_version_bytes [of x p1 raw _ p2] unfolding verify_request_dispatch_Ok
    by (metis verify_request_bytes verify_request_draft02_bytes)
qed

lemma check_freshness_upper:
  "check_freshness ia ea now skew = Ok () \<Longrightarrow> parse_rfc3339_utc ea = Ok e \<Longrightarrow> now \<le> saturating_add e skew"
  by (auto simp: check_freshness_def Let_def result_simps split: if_split_asm)

section \<open>A verifier on a replay store\<close>

text \<open>
  What the contract of a replay store gives the verifier: the same bytes are accepted at most
  once, provided the store was pruned only at times up to the second verification and its skew
  covers that of the verifier. A request old enough to have been forgotten is already stale.
\<close>

context replay_store
begin

lemma bytes_accepted_once:
  assumes first: "verify_request_dispatch x r (check i) c config now policy raw = (Ok vr, c')"
    and skew: "skew_secs config' \<le> skew c" and evs: "not_after clock now' evs"
  shows "fst (verify_request_dispatch x r' (check j) (fold (run_event check prune) evs c') config' now' policy' raw) \<noteq> Ok vr'"
proof
  let ?c = "fold (run_event check prune) evs c'"
  assume "fst (verify_request_dispatch x r' (check j) ?c config' now' policy' raw) = Ok vr'"
  then obtain c'' where second: "verify_request_dispatch x r' (check j) ?c config' now' policy' raw = (Ok vr', c'')"
    by (metis prod.collapse)
  from dispatch_bytes [OF first second] have vr: "vr' = vr" by simp
  from dispatch_facts(3) [OF first] obtain e where e: "parse_rfc3339_utc (vr_expires_at vr) = Ok e"
    and one: "check i c (vr_signer vr) (vr_audience vr) (vr_nonce vr) e = (Ok Fresh, c')" by blast
  from dispatch_facts(3) [OF second] e have
    two: "check j ?c (vr_signer vr) (vr_audience vr) (vr_nonce vr) e = (Ok Fresh, c'')" by (simp add: vr)
  have "now' \<le> saturating_add e (skew_secs config')"
    using check_freshness_upper dispatch_facts(2) [OF second] e by (simp add: vr)
  then have "now' \<le> saturating_add e (skew c)"
    using saturating_add_mono [OF skew, of e] by simp
  then have "not_after clock (saturating_add e (skew c)) evs"
    using evs by (auto simp: not_after_def list_all_iff split: option.splits)
  from no_second_admission [OF one this, of j e] show False by (simp add: two)
qed

end

section \<open>Profiles\<close>

lemma select_version_Ok:
  "select_version x policy raw = Ok version \<longleftrightarrow>
     (\<exists>value v. from_slice x raw = Some value \<and> \<not> is_array value \<and>
        json_get value (lit ''id'') = Some v \<and> v \<noteq> Null \<and>
        read_request_envelope_version value = Ok version \<and>
        (version = VERSION_DRAFT_01 \<or> version = VERSION_DRAFT_02) \<and> admits policy version)"
proof -
  have iff: "(if \<not> (v = a \<or> v = b) then Err UnsupportedVersion else if \<not> admits policy v then Err DowngradeForbidden
      else Ok v) = Ok w \<longleftrightarrow> w = v \<and> (v = a \<or> v = b) \<and> admits policy v" for v w a b by auto
  show ?thesis
    unfolding select_version_def and_then_eq_Inr ok_or_eq_Inr reject_batch_Ok reject_notification_Ok iff
    by (cases "from_slice x raw") auto
qed

text \<open>No message is accepted by both profiles.\<close>

lemma draft02_version_read:
  assumes "extract_draft02_request_envelope value = Ok env"
  shows "read_request_envelope_version value = Ok VERSION_DRAFT_02"
proof -
  from assms obtain raw where raw: "json_path value [lit ''params'', lit ''_meta'', REQUEST_META_KEY] = Some raw"
    and de: "de_draft02_request_envelope raw = Ok env" and v: "d2_version env = VERSION_DRAFT_02"
    unfolding extract_draft02_request_envelope_Ok by blast
  from de_draft02_object [OF de] obtain ms where ms: "raw = Obj ms" by blast
  show ?thesis
    using de_draft02_fields(1) [OF de [unfolded ms]] v
    unfolding read_request_envelope_version_def raw by (simp add: ms)
qed

lemma profiles_disjoint:
  assumes "verify_request x r1 k1 c1 f1 t1 raw = (Ok vr, c1')"
  shows "verify_request_draft02 x r2 k2 c2 f2 t2 raw \<noteq> (Ok vr', c2')"
proof
  assume "verify_request_draft02 x r2 k2 c2 f2 t2 raw = (Ok vr', c2')"
  with assms obtain msg env env2 where e: "extract_request_envelope msg = Ok env"
    "extract_draft02_request_envelope msg = Ok env2"
    unfolding verify_request_Ok verify_request_draft02_Ok request_checks_Ok request_checks_draft02_Ok open_message_Ok
    by auto
  have "VERSION_DRAFT_01 \<noteq> VERSION_DRAFT_02" by (simp add: const_defs)
  moreover have "re_version env = VERSION_DRAFT_01" using e(1) unfolding extract_request_envelope_Ok by blast
  moreover have "\<nexists>vs. json_path msg [lit ''params'', lit ''_meta'', REQUEST_META_KEY] = Some (Arr vs)"
    using e(2) de_draft02_object unfolding extract_draft02_request_envelope_Ok by fastforce
  ultimately show False using version_of_extracted [OF e(1)] draft02_version_read [OF e(2)] by auto
qed

lemma verify_request_draft02_authorization:
  assumes "verify_request_draft02 x resolve check c config now raw = (Ok vr, c')"
  shows "\<exists>b. vr_authorization vr = Draft02Binding b \<and> vr_canonicalization_id vr = Some CANONICALIZATION_ID_INT53_V1"
  using assms
  unfolding verify_request_draft02_Ok request_checks_draft02_Ok extract_draft02_request_envelope_Ok by auto

lemma verify_request_authorization:
  assumes "verify_request x resolve check c config now raw = (Ok vr, c')"
  shows "\<exists>h. vr_authorization vr = Draft01Hash h \<and> vr_canonicalization_id vr = None"
  using assms unfolding verify_request_Ok by auto

text \<open>A verifier that got past its checks has an authentic message in hand.\<close>

definition authentic :: "ext \<Rightarrow> resolve_fn \<Rightarrow> verification_config \<Rightarrow> int \<Rightarrow> bytes \<Rightarrow> ustring \<Rightarrow> ustring \<Rightarrow> bool" where
  "authentic x resolve config now raw signer key_id \<longleftrightarrow>
     (\<exists>value key pre sig ia ea. from_slice x raw = Some value \<and> (\<exists>bs. canonicalize raw = Ok bs) \<and>
        check_freshness ia ea now (skew_secs config) = Ok () \<and> resolve signer key_id = Ok key \<and>
        signing_preimage value Request = Ok pre \<and> verify_ed25519 x pre sig key = Ok ())"

lemma authenticate_authentic:
  "open_message x raw = Ok value \<Longrightarrow>
   authenticate_request x resolve config now value signer audience ia ea sig = Ok e \<Longrightarrow>
   authentic x resolve config now raw signer (sb_key_id sig)"
  unfolding authentic_def authenticate_request_Ok open_message_Ok by blast

lemma admit_steps:
  "snd (case admit check c s a n e of (Inl er, c') \<Rightarrow> (Err er, c') | (Inr u, c') \<Rightarrow> (r u, c')) = snd (check c s a n e)"
  using admit_state [of check c s a n e] by (auto split: prod.split sum.split)

lemma verify_request_state:
  "snd (verify_request x resolve check c config now raw) = c \<or>
   (\<exists>signer key_id nonce e. authentic x resolve config now raw signer key_id \<and>
      snd (verify_request x resolve check c config now raw) =
        snd (check c signer (expected_audience config) nonce e))"
proof (cases "request_checks x resolve config now raw")
  case (Inr t)
  obtain msg env e where t: "t = (msg, env, e)" by (cases t)
  have r: "open_message x raw = Ok msg"
    "authenticate_request x resolve config now msg (re_signer env) (re_audience env)
       (re_issued_at env) (re_expires_at env) (re_signature env) = Ok e"
    using Inr unfolding t request_checks_Ok by simp_all
  have "snd (verify_request x resolve check c config now raw) =
      snd (check c (re_signer env) (expected_audience config) (re_nonce env) e)"
    using r(2) unfolding authenticate_request_Ok by (simp add: verify_request_def Inr t admit_steps)
  then show ?thesis using authenticate_authentic [OF r] by blast
qed (simp add: verify_request_def)

lemma verify_request_draft02_state:
  "snd (verify_request_draft02 x resolve check c config now raw) = c \<or>
   (\<exists>signer key_id nonce e. authentic x resolve config now raw signer key_id \<and>
      snd (verify_request_draft02 x resolve check c config now raw) =
        snd (check c signer (expected_audience config) nonce e))"
proof (cases "request_checks_draft02 x resolve config now raw")
  case (Inr t)
  obtain msg env e where t: "t = (msg, env, e)" by (cases t)
  have r: "open_message x raw = Ok msg"
    "authenticate_request x resolve config now msg (d2_signer env) (d2_audience env)
       (d2_issued_at env) (d2_expires_at env) (d2_signature env) = Ok e"
    using Inr unfolding t request_checks_draft02_Ok by simp_all
  have "snd (verify_request_draft02 x resolve check c config now raw) =
      snd (check c (d2_signer env) (expected_audience config) (d2_nonce env) e)"
    using r(2) unfolding authenticate_request_Ok by (simp add: verify_request_draft02_def Inr t admit_steps)
  then show ?thesis using authenticate_authentic [OF r] by blast
qed (simp add: verify_request_draft02_def)

section \<open>Properties\<close>

text \<open>
  C6: the draft-01 verifier accepts exactly the authentic requests: it returns a verdict iff the
  bytes read as a single call in the safe domain, the envelope is a draft-01 one with an
  authorization hash, a principal and an Ed25519 signature, the audience is ours, the window
  contains now, the signer's key resolves, the signature verifies over the preimage and the
  replay cache calls the nonce fresh; and the verdict repeats the signed fields.
\<close>

theorem verify_request_accepts_exactly:
  "verify_request x resolve check c config now raw = (Ok vr, c') \<longleftrightarrow>
     (\<exists>value v bs env key pre sig e.
        from_slice x raw = Some value \<and> \<not> is_array value \<and> json_get value (lit ''id'') = Some v \<and> v \<noteq> Null \<and>
        canonicalize raw = Ok bs \<and> extract_request_envelope value = Ok env \<and>
        re_version env = VERSION_DRAFT_01 \<and> prefix SHA256_PREFIX (re_authorization_hash env) \<and>
        re_on_behalf_of env \<noteq> [] \<and> sb_alg (re_signature env) = SIG_ALG_ED25519 \<and>
        re_audience env = expected_audience config \<and>
        check_freshness (re_issued_at env) (re_expires_at env) now (skew_secs config) = Ok () \<and>
        resolve (re_signer env) (sb_key_id (re_signature env)) = Ok key \<and>
        signing_preimage value Request = Ok pre \<and> sb_value (re_signature env) = Some sig \<and>
        verify_ed25519 x pre sig key = Ok () \<and> parse_rfc3339_utc (re_expires_at env) = Ok e \<and>
        check c (re_signer env) (re_audience env) (re_nonce env) e = (Ok Fresh, c') \<and>
        vr = \<lparr>vr_signer = re_signer env, vr_key_id = sb_key_id (re_signature env),
          vr_on_behalf_of = re_on_behalf_of env, vr_audience = re_audience env,
          vr_authorization = Draft01Hash (re_authorization_hash env), vr_request_hash = sha256_hash_id x pre,
          vr_nonce = re_nonce env, vr_issued_at = re_issued_at env,
          vr_expires_at = re_expires_at env, vr_canonicalization_id = None\<rparr>)" (is "?V \<longleftrightarrow> ?A")
proof
  assume ?V then show ?A
    unfolding verify_request_Ok request_checks_Ok authenticate_request_Ok open_message_Ok
    using request_hash_preimage extract_request_envelope_Ok by fastforce
next
  assume ?A then show ?V
    unfolding verify_request_Ok request_checks_Ok authenticate_request_Ok open_message_Ok
    using request_hash_preimage by blast
qed

text \<open>
  C9: an accepted response is signed and bound to the request: the response verifier returns a
  verdict iff the bytes read as a single message in the safe domain whose envelope carries an
  Ed25519 signature of the resolved server key over the response preimage, and the request hash
  it names is the expected one. A validly signed answer to another request is refused.
\<close>

theorem verify_response_accepts_exactly:
  "verify_response x resolve expected raw = Ok vs \<longleftrightarrow>
     (\<exists>value v bs env key pre sig.
        from_slice x raw = Some value \<and> \<not> is_array value \<and> json_get value (lit ''id'') = Some v \<and> v \<noteq> Null \<and>
        canonicalize raw = Ok bs \<and> extract_response_envelope value = Ok env \<and>
        sb_alg (rs_signature env) = SIG_ALG_ED25519 \<and>
        resolve (rs_server_signer env) (sb_key_id (rs_signature env)) = Ok key \<and>
        signing_preimage value Response = Ok pre \<and> sb_value (rs_signature env) = Some sig \<and>
        verify_ed25519_with x pre sig key ResponseSigInvalid = Ok () \<and> rs_request_hash env = expected \<and>
        vs = \<lparr>vs_server_signer = rs_server_signer env, vs_key_id = sb_key_id (rs_signature env),
          vs_request_hash = expected\<rparr>)" (is "?V \<longleftrightarrow> ?A")
proof
  assume ?V then show ?A
    unfolding verify_response_def response_signing_preimage_def
    by (auto simp: and_then_eq_Inr open_message_Ok ensure_ed25519_alg_Ok map_err_eq_Inr ok_or_eq_Inr split: if_split_asm)
next
  assume ?A
  then obtain msg env key pre sig where "open_message x raw = Ok msg" and a: "extract_response_envelope msg = Ok env"
    "sb_alg (rs_signature env) = SIG_ALG_ED25519" "resolve (rs_server_signer env) (sb_key_id (rs_signature env)) = Ok key"
    "signing_preimage msg Response = Ok pre" "sb_value (rs_signature env) = Some sig"
    "verify_ed25519_with x pre sig key ResponseSigInvalid = Ok ()" "rs_request_hash env = expected"
    "vs = \<lparr>vs_server_signer = rs_server_signer env, vs_key_id = sb_key_id (rs_signature env), vs_request_hash = expected\<rparr>"
    unfolding open_message_Ok by blast
  then show ?V by (simp add: verify_response_def response_signing_preimage_def ensure_ed25519_alg_def)
qed




end
