(* ===== verification/Unwrap_Wire.thy ===== *)
theory Unwrap_Wire
  imports Crypto
begin

text \<open>
  \<open>mcps-core/src/unwrap.rs\<close>, the recovery of the original result from a verified response, and
  \<open>mcps-core/src/wire.rs\<close>, the unsigned JSON-RPC error object.
\<close>

section \<open>Unwrapping a verified result\<close>

definition META_FIELD :: ustring where
  "META_FIELD = lit ''_meta''"

datatype unwrapped_result = ObjectResult json | ScalarResult json | InnerError json

fun is_inner_error :: "unwrapped_result \<Rightarrow> bool" where
  "is_inner_error (InnerError v) \<longleftrightarrow> True"
| "is_inner_error _ \<longleftrightarrow> False"

fun into_value :: "unwrapped_result \<Rightarrow> json" where
  "into_value (ObjectResult v) = v"
| "into_value (ScalarResult v) = v"
| "into_value (InnerError v) = v"

definition unwrap_verified_result :: "json \<Rightarrow> unwrapped_result mcps_result" where
  "unwrap_verified_result result_value =
     and_then (ok_or CanonicalizationFailed (as_object result_value)) (\<lambda>object.
       let payload = filter (\<lambda>(key, val). key \<noteq> META_FIELD) object in
       if length payload = 1 then
         (case obj_get RESPONSE_WRAP_VALUE_KEY payload of
            Some val \<Rightarrow> Ok (ScalarResult val)
          | None \<Rightarrow>
              (case obj_get RESPONSE_WRAP_INNER_ERROR_KEY payload of
                 Some inner_error \<Rightarrow> Ok (InnerError inner_error)
               | None \<Rightarrow> Ok (ObjectResult (Obj payload))))
       else Ok (ObjectResult (Obj payload)))"

section \<open>The error object\<close>

definition MCPS_JSON_RPC_ERROR_CODE :: int where
  "MCPS_JSON_RPC_ERROR_CODE = -32003"

definition error_object :: "mcps_error \<Rightarrow> json \<Rightarrow> json" where
  "error_object error rid =
     (let code = wire_code error in
      json_object [(lit ''jsonrpc'', Str (lit ''2.0'')), (lit ''id'', rid),
        (lit ''error'', json_object [(lit ''code'', Number (NInt MCPS_JSON_RPC_ERROR_CODE)),
          (lit ''message'', Str code),
          (lit ''data'', json_object [(lit ''mcps_error'', Str code), (lit ''policy'', Str (lit ''core'')),
            (lit ''retryable'', Bool False), (lit ''details'', Str code)])])])"

definition json_rpc_error_object :: "ext \<Rightarrow> mcps_error \<Rightarrow> json \<Rightarrow> bytes" where
  "json_rpc_error_object x error rid =
     (case to_vec x (error_object error rid) of
        Some bs \<Rightarrow> bs
      | None \<Rightarrow> utf8 (lit ''{\"jsonrpc\":\"2.0\",\"id\":null,\"error\":{\"code\":-32603}}''))"

section \<open>Laws\<close>

text \<open>The outcome by the payload, the result without its \<open>_meta\<close>.\<close>

lemma unwrap_payload:
  "unwrap_verified_result result =
     (case result of
        Obj ms \<Rightarrow>
          (case obj_remove (lit ''_meta'') ms of
             [(k, v)] \<Rightarrow> if k = lit ''value'' then Ok (ScalarResult v)
                         else if k = lit ''inner_error'' then Ok (InnerError v) else Ok (ObjectResult (Obj [(k, v)]))
           | payload \<Rightarrow> Ok (ObjectResult (Obj payload)))
      | _ \<Rightarrow> Err CanonicalizationFailed)"
proof (cases result)
  case (Obj ms)
  define payload where "payload = obj_remove (lit ''_meta'') ms"
  have "filter (\<lambda>(key, val). key \<noteq> META_FIELD) ms = payload"
    by (simp add: obj_remove_def META_FIELD_def payload_def)
  then have u: "unwrap_verified_result result =
      (if length payload = 1 then
         (case obj_get (lit ''value'') payload of
            Some val \<Rightarrow> Ok (ScalarResult val)
          | None \<Rightarrow>
              (case obj_get (lit ''inner_error'') payload of
                 Some inner_error \<Rightarrow> Ok (InnerError inner_error)
               | None \<Rightarrow> Ok (ObjectResult (Obj payload))))
       else Ok (ObjectResult (Obj payload)))"
    by (simp only: Obj unwrap_verified_result_def Let_def as_object.simps ok_or.simps and_then.simps
        RESPONSE_WRAP_VALUE_KEY_def RESPONSE_WRAP_INNER_ERROR_KEY_def)
  show ?thesis
    unfolding u by (simp add: Obj flip: payload_def split: list.split)
qed (simp_all add: unwrap_verified_result_def)

lemma error_object_members:
  "error_object e rid =
     Obj [(lit ''error'', Obj [(lit ''code'', Number (NInt (-32003))),
       (lit ''data'', Obj [(lit ''details'', Str (wire_code e)), (lit ''mcps_error'', Str (wire_code e)),
          (lit ''policy'', Str (lit ''core'')), (lit ''retryable'', Bool False)]),
       (lit ''message'', Str (wire_code e))]), (lit ''id'', rid), (lit ''jsonrpc'', Str (lit ''2.0''))]"
  by (simp add: error_object_def json_object_def MCPS_JSON_RPC_ERROR_CODE_def Let_def lit_def)

lemma wire_code_valid: "valid_str (wire_code e)"
  by (cases e) simp_all

section \<open>Properties\<close>

text \<open>
  an error object says which error it is: it is read back from its bytes as a JSON-RPC
  object with the id it was made for, no result, and the frozen token of the error both as the
  message and under \<open>data.mcps_error\<close>.
\<close>

theorem error_object_names_error:
  assumes "serde_documented x" and "serde_prints x" and "json_wf rid" and "safe_json rid 1"
  shows "\<exists>value. from_slice x (json_rpc_error_object x e rid) = Some value \<and>
    json_path value [lit ''id''] = Some rid \<and> json_path value [lit ''result''] = None \<and>
    json_path value [lit ''error'', lit ''message''] = Some (Str (wire_code e)) \<and>
    json_path value [lit ''error'', lit ''data'', lit ''mcps_error''] = Some (Str (wire_code e))"
proof -
  have "json_wf (error_object e rid)" using assms(3) wire_code_valid [of e]
    by (simp add: error_object_members) (simp add: lit_def)
  moreover have "safe_json (error_object e rid) 0" using assms(4)
    by (simp add: error_object_members MAX_PARSE_DEPTH_def MAX_SAFE_INTEGER_def)
  ultimately obtain bs where "to_vec x (error_object e rid) = Some bs" "from_slice x bs = Some (error_object e rid)"
    using printed_value_reads [OF assms(1,2)] by blast
  then show ?thesis by (simp add: json_rpc_error_object_def error_object_members)
qed

theorem error_object_names_error_witness:
  "\<exists>value. from_slice sample_ext (json_rpc_error_object sample_ext ReplayDetected (Number (NInt 7))) = Some value \<and>
    json_path value [lit ''id''] = Some (Number (NInt 7))"
  using error_object_names_error [OF sample_ext_documented(4) sample_ext_prints, of "Number (NInt 7)" ReplayDetected]
  by (auto simp: MAX_SAFE_INTEGER_def)

end
