(* ===== verification/Host.thy ===== *)
theory Host
  imports Pipeline Unwrap_Wire "HOL-Library.AList"
begin

text \<open>
  The crate \<open>mcps-host\<close>: the signing ambassador (\<open>signer.rs\<close>) and the stateful session
  (\<open>session.rs\<close>, \<open>pending.rs\<close>, \<open>nonce.rs\<close>, \<open>verified_result.rs\<close>). The injected clock and nonce
  source are read once per signed request; their readings are arguments of the operation. The
  pending map is an association list with distinct keys.
\<close>

section \<open>The signer\<close>

record host_signer =
  hs_signing_key :: signing_key
  hs_signer :: ustring
  hs_key_id :: ustring

definition host_envelope ::
    "host_signer \<Rightarrow> ustring \<Rightarrow> ustring \<Rightarrow> ustring \<Rightarrow> ustring \<Rightarrow> ustring \<Rightarrow> ustring \<Rightarrow> json" where
  "host_envelope hs on_behalf_of audience authorization_hash nonce issued_at expires_at =
     json_object [(lit ''version'', Str VERSION_DRAFT_01), (lit ''signer'', Str (hs_signer hs)),
       (lit ''on_behalf_of'', Str on_behalf_of), (lit ''audience'', Str audience),
       (lit ''authorization_hash'', Str authorization_hash), (lit ''nonce'', Str nonce),
       (lit ''issued_at'', Str issued_at), (lit ''expires_at'', Str expires_at),
       (lit ''signature'', json_object [(lit ''alg'', Str SIG_ALG_ED25519), (lit ''key_id'', Str (hs_key_id hs))])]"

text \<open>The envelope goes under \<open>_meta\<close>, over whatever the caller put there.\<close>

definition merge_meta :: "members \<Rightarrow> ustring \<Rightarrow> json \<Rightarrow> members" where
  "merge_meta params key envelope =
     (let meta = (case obj_get (lit ''_meta'') params of Some (Obj m) \<Rightarrow> m | _ \<Rightarrow> []) in
      obj_insert (lit ''_meta'') (Obj (obj_insert key envelope meta)) (obj_remove (lit ''_meta'') params))"

definition request_object :: "json \<Rightarrow> ustring \<Rightarrow> members \<Rightarrow> json" where
  "request_object rid method params =
     json_object [(lit ''id'', rid), (lit ''jsonrpc'', Str (lit ''2.0'')), (lit ''method'', Str method),
       (lit ''params'', Obj params)]"

definition sign_request ::
    "ext \<Rightarrow> host_signer \<Rightarrow> json \<Rightarrow> ustring \<Rightarrow> members \<Rightarrow> ustring \<Rightarrow> ustring \<Rightarrow> ustring \<Rightarrow> ustring \<Rightarrow>
     ustring \<Rightarrow> ustring \<Rightarrow> bytes mcps_result" where
  "sign_request x hs rid method params on_behalf_of audience authorization_hash nonce issued_at expires_at =
     (let envelope = host_envelope hs on_behalf_of audience authorization_hash nonce issued_at expires_at;
          request = request_object rid method (merge_meta params REQUEST_META_KEY envelope) in
      and_then (sign_in_place x (hs_signing_key hs) Request request) (\<lambda>signed.
        ok_or CanonicalizationFailed (to_vec x signed)))"

definition tool_call_params :: "ustring \<Rightarrow> json \<Rightarrow> members" where
  "tool_call_params tool_name arguments =
     obj_insert (lit ''arguments'') arguments (obj_insert (lit ''name'') (Str tool_name) [])"

definition sign_tool_call ::
    "ext \<Rightarrow> host_signer \<Rightarrow> json \<Rightarrow> ustring \<Rightarrow> json \<Rightarrow> ustring \<Rightarrow> ustring \<Rightarrow> ustring \<Rightarrow> ustring \<Rightarrow>
     ustring \<Rightarrow> ustring \<Rightarrow> bytes mcps_result" where
  "sign_tool_call x hs rid tool_name arguments on_behalf_of audience authorization_hash nonce issued_at expires_at =
     sign_request x hs rid (lit ''tools/call'') (tool_call_params tool_name arguments)
       on_behalf_of audience authorization_hash nonce issued_at expires_at"

section \<open>The session\<close>

record pending_request =
  pr_request_hash :: ustring
  pr_expires_at_unix :: int

definition is_expired_at :: "pending_request \<Rightarrow> int \<Rightarrow> bool" where
  "is_expired_at p now_unix \<longleftrightarrow> now_unix \<ge> pr_expires_at_unix p"

record host_session =
  ss_signer :: host_signer
  ss_lifetime :: int
  ss_pending :: "(ustring \<times> pending_request) list"

definition DEFAULT_REQUEST_LIFETIME_SECS :: int where
  "DEFAULT_REQUEST_LIFETIME_SECS = 300"

definition NONCE_BYTES :: nat where
  "NONCE_BYTES = 16"

definition session_new :: "host_signer \<Rightarrow> int \<Rightarrow> host_session" where
  "session_new hs lifetime = \<lparr>ss_signer = hs, ss_lifetime = lifetime, ss_pending = []\<rparr>"

definition session_with_defaults :: "host_signer \<Rightarrow> host_session" where
  "session_with_defaults hs = session_new hs DEFAULT_REQUEST_LIFETIME_SECS"

text \<open>\<open>serde_json::to_string\<close>, with the empty string where it fails.\<close>

definition id_key :: "ext \<Rightarrow> json \<Rightarrow> ustring" where
  "id_key x rid = (case Option.bind (to_vec x rid) from_utf8 of Some s \<Rightarrow> s | None \<Rightarrow> [])"

definition response_id :: "ext \<Rightarrow> bytes \<Rightarrow> json mcps_result" where
  "response_id x response_bytes =
     and_then (ok_or CanonicalizationFailed (from_slice x response_bytes)) (\<lambda>value.
       ok_or MissingEnvelope (json_get value (lit ''id'')))"

definition checked_add :: "int \<Rightarrow> int \<Rightarrow> int option" where
  "checked_add a b = (if is_i64 (a + b) then Some (a + b) else None)"

definition next_nonce :: "ext \<Rightarrow> bytes \<Rightarrow> ustring" where
  "next_nonce x drawn = b64url_encode x (take NONCE_BYTES drawn)"

definition session_sign_request ::
    "ext \<Rightarrow> bytes \<Rightarrow> int \<Rightarrow> host_session \<Rightarrow> json \<Rightarrow> ustring \<Rightarrow> members \<Rightarrow> ustring \<Rightarrow> ustring \<Rightarrow> ustring \<Rightarrow>
     bytes mcps_result \<times> host_session" where
  "session_sign_request x drawn now s rid method params on_behalf_of audience authorization_hash =
     (let key = id_key x rid in
      if map_of (ss_pending s) key \<noteq> None then (Err ReplayDetected, s)
      else case checked_add now (ss_lifetime s) of
        None \<Rightarrow> (Err CanonicalizationFailed, s)
      | Some expires_unix \<Rightarrow>
          (case and_then (sign_request x (ss_signer s) rid method params on_behalf_of audience authorization_hash
                   (next_nonce x drawn) (unix_to_rfc3339_utc now) (unix_to_rfc3339_utc expires_unix)) (\<lambda>bytes.
                and_then (ok_or CanonicalizationFailed (from_slice x bytes)) (\<lambda>signed_value.
                and_then (request_hash x signed_value) (\<lambda>hash. Ok (bytes, hash)))) of
             Inl e \<Rightarrow> (Err e, s)
           | Inr (bytes, hash) \<Rightarrow>
               (Ok bytes, s\<lparr>ss_pending := AList.update key
                  \<lparr>pr_request_hash = hash, pr_expires_at_unix = expires_unix\<rparr> (ss_pending s)\<rparr>)))"

definition session_sign_tool_call ::
    "ext \<Rightarrow> bytes \<Rightarrow> int \<Rightarrow> host_session \<Rightarrow> json \<Rightarrow> ustring \<Rightarrow> json \<Rightarrow> ustring \<Rightarrow> ustring \<Rightarrow> ustring \<Rightarrow>
     bytes mcps_result \<times> host_session" where
  "session_sign_tool_call x drawn now s rid tool_name arguments on_behalf_of audience authorization_hash =
     session_sign_request x drawn now s rid (lit ''tools/call'') (tool_call_params tool_name arguments)
       on_behalf_of audience authorization_hash"

definition session_verify_response ::
    "ext \<Rightarrow> resolve_fn \<Rightarrow> host_session \<Rightarrow> bytes \<Rightarrow> verified_response mcps_result \<times> host_session" where
  "session_verify_response x resolve s response_bytes =
     (case response_id x response_bytes of
        Inl e \<Rightarrow> (Err e, s)
      | Inr rid \<Rightarrow>
          (let key = id_key x rid in
           case map_of (ss_pending s) key of
             None \<Rightarrow> (Err MissingEnvelope, s)
           | Some p \<Rightarrow>
               (case verify_response x resolve (pr_request_hash p) response_bytes of
                  Inl e \<Rightarrow> (Err e, s)
                | Inr verified \<Rightarrow> (Ok verified, s\<lparr>ss_pending := AList.delete key (ss_pending s)\<rparr>))))"

record verified_result =
  vres_verified :: verified_response
  vres_unwrapped :: unwrapped_result

definition session_verify_and_unwrap ::
    "ext \<Rightarrow> resolve_fn \<Rightarrow> host_session \<Rightarrow> bytes \<Rightarrow> verified_result mcps_result \<times> host_session" where
  "session_verify_and_unwrap x resolve s response_bytes =
     (case session_verify_response x resolve s response_bytes of
        (Inl e, s') \<Rightarrow> (Err e, s')
      | (Inr verified, s') \<Rightarrow>
          (and_then (ok_or CanonicalizationFailed (from_slice x response_bytes)) (\<lambda>value.
           and_then (ok_or MissingEnvelope (json_get value (lit ''result''))) (\<lambda>result.
           and_then (unwrap_verified_result result) (\<lambda>unwrapped.
             Ok \<lparr>vres_verified = verified, vres_unwrapped = unwrapped\<rparr>))), s'))"

definition stored_request_hash :: "ext \<Rightarrow> host_session \<Rightarrow> json \<Rightarrow> ustring option" where
  "stored_request_hash x s rid = map_option pr_request_hash (map_of (ss_pending s) (id_key x rid))"

definition pending_count :: "host_session \<Rightarrow> nat" where
  "pending_count s = length (ss_pending s)"

definition cancel_request :: "ext \<Rightarrow> host_session \<Rightarrow> json \<Rightarrow> bool \<times> host_session" where
  "cancel_request x s rid =
     (map_of (ss_pending s) (id_key x rid) \<noteq> None,
      s\<lparr>ss_pending := AList.delete (id_key x rid) (ss_pending s)\<rparr>)"

definition expire_pending :: "host_session \<Rightarrow> int \<Rightarrow> nat \<times> host_session" where
  "expire_pending s now_unix =
     (let before = pending_count s;
          s' = s\<lparr>ss_pending := filter (\<lambda>(_, entry). \<not> is_expired_at entry now_unix) (ss_pending s)\<rparr>
      in (before - pending_count s', s'))"

section \<open>What the signer writes\<close>

definition host_env ::
    "host_signer \<Rightarrow> ustring \<Rightarrow> ustring \<Rightarrow> ustring \<Rightarrow> ustring \<Rightarrow> ustring \<Rightarrow> ustring \<Rightarrow> ustring option \<Rightarrow> request_envelope" where
  "host_env hs obo aud ah nonce ia ea sig =
     \<lparr>re_version = VERSION_DRAFT_01, re_signer = hs_signer hs, re_on_behalf_of = obo, re_audience = aud,
      re_authorization_hash = ah, re_nonce = nonce, re_issued_at = ia, re_expires_at = ea,
      re_signature = \<lparr>sb_alg = SIG_ALG_ED25519, sb_key_id = hs_key_id hs, sb_value = sig\<rparr>\<rparr>"

lemma host_envelope_ser: "host_envelope hs obo aud ah nonce ia ea = ser_request_envelope (host_env hs obo aud ah nonce ia ea None)"
  by (simp add: host_envelope_def ser_request_envelope_def request_members_def host_env_def
      ser_signature_block_def json_object_def lit_def)

lemma insert_value_ser:
  "update_path [lit ''signature''] (json_insert (lit ''value'') (Str v)) (ser_request_envelope (host_env hs obo aud ah nonce ia ea None)) =
   ser_request_envelope (host_env hs obo aud ah nonce ia ea (Some v))"
  by (simp add: ser_request_envelope_def request_members_def host_env_def ser_signature_block_def obj_update_def
      lit_def)

lemma request_object_members:
  "request_object rid method params =
     Obj [(lit ''id'', rid), (lit ''jsonrpc'', Str (lit ''2.0'')), (lit ''method'', Str method), (lit ''params'', Obj params)]"
  by (simp add: request_object_def json_object_def lit_def)

lemma merge_meta_path:
  "json_path (Obj (merge_meta params key envelope)) [lit ''_meta'', key] = Some envelope"
  by (simp add: merge_meta_def Let_def)

lemma safe_obj_insert:
  "safe_json (Obj ms) d \<Longrightarrow> safe_json v (d + 1) \<Longrightarrow> safe_json (Obj (obj_insert k v ms)) d"
  by (auto simp: list_all_iff dest!: obj_insert_mem)

lemma safe_obj_get: "safe_json (Obj ms) d \<Longrightarrow> obj_get k ms = Some v \<Longrightarrow> safe_json v (d + 1)"
  by (auto simp: list_all_iff dest!: obj_get_SomeD)

lemma merge_meta_wf:
  assumes "json_wf (Obj params)" "json_wf envelope" "valid_str key"
  shows "json_wf (Obj (merge_meta params key envelope))"
proof -
  have "json_wf (Obj (case obj_get (lit ''_meta'') params of Some (Obj m) \<Rightarrow> m | _ \<Rightarrow> []))"
    using json_wf_get [OF assms(1), of "lit ''_meta''"] by (auto split: option.split json.split)
  then show ?thesis
    unfolding merge_meta_def Let_def using assms by (intro json_wf_insert json_wf_remove) auto
qed

lemma merge_meta_safe:
  assumes "safe_json (Obj params) d" "safe_json envelope (d + 2)" "d + 1 < MAX_PARSE_DEPTH"
  shows "safe_json (Obj (merge_meta params key envelope)) d"
proof -
  have "safe_json (Obj (case obj_get (lit ''_meta'') params of Some (Obj m) \<Rightarrow> m | _ \<Rightarrow> [])) (d + 1)"
    using safe_obj_get [OF assms(1), of "lit ''_meta''"] assms(3) by (auto split: option.split json.split)
  moreover have "safe_json (Obj (obj_remove (lit ''_meta'') params)) d"
    using safe_json_remove [OF assms(1)] by simp
  ultimately show ?thesis
    unfolding merge_meta_def Let_def using assms(2) by (intro safe_obj_insert) simp_all
qed

lemma request_object_wf:
  assumes "json_wf rid" "valid_str method" "json_wf (Obj params)"
  shows "json_wf (request_object rid method params)"
proof -
  have "json_wf (Obj [(lit ''id'', rid), (lit ''jsonrpc'', Str (lit ''2.0'')), (lit ''method'', Str method), (lit ''params'', v)])"
    if "json_wf v" for v using assms(1,2) that by simp (simp add: lit_def)
  then show ?thesis unfolding request_object_members using assms(3) by blast
qed

lemma request_object_safe:
  assumes "safe_json rid 1" "safe_json (Obj params) 1"
  shows "safe_json (request_object rid method params) 0"
proof -
  have "safe_json (Obj [(lit ''id'', rid), (lit ''jsonrpc'', Str (lit ''2.0'')), (lit ''method'', Str method), (lit ''params'', v)]) 0"
    if "safe_json v 1" for v using assms(1) that by (simp add: MAX_PARSE_DEPTH_def)
  then show ?thesis unfolding request_object_members using assms(2) by blast
qed

text \<open>The inputs a request can be signed for: values of the Rust types in the safe domain.\<close>

definition signable :: "host_signer \<Rightarrow> json \<Rightarrow> ustring \<Rightarrow> members \<Rightarrow> ustring list \<Rightarrow> bool" where
  "signable hs rid method params strs \<longleftrightarrow>
     length (sk_seed (hs_signing_key hs)) = 32 \<and> rid \<noteq> Null \<and> json_wf rid \<and> safe_json rid 1 \<and>
     json_wf (Obj params) \<and> safe_json (Obj params) 1 \<and>
     list_all valid_str ([hs_signer hs, hs_key_id hs, method] @ strs)"

lemma sign_request_reads:
  assumes x: "base64_documented x" "ed25519_documented x" "serde_documented x" "serde_prints x"
    and ok: "signable hs rid method params [obo, aud, ah, nonce, ia, ea]"
  shows "\<exists>bs signed pre. sign_request x hs rid method params obo aud ah nonce ia ea = Ok bs \<and>
    open_message x bs = Ok signed \<and> json_get signed (lit ''id'') = Some rid \<and> signing_preimage signed Request = Ok pre \<and>
    read_request_envelope_version signed = Ok VERSION_DRAFT_01 \<and>
    extract_request_envelope signed =
      Ok (host_env hs obo aud ah nonce ia ea (Some (sign x (hs_signing_key hs) pre))) \<and>
    (\<forall>e. verify_ed25519_with x pre (sign x (hs_signing_key hs) pre) (public_key x (hs_signing_key hs)) e = Ok ())"
proof -
  let ?env = "host_envelope hs obo aud ah nonce ia ea"
  let ?params = "merge_meta params REQUEST_META_KEY ?env"
  let ?o = "request_object rid method ?params" and ?p = "[lit ''params'', lit ''_meta'', REQUEST_META_KEY]"
  have env: "json_wf ?env" "safe_json ?env 3"
    using ok unfolding signable_def host_envelope_ser ser_request_envelope_def
    by (simp_all add: request_members_def host_env_def ser_signature_block_def const_defs MAX_PARSE_DEPTH_def)
      (simp add: lit_def)
  have wf: "json_wf ?o"
    using ok env(1) by (intro request_object_wf merge_meta_wf) (simp_all add: signable_def REQUEST_META_KEY_def)
  have safe: "safe_json ?o 0"
    using ok env(2) by (intro request_object_safe merge_meta_safe) (simp_all add: signable_def MAX_PARSE_DEPTH_def numeral_3_eq_3)
  have p: "json_path ?o ?p = Some ?env"
    using merge_meta_path [of params REQUEST_META_KEY ?env] by (simp add: request_object_members)
  have sp: "signature_path Request = ?p @ [lit ''signature'']" by (simp add: signature_path_def)
  have "\<exists>ms. json_path ?env [lit ''signature''] = Some (Obj ms)"
    by (simp add: host_envelope_ser ser_request_envelope_def request_members_def ser_signature_block_def)
  then obtain ms where ms: "json_path ?o (signature_path Request) = Some (Obj ms)"
    unfolding sp json_path_append p by auto
  from signed_in_place [OF x _ wf safe ms] ok obtain pre signed bs cs where
    s: "sign_in_place x (hs_signing_key hs) Request ?o = Ok signed"
      "signed = update_path (signature_path Request) (json_insert (lit ''value'') (Str (sign x (hs_signing_key hs) pre))) ?o"
      "signing_preimage signed Request = Ok pre" "to_vec x signed = Some bs" "from_slice x bs = Some signed"
      "canonicalize bs = Ok cs"
      "\<forall>e. verify_ed25519_with x pre (sign x (hs_signing_key hs) pre) (public_key x (hs_signing_key hs)) e = Ok ()"
    unfolding signable_def by blast
  have env': "json_path signed ?p = Some (ser_request_envelope (host_env hs obo aud ah nonce ia ea (Some (sign x (hs_signing_key hs) pre))))"
    using json_path_update [of ?p _ ?o "[]"] p insert_value_ser
    unfolding s(2) sp update_path_append by (simp add: host_envelope_ser)
  then have "read_request_envelope_version signed = Ok VERSION_DRAFT_01"
    unfolding read_request_envelope_version_def env' by (simp add: ser_request_envelope_def request_members_def host_env_def)
  moreover from env' have "extract_request_envelope signed = Ok (host_env hs obo aud ah nonce ia ea (Some (sign x (hs_signing_key hs) pre)))"
    unfolding extract_request_envelope_Ok by (auto simp: de_request_envelope_ser host_env_def)
  moreover have "open_message x bs = Ok signed"
    using ok s(5,6) unfolding open_message_Ok s(2)
    by (auto simp: request_object_members is_array_def signature_path_def signable_def)
  moreover have "sign_request x hs rid method params obo aud ah nonce ia ea = Ok bs"
    by (simp add: sign_request_def Let_def s(1,4))
  moreover have "json_get signed (lit ''id'') = Some rid"
    unfolding s(2) by (simp add: request_object_members signature_path_def)
  ultimately show ?thesis using s(3,7) by blast
qed

lemma host_request_verifies:
  assumes x: "base64_documented x" "ed25519_documented x" "serde_documented x" "serde_prints x"
    and ok: "signable hs rid method params [obo, aud, ah, nonce, ia, ea]"
    and fields: "prefix SHA256_PREFIX ah" "obo \<noteq> []" "aud = expected_audience config"
    and fresh: "check_freshness ia ea now (skew_secs config) = Ok ()" "parse_rfc3339_utc ea = Ok e"
    and key: "resolve (hs_signer hs) (hs_key_id hs) = Ok (public_key x (hs_signing_key hs))"
    and cache: "check c (hs_signer hs) aud nonce e = (Ok Fresh, c')"
  shows "\<exists>bs value pre. sign_request x hs rid method params obo aud ah nonce ia ea = Ok bs \<and>
    from_slice x bs = Some value \<and> signing_preimage value Request = Ok pre \<and>
    read_request_envelope_version value = Ok VERSION_DRAFT_01 \<and> open_message x bs = Ok value \<and>
    verify_request x resolve check c config now bs =
      (Ok \<lparr>vr_signer = hs_signer hs, vr_key_id = hs_key_id hs, vr_on_behalf_of = obo, vr_audience = aud,
         vr_authorization = Draft01Hash ah, vr_request_hash = sha256_hash_id x pre, vr_nonce = nonce,
         vr_issued_at = ia, vr_expires_at = ea, vr_canonicalization_id = None\<rparr>, c')"
proof -
  let ?sk = "hs_signing_key hs"
  from sign_request_reads [OF x ok] obtain bs signed pre where
    s: "sign_request x hs rid method params obo aud ah nonce ia ea = Ok bs"
      "open_message x bs = Ok signed" "signing_preimage signed Request = Ok pre"
      "read_request_envelope_version signed = Ok VERSION_DRAFT_01"
      "extract_request_envelope signed = Ok (host_env hs obo aud ah nonce ia ea (Some (sign x ?sk pre)))"
      "\<forall>e. verify_ed25519_with x pre (sign x ?sk pre) (public_key x ?sk) e = Ok ()" by blast
  let ?env = "host_env hs obo aud ah nonce ia ea (Some (sign x ?sk pre))"
  have "authenticate_request x resolve config now signed (re_signer ?env) (re_audience ?env)
      (re_issued_at ?env) (re_expires_at ?env) (re_signature ?env) = Ok e"
    unfolding authenticate_request_Ok using fields(3) fresh key s(3,6) by (simp add: host_env_def verify_ed25519_def)
  then have "request_checks x resolve config now bs = Ok (signed, ?env, e)"
    unfolding request_checks_Ok using s(2,5) fields(1,2) by (simp add: host_env_def)
  then have "verify_request x resolve check c config now bs =
      (Ok \<lparr>vr_signer = hs_signer hs, vr_key_id = hs_key_id hs, vr_on_behalf_of = obo, vr_audience = aud,
         vr_authorization = Draft01Hash ah, vr_request_hash = sha256_hash_id x pre, vr_nonce = nonce,
         vr_issued_at = ia, vr_expires_at = ea, vr_canonicalization_id = None\<rparr>, c')"
    unfolding verify_request_Ok using cache request_hash_preimage [OF s(3), of x] by (auto simp: host_env_def)
  then show ?thesis using s(1-4) unfolding open_message_Ok by blast
qed

section \<open>The session over time\<close>

lemma session_verify_response_Ok:
  "session_verify_response x resolve s resp = (Ok v, s') \<longleftrightarrow>
     (\<exists>rid p. response_id x resp = Ok rid \<and> map_of (ss_pending s) (id_key x rid) = Some p \<and>
        verify_response x resolve (pr_request_hash p) resp = Ok v \<and>
        s' = s\<lparr>ss_pending := AList.delete (id_key x rid) (ss_pending s)\<rparr>)"
  by (auto simp: session_verify_response_def Let_def split: sum.splits option.splits)

lemma session_verify_response_Err: "session_verify_response x resolve s resp = (Err e, s') \<Longrightarrow> s' = s"
  by (auto simp: session_verify_response_def Let_def split: sum.splits option.splits)

lemma session_sign_request_Ok:
  "session_sign_request x drawn now s rid method params obo aud ah = (Ok bytes, s') \<longleftrightarrow>
     (\<exists>e value hash. map_of (ss_pending s) (id_key x rid) = None \<and> checked_add now (ss_lifetime s) = Some e \<and>
        sign_request x (ss_signer s) rid method params obo aud ah (next_nonce x drawn)
          (unix_to_rfc3339_utc now) (unix_to_rfc3339_utc e) = Ok bytes \<and>
        from_slice x bytes = Some value \<and> request_hash x value = Ok hash \<and>
        s' = s\<lparr>ss_pending := AList.update (id_key x rid)
          \<lparr>pr_request_hash = hash, pr_expires_at_unix = e\<rparr> (ss_pending s)\<rparr>)"
  unfolding session_sign_request_def Let_def
  by (auto simp: and_then_eq_Inr ok_or_eq_Inr split: sum.splits option.splits)

lemma session_sign_request_Err: "session_sign_request x drawn now s rid method params obo aud ah = (Err e, s') \<Longrightarrow> s' = s"
  by (auto simp: session_sign_request_def Let_def split: sum.splits option.splits if_split_asm)

text \<open>
  The runs of a session from a fresh one. The log records the requests it signed, with the key
  of their id.
\<close>

inductive session_run :: "ext \<Rightarrow> host_signer \<Rightarrow> (ustring \<times> bytes) list \<Rightarrow> host_session \<Rightarrow> bool" for x hs where
  start: "session_run x hs [] (session_new hs lifetime)"
| signed: "session_run x hs log s \<Longrightarrow>
    session_sign_request x drawn now s rid method params obo aud ah = (Ok bytes, s') \<Longrightarrow>
    session_run x hs ((id_key x rid, bytes) # log) s'"
| refused: "session_run x hs log s \<Longrightarrow>
    session_sign_request x drawn now s rid method params obo aud ah = (Err e, s') \<Longrightarrow> session_run x hs log s'"
| answered: "session_run x hs log s \<Longrightarrow> session_verify_response x resolve s resp = (r, s') \<Longrightarrow> session_run x hs log s'"
| cancelled: "session_run x hs log s \<Longrightarrow> cancel_request x s rid = (b, s') \<Longrightarrow> session_run x hs log s'"
| expired: "session_run x hs log s \<Longrightarrow> expire_pending s now = (n, s') \<Longrightarrow> session_run x hs log s'"

definition pending_ok :: "ext \<Rightarrow> (ustring \<times> bytes) list \<Rightarrow> host_session \<Rightarrow> bool" where
  "pending_ok x log s \<longleftrightarrow> distinct (map fst (ss_pending s)) \<and>
     (\<forall>(k, p) \<in> set (ss_pending s). \<exists>bytes value. (k, bytes) \<in> set log \<and> from_slice x bytes = Some value \<and>
        request_hash x value = Ok (pr_request_hash p))"

lemma update_mem: "(k', w) \<in> set (AList.update k v al) \<Longrightarrow> k' = k \<and> w = v \<or> (k', w) \<in> set al"
  by (induction al) (auto split: if_split_asm)

lemma pending_ok_shrink:
  "pending_ok x log s \<Longrightarrow> set (ss_pending s') \<subseteq> set (ss_pending s) \<Longrightarrow> distinct (map fst (ss_pending s')) \<Longrightarrow> pending_ok x log s'"
  unfolding pending_ok_def by blast

lemma pending_ok_delete: "pending_ok x log s \<Longrightarrow> pending_ok x log (s\<lparr>ss_pending := AList.delete k (ss_pending s)\<rparr>)"
  by (rule pending_ok_shrink) (auto simp: AList.delete_eq pending_ok_def intro: distinct_map_filter)

lemma session_run_pending_ok: "session_run x hs log s \<Longrightarrow> pending_ok x log s"
proof (induction rule: session_run.induct)
  case (start lifetime)
  show ?case by (simp add: pending_ok_def session_new_def)
next
  case (signed log s drawn now rid meth params obo aud ah bytes s')
  then show ?case
    unfolding session_sign_request_Ok pending_ok_def
    by (fastforce simp: distinct_update dest!: update_mem)
next
  case (refused log s drawn now rid meth params obo aud ah e s')
  then show ?case using session_sign_request_Err by blast
next
  case (answered log s resolve resp r s')
  then show ?case
    by (cases r) (auto simp: session_verify_response_Ok intro: pending_ok_delete dest: session_verify_response_Err)
next
  case (cancelled log s rid b s')
  then show ?case by (auto simp: cancel_request_def intro: pending_ok_delete)
next
  case (expired log s now n s')
  then show ?case
    by (auto simp: expire_pending_def Let_def pending_ok_def intro: distinct_map_filter)
qed

section \<open>A sample exchange\<close>

definition sample_host :: host_signer where
  "sample_host = \<lparr>hs_signing_key = \<lparr>sk_seed = replicate 32 7\<rparr>, hs_signer = lit ''did:a'', hs_key_id = lit ''k1''\<rparr>"

definition sample_resolve :: resolve_fn where
  "sample_resolve = resolver_resolve (resolver_insert (lit ''did:a'') (lit ''k1'')
     (public_key sample_ext \<lparr>sk_seed = replicate 32 7\<rparr>) resolver_new)"

definition sample_config :: verification_config where
  "sample_config = \<lparr>expected_audience = lit ''did:s'', skew_secs = 30\<rparr>"

lemma sample_documented:
  "base64_documented sample_ext" "ed25519_documented sample_ext" "serde_documented sample_ext" "serde_prints sample_ext"
  by (rule sample_ext_documented(1) sample_ext_documented(3) sample_ext_documented(4) sample_ext_prints)+

lemma sample_signable:
  "signable sample_host (Number (NInt 1)) (lit ''tools/call'') []
     [lit ''did:u'', lit ''did:s'', lit ''sha256:x'', lit ''n'', unix_to_rfc3339_utc 1000, unix_to_rfc3339_utc 1300]"
  by (simp add: signable_def sample_host_def MAX_SAFE_INTEGER_def MAX_PARSE_DEPTH_def rfc3339_valid)

lemma sample_parses:
  "parse_rfc3339_utc (unix_to_rfc3339_utc 1000) = Ok 1000" "parse_rfc3339_utc (unix_to_rfc3339_utc 1300) = Ok 1300"
  by (rule denotes_parse [OF format_denotes]; simp)+

lemma sample_fresh:
  "check_freshness (unix_to_rfc3339_utc 1000) (unix_to_rfc3339_utc 1300) 1100 (skew_secs sample_config) = Ok ()"
  using check_freshness_window [of 1100 30] sample_parses by (simp add: sample_config_def i64_simps)

lemma sample_key: "sample_resolve (hs_signer sample_host) (hs_key_id sample_host) = Ok (public_key sample_ext (hs_signing_key sample_host))"
  by (simp add: sample_resolve_def sample_host_def mem_store.resolve_bind)

lemma sample_admits:
  "check_and_insert (replay_new 30) (hs_signer sample_host) (lit ''did:s'') (lit ''n'') 1300 =
     (Ok Fresh, \<lparr>max_clock_skew_secs = 30, seen = [(lit ''did:a'', lit ''did:s'', lit ''n'') \<mapsto> 1330]\<rparr>)"
  by (simp add: check_and_insert_def replay_new_def sample_host_def i64_simps)

lemma sample_accepted:
  "\<exists>bs vr c'. verify_request_dispatch sample_ext sample_resolve check_and_insert (replay_new 30) sample_config 1100
     Draft01AndDraft02 bs = (Ok vr, c') \<and> vr_signer vr = lit ''did:a''"
proof -
  from host_request_verifies [where x = sample_ext and hs = sample_host and resolve = sample_resolve and check = check_and_insert
    and c = "replay_new 30" and config = sample_config,
    OF sample_documented sample_signable _ _ _ sample_fresh sample_parses(2) sample_key sample_admits]
  obtain bs msg pre c' where b: "open_message sample_ext bs = Ok msg"
    "read_request_envelope_version msg = Ok VERSION_DRAFT_01"
    "verify_request sample_ext sample_resolve check_and_insert (replay_new 30) sample_config 1100 bs =
      (Ok \<lparr>vr_signer = hs_signer sample_host, vr_key_id = hs_key_id sample_host, vr_on_behalf_of = lit ''did:u'',
         vr_audience = lit ''did:s'', vr_authorization = Draft01Hash (lit ''sha256:x''),
         vr_request_hash = sha256_hash_id sample_ext pre, vr_nonce = lit ''n'',
         vr_issued_at = unix_to_rfc3339_utc 1000, vr_expires_at = unix_to_rfc3339_utc 1300, vr_canonicalization_id = None\<rparr>, c')"
    by (auto simp: sample_config_def SHA256_PREFIX_def lit_def)
  have "select_version sample_ext Draft01AndDraft02 bs = Ok VERSION_DRAFT_01"
    using b(1,2) unfolding select_version_Ok open_message_Ok by auto
  with b(3) have "verify_request_dispatch sample_ext sample_resolve check_and_insert (replay_new 30) sample_config 1100
      Draft01AndDraft02 bs = (Ok \<lparr>vr_signer = hs_signer sample_host, vr_key_id = hs_key_id sample_host, vr_on_behalf_of = lit ''did:u'',
         vr_audience = lit ''did:s'', vr_authorization = Draft01Hash (lit ''sha256:x''),
         vr_request_hash = sha256_hash_id sample_ext pre, vr_nonce = lit ''n'',
         vr_issued_at = unix_to_rfc3339_utc 1000, vr_expires_at = unix_to_rfc3339_utc 1300, vr_canonicalization_id = None\<rparr>, c')"
    unfolding verify_request_dispatch_Ok by blast
  moreover have "hs_signer sample_host = lit ''did:a''" by (simp add: sample_host_def)
  ultimately show ?thesis by fastforce
qed

section \<open>Properties\<close>



end
