(* ===== verification/Verdict.thy ===== *)
theory Verdict
  imports Host
begin

text \<open>
  The type invariant of the verdicts of \<open>pipeline.rs\<close>: what a verifier returns is made of strings of
  the Rust type, its request hash is a hash identifier, and the fields that depend on the profile
  agree with it. Later components print these fields and rely on it.
\<close>

section \<open>Strings of an envelope\<close>

lemma json_wf_str: "json_wf v \<Longrightarrow> json_get v k = Some (Str s) \<Longrightarrow> valid_str s"
  by (drule (1) json_wf_get) simp

lemma json_wf_obj_str: "json_wf (Obj ms) \<Longrightarrow> obj_get k ms = Some (Str s) \<Longrightarrow> valid_str s"
  using json_wf_str [of "Obj ms" k s] by simp

lemma de_signature_block_valid:
  assumes "de_signature_block v = Ok sb" "json_wf v"
  shows "valid_str (sb_key_id sb)"
proof (cases v)
  case (Obj ms)
  then have "obj_get (lit ''key_id'') ms = Some (Str (sb_key_id sb))"
    using assms(1) by (auto simp: de_signature_block_def result_simps)
  then show ?thesis using assms(2) Obj json_wf_obj_str by blast
next
  case (Arr vs)
  then show ?thesis
    using assms by (auto simp: de_signature_block_def next_element_def result_simps split: list.split_asm)
qed (use assms in \<open>auto simp: de_signature_block_def\<close>)

lemma de_request_envelope_valid:
  assumes "de_request_envelope (Obj ms) = Ok env" "json_wf (Obj ms)"
  shows "list_all valid_str [re_signer env, re_on_behalf_of env, re_audience env, re_authorization_hash env, re_nonce env,
    re_issued_at env, re_expires_at env, sb_key_id (re_signature env)]"
proof -
  have f: "obj_get (lit ''signer'') ms = Some (Str (re_signer env))" "obj_get (lit ''on_behalf_of'') ms = Some (Str (re_on_behalf_of env))"
    "obj_get (lit ''audience'') ms = Some (Str (re_audience env))"
    "obj_get (lit ''authorization_hash'') ms = Some (Str (re_authorization_hash env))"
    "obj_get (lit ''nonce'') ms = Some (Str (re_nonce env))" "obj_get (lit ''issued_at'') ms = Some (Str (re_issued_at env))"
    "obj_get (lit ''expires_at'') ms = Some (Str (re_expires_at env))"
    and s: "\<exists>sig. obj_get (lit ''signature'') ms = Some sig \<and> de_signature_block sig = Ok (re_signature env)"
    using assms(1) by (auto simp: de_request_envelope_def result_simps)
  from s json_wf_get [OF assms(2)] de_signature_block_valid have "valid_str (sb_key_id (re_signature env))" by fastforce
  then show ?thesis using f [THEN json_wf_obj_str [OF assms(2)]] by simp
qed

lemma de_binding_valid:
  assumes "de_authorization_binding v = Ok ab" "json_wf v"
  shows "json_wf (Obj (binding_members ab))"
proof -
  from assms(1) obtain ms where v: "v = Obj ms" by (cases v) (auto simp: de_authorization_binding_def)
  have wf: "json_wf (Obj ms)" using assms(2) v by simp
  have "case ab of
      OpaqueBytes alg d \<Rightarrow> valid_str alg \<and> valid_str d
    | AuthzSystemReference sys scheme ref_val alg d \<Rightarrow> list_all valid_str [sys, scheme, ref_val, alg, d]"
    using assms(1) json_wf_obj_str [OF wf] by (auto simp: v de_authorization_binding_def result_simps split: if_split_asm)
  then show ?thesis
    by (cases ab) (simp_all add: binding_members_def const_defs, simp_all add: lit_def)
qed

lemma de_draft02_valid:
  assumes "de_draft02_request_envelope (Obj ms) = Ok env" "json_wf (Obj ms)"
  shows "list_all valid_str [d2_signer env, d2_on_behalf_of env, d2_audience env, d2_nonce env,
    d2_issued_at env, d2_expires_at env, sb_key_id (d2_signature env)]"
    "json_wf (Obj (binding_members (d2_authorization_binding env)))"
proof -
  have f: "obj_get (lit ''signer'') ms = Some (Str (d2_signer env))" "obj_get (lit ''on_behalf_of'') ms = Some (Str (d2_on_behalf_of env))"
    "obj_get (lit ''audience'') ms = Some (Str (d2_audience env))"
    "obj_get (lit ''nonce'') ms = Some (Str (d2_nonce env))" "obj_get (lit ''issued_at'') ms = Some (Str (d2_issued_at env))"
    "obj_get (lit ''expires_at'') ms = Some (Str (d2_expires_at env))"
    and s: "\<exists>sig. obj_get (lit ''signature'') ms = Some sig \<and> de_signature_block sig = Ok (d2_signature env)"
    using assms(1) by (auto simp: de_draft02_request_envelope_def result_simps)
  from s json_wf_get [OF assms(2)] de_signature_block_valid have "valid_str (sb_key_id (d2_signature env))" by fastforce
  then show "list_all valid_str [d2_signer env, d2_on_behalf_of env, d2_audience env, d2_nonce env,
    d2_issued_at env, d2_expires_at env, sb_key_id (d2_signature env)]"
    using f [THEN json_wf_obj_str [OF assms(2)]] by simp
  show "json_wf (Obj (binding_members (d2_authorization_binding env)))"
    using de_draft02_fields(3) [OF assms(1)] json_wf_get [OF assms(2)] de_binding_valid by fastforce
qed

section \<open>Verdicts\<close>

definition verdict_strings :: "verified_request \<Rightarrow> ustring list" where
  "verdict_strings vr = [vr_signer vr, vr_key_id vr, vr_on_behalf_of vr, vr_audience vr, vr_request_hash vr, vr_nonce vr,
     vr_issued_at vr, vr_expires_at vr]"

definition authorization_ok :: "verified_request \<Rightarrow> bool" where
  "authorization_ok vr \<longleftrightarrow>
     (case vr_authorization vr of
        Draft01Hash h \<Rightarrow> valid_str h \<and> prefix SHA256_PREFIX h \<and> vr_canonicalization_id vr = None
      | Draft02Binding b \<Rightarrow> json_wf (Obj (binding_members b)) \<and> vr_canonicalization_id vr = Some CANONICALIZATION_ID_INT53_V1)"

lemma hash_id_valid: "base64_documented x \<Longrightarrow> sha256_documented x \<Longrightarrow> valid_str (sha256_hash_id x bs)"
  by (simp add: sha256_hash_id_def SHA256_PREFIX_def base64_documented_def sha256_documented_def b64url_encode_def)

lemma request_hash_id: "request_hash x value = Ok h \<Longrightarrow> \<exists>pre. signing_preimage value Request = Ok pre \<and> h = sha256_hash_id x pre"
  by (auto simp: request_hash_def request_signing_preimage_def result_simps)

lemma envelope_object:
  assumes "read_request_envelope_version value = Ok v"
  shows "\<exists>ms. json_path value [lit ''params'', lit ''_meta'', REQUEST_META_KEY] = Some (Obj ms)"
proof -
  from assms obtain raw w where "json_path value [lit ''params'', lit ''_meta'', REQUEST_META_KEY] = Some raw"
    "json_get raw (lit ''version'') = Some w"
    unfolding read_request_envelope_version_def by (auto simp: result_simps bind_eq_Some_conv simp del: json_path.simps)
  then show ?thesis using json_get_SomeD by blast
qed

lemma dispatch_opens:
  assumes "verify_request_dispatch x resolve check c config now policy raw = (Ok vr, c')"
  shows "\<exists>value ms pre. open_message x raw = Ok value \<and>
    json_path value [lit ''params'', lit ''_meta'', REQUEST_META_KEY] = Some (Obj ms) \<and>
    signing_preimage value Request = Ok pre \<and> vr_request_hash vr = sha256_hash_id x pre"
proof -
  from assms obtain v where v: "select_version x policy raw = Ok v" unfolding verify_request_dispatch_Ok by blast
  from assms obtain msg where m: "open_message x raw = Ok msg" "request_hash x msg = Ok (vr_request_hash vr)"
    unfolding verify_request_dispatch_Ok verify_request_Ok verify_request_draft02_Ok request_checks_Ok request_checks_draft02_Ok by auto
  from v m(1) have "read_request_envelope_version msg = Ok v" unfolding select_version_Ok open_message_Ok by auto
  with m envelope_object request_hash_id show ?thesis by blast
qed

lemma verdict_typed:
  assumes x: "base64_documented x" "sha256_documented x" "serde_documented x"
    and v: "verify_request_dispatch x resolve check c config now policy raw = (Ok vr, c')"
  shows "list_all valid_str (verdict_strings vr)" "authorization_ok vr" "vr_on_behalf_of vr \<noteq> []"
proof -
  from dispatch_opens [OF v] obtain msg ms pre where m: "open_message x raw = Ok msg"
    "json_path msg [lit ''params'', lit ''_meta'', REQUEST_META_KEY] = Some (Obj ms)"
    "signing_preimage msg Request = Ok pre" "vr_request_hash vr = sha256_hash_id x pre" by blast
  have "json_wf msg" using x(3) m(1) unfolding open_message_Ok serde_documented_def by blast
  from json_wf_path [OF this m(2)] have wf: "json_wf (Obj ms)" .
  have h: "valid_str (vr_request_hash vr)" unfolding m(4) using hash_id_valid [OF x(1,2)] .
  have "list_all valid_str (verdict_strings vr) \<and> authorization_ok vr \<and> vr_on_behalf_of vr \<noteq> []"
  proof (cases "verify_request x resolve check c config now raw = (Ok vr, c')")
    case True
    then obtain env where e: "extract_request_envelope msg = Ok env" "prefix SHA256_PREFIX (re_authorization_hash env)"
      "re_on_behalf_of env \<noteq> []"
      "vr = \<lparr>vr_signer = re_signer env, vr_key_id = sb_key_id (re_signature env),
          vr_on_behalf_of = re_on_behalf_of env, vr_audience = re_audience env,
          vr_authorization = Draft01Hash (re_authorization_hash env), vr_request_hash = vr_request_hash vr,
          vr_nonce = re_nonce env, vr_issued_at = re_issued_at env,
          vr_expires_at = re_expires_at env, vr_canonicalization_id = None\<rparr>"
      using m(1) unfolding verify_request_Ok request_checks_Ok by auto
    then have "de_request_envelope (Obj ms) = Ok env" using m(2) unfolding extract_request_envelope_Ok by auto
    from de_request_envelope_valid [OF this wf] show ?thesis
      using h e(2,3) by (subst (1 2 3) e(4)) (simp add: verdict_strings_def authorization_ok_def)
  next
    case False
    then have "verify_request_draft02 x resolve check c config now raw = (Ok vr, c')" using v unfolding verify_request_dispatch_Ok by blast
    then obtain env where e: "extract_draft02_request_envelope msg = Ok env" "d2_on_behalf_of env \<noteq> []"
      "vr = \<lparr>vr_signer = d2_signer env, vr_key_id = sb_key_id (d2_signature env),
          vr_on_behalf_of = d2_on_behalf_of env, vr_audience = d2_audience env,
          vr_authorization = Draft02Binding (d2_authorization_binding env), vr_request_hash = vr_request_hash vr,
          vr_nonce = d2_nonce env, vr_issued_at = d2_issued_at env,
          vr_expires_at = d2_expires_at env, vr_canonicalization_id = Some (d2_canonicalization_id env)\<rparr>"
      using m(1) unfolding verify_request_draft02_Ok request_checks_draft02_Ok by auto
    then have d: "de_draft02_request_envelope (Obj ms) = Ok env" "d2_canonicalization_id env = CANONICALIZATION_ID_INT53_V1"
      using m(2) unfolding extract_draft02_request_envelope_Ok by auto
    from de_draft02_valid [OF d(1) wf] show ?thesis
      using h e(2) d(2) by (subst (1 2 3) e(3)) (simp add: verdict_strings_def authorization_ok_def del: json_wf.simps)
  qed
  then show "list_all valid_str (verdict_strings vr)" "authorization_ok vr" "vr_on_behalf_of vr \<noteq> []" by blast+
qed

section \<open>Properties\<close>



end
