(* ===== verification/Policy.thy ===== *)
theory Policy
  imports Pipeline Unwrap_Wire
begin

text \<open>
  The crate \<open>mcps-policy\<close>: the authorization errors and their JSON-RPC form (\<open>error.rs\<close>,
  \<open>wire.rs\<close>), the authorization block of a request (\<open>block.rs\<close>), the revocation sources
  (\<open>revocation.rs\<close>), the profile registry that evaluates a verified request (\<open>profile.rs\<close>,
  \<open>evaluator.rs\<close>) and the reference profile of signed grants with its minting function
  (\<open>reference.rs\<close>). A trait object is the record or function of its operations.
\<close>

section \<open>Errors and decisions\<close>

datatype policy_error =
    AuthorizationBlockMissing
  | AuthorizationHashMismatch
  | AuthorizationProfileUnsupported
  | AuthorizationMalformed
  | AuthorizationSignatureInvalid
  | AuthorizationSignerMismatch
  | AuthorizationSubjectMismatch
  | AuthorizationAudienceMismatch
  | AuthorizationExpired
  | AuthorizationRevoked
  | AuthorizationRevocationUnavailable
  | AuthorizationScopeDenied
  | BindingProfileRequired

primrec policy_wire_code :: "policy_error \<Rightarrow> ustring" where
  "policy_wire_code AuthorizationBlockMissing = lit ''mcps.authorization_block_missing''"
| "policy_wire_code AuthorizationHashMismatch = lit ''mcps.authorization_hash_mismatch''"
| "policy_wire_code AuthorizationProfileUnsupported = lit ''mcps.authorization_profile_unsupported''"
| "policy_wire_code AuthorizationMalformed = lit ''mcps.authorization_malformed''"
| "policy_wire_code AuthorizationSignatureInvalid = lit ''mcps.authorization_signature_invalid''"
| "policy_wire_code AuthorizationSignerMismatch = lit ''mcps.authorization_signer_mismatch''"
| "policy_wire_code AuthorizationSubjectMismatch = lit ''mcps.authorization_subject_mismatch''"
| "policy_wire_code AuthorizationAudienceMismatch = lit ''mcps.authorization_audience_mismatch''"
| "policy_wire_code AuthorizationExpired = lit ''mcps.authorization_expired''"
| "policy_wire_code AuthorizationRevoked = lit ''mcps.authorization_revoked''"
| "policy_wire_code AuthorizationRevocationUnavailable = lit ''mcps.authorization_revocation_unavailable''"
| "policy_wire_code AuthorizationScopeDenied = lit ''mcps.authorization_scope_denied''"
| "policy_wire_code BindingProfileRequired = lit ''mcps.authorization_binding_profile_required''"

type_synonym 'a policy_result = "policy_error + 'a"

datatype authorization_decision = Allow | Deny policy_error

fun is_allowed :: "authorization_decision \<Rightarrow> bool" where
  "is_allowed Allow \<longleftrightarrow> True"
| "is_allowed (Deny err) \<longleftrightarrow> False"

fun denial :: "authorization_decision \<Rightarrow> policy_error option" where
  "denial Allow = None"
| "denial (Deny err) = Some err"

definition authorization_error_object :: "policy_error \<Rightarrow> json \<Rightarrow> json" where
  "authorization_error_object error rid =
     (let code = policy_wire_code error in
      json_object [(lit ''jsonrpc'', Str (lit ''2.0'')), (lit ''id'', rid),
        (lit ''error'', json_object [(lit ''code'', Number (NInt MCPS_JSON_RPC_ERROR_CODE)),
          (lit ''message'', Str code),
          (lit ''data'', json_object [(lit ''mcps_error'', Str code), (lit ''policy'', Str (lit ''authorization'')),
            (lit ''retryable'', Bool False), (lit ''details'', Str code)])])])"

definition json_rpc_authorization_error :: "ext \<Rightarrow> policy_error \<Rightarrow> json \<Rightarrow> bytes" where
  "json_rpc_authorization_error x error rid =
     (case to_vec x (authorization_error_object error rid) of
        Some bs \<Rightarrow> bs
      | None \<Rightarrow> utf8 (lit ''{\"jsonrpc\":\"2.0\",\"id\":null,\"error\":{\"code\":-32603}}''))"

section \<open>The authorization block\<close>

definition AUTHORIZATION_META_KEY :: ustring where
  "AUTHORIZATION_META_KEY = lit ''se.syncom/mcps.authorization''"

record authorization_block =
  ab_profile :: ustring
  ab_artifact_b64url :: ustring

definition decoded_artifact :: "ext \<Rightarrow> authorization_block \<Rightarrow> bytes policy_result" where
  "decoded_artifact x block = map_err (\<lambda>_. AuthorizationMalformed) (b64url_decode x (ab_artifact_b64url block))"

definition extract_authorization_block :: "json \<Rightarrow> authorization_block policy_result" where
  "extract_authorization_block request =
     and_then (ok_or AuthorizationBlockMissing
       (Option.bind (Option.bind (json_get request (lit ''params'')) (\<lambda>params. json_get params (lit ''_meta'')))
         (\<lambda>meta. json_get meta AUTHORIZATION_META_KEY))) (\<lambda>block.
     and_then (ok_or AuthorizationMalformed (as_object block)) (\<lambda>object.
     and_then (ok_or AuthorizationMalformed (Option.bind (obj_get (lit ''profile'') object) as_str)) (\<lambda>profile.
     and_then (ok_or AuthorizationMalformed (Option.bind (obj_get (lit ''artifact'') object) as_str)) (\<lambda>artifact.
       Ok \<lparr>ab_profile = profile, ab_artifact_b64url = artifact\<rparr>))))"

section \<open>Revocation\<close>

datatype revocation_status = StatusNotRevoked | StatusRevoked

datatype revocation_unavailable = RevocationUnavailable ustring

type_synonym revocation_fn = "ustring \<Rightarrow> revocation_unavailable + revocation_status"

record in_memory_revocation_source =
  revoked_ids :: "ustring set"

definition revocation_new :: in_memory_revocation_source where
  "revocation_new = \<lparr>revoked_ids = {}\<rparr>"

definition revoke :: "ustring \<Rightarrow> in_memory_revocation_source \<Rightarrow> in_memory_revocation_source" where
  "revoke revocation_id r = r\<lparr>revoked_ids := {revocation_id} \<union> revoked_ids r\<rparr>"

definition mem_revocation_status :: "in_memory_revocation_source \<Rightarrow> revocation_fn" where
  "mem_revocation_status r revocation_id =
     (if revocation_id \<in> revoked_ids r then Ok StatusRevoked else Ok StatusNotRevoked)"

section \<open>The evaluator\<close>

record authorization_profile =
  profile_id :: ustring
  expected_authorization_hash :: "bytes \<Rightarrow> ustring policy_result"
  authorize :: "bytes \<Rightarrow> verified_request \<Rightarrow> json \<Rightarrow> resolve_fn \<Rightarrow> revocation_fn \<Rightarrow> int \<Rightarrow> authorization_decision"

record reference_resolver =
  authorization_system_id :: ustring
  authorize_reference :: "authorization_binding \<Rightarrow> verified_request \<Rightarrow> json \<Rightarrow> resolve_fn \<Rightarrow> revocation_fn \<Rightarrow> int \<Rightarrow>
    authorization_decision"

record policy_evaluator =
  profiles :: "ustring \<rightharpoonup> authorization_profile"
  reference_resolvers :: "ustring \<rightharpoonup> reference_resolver"

definition evaluator_new :: policy_evaluator where
  "evaluator_new = \<lparr>profiles = Map.empty, reference_resolvers = Map.empty\<rparr>"

definition register :: "authorization_profile \<Rightarrow> policy_evaluator \<Rightarrow> policy_evaluator" where
  "register profile ev = ev\<lparr>profiles := (profiles ev)(profile_id profile \<mapsto> profile)\<rparr>"

definition register_reference_resolver :: "reference_resolver \<Rightarrow> policy_evaluator \<Rightarrow> policy_evaluator" where
  "register_reference_resolver resolver ev =
     ev\<lparr>reference_resolvers := (reference_resolvers ev)(authorization_system_id resolver \<mapsto> resolver)\<rparr>"

definition evaluate_artifact_binding ::
    "ext \<Rightarrow> policy_evaluator \<Rightarrow> json \<Rightarrow> verified_request \<Rightarrow> resolve_fn \<Rightarrow> revocation_fn \<Rightarrow> int \<Rightarrow>
     (ustring \<Rightarrow> unit policy_result) \<Rightarrow> authorization_decision policy_result" where
  "evaluate_artifact_binding x ev request verified resolve revocation now_unix check_binding =
     and_then (extract_authorization_block request) (\<lambda>block.
     and_then (ok_or AuthorizationProfileUnsupported (profiles ev (ab_profile block))) (\<lambda>profile.
     and_then (decoded_artifact x block) (\<lambda>artifact_bytes.
     and_then (expected_authorization_hash profile artifact_bytes) (\<lambda>expected.
     and_then (check_binding expected) (\<lambda>_.
       Ok (authorize profile artifact_bytes verified request resolve revocation now_unix))))))"

definition check_hash_binding :: "ustring \<Rightarrow> ustring \<Rightarrow> unit policy_result" where
  "check_hash_binding authorization_hash expected = require (expected = authorization_hash) AuthorizationHashMismatch"

definition check_digest_binding :: "ustring \<Rightarrow> ustring \<Rightarrow> unit policy_result" where
  "check_digest_binding digest_value expected =
     (let expected_bare = (case strip_prefix (lit ''sha256:'') expected of Some s \<Rightarrow> s | None \<Rightarrow> expected) in
      require (expected_bare = digest_value) AuthorizationHashMismatch)"

definition evaluate_inner ::
    "ext \<Rightarrow> policy_evaluator \<Rightarrow> verified_request \<Rightarrow> json \<Rightarrow> resolve_fn \<Rightarrow> revocation_fn \<Rightarrow> int \<Rightarrow>
     authorization_decision policy_result" where
  "evaluate_inner x ev verified request resolve revocation now_unix =
     (case vr_authorization verified of
        Draft01Hash authorization_hash \<Rightarrow>
          evaluate_artifact_binding x ev request verified resolve revocation now_unix (check_hash_binding authorization_hash)
      | Draft02Binding (OpaqueBytes alg digest_value) \<Rightarrow>
          evaluate_artifact_binding x ev request verified resolve revocation now_unix (check_digest_binding digest_value)
      | Draft02Binding (AuthzSystemReference system_id scheme_id ref_val alg digest_value) \<Rightarrow>
          and_then (ok_or BindingProfileRequired (reference_resolvers ev system_id)) (\<lambda>resolver_for_system.
            Ok (authorize_reference resolver_for_system
              (AuthzSystemReference system_id scheme_id ref_val alg digest_value) verified request resolve revocation now_unix)))"

definition evaluate ::
    "ext \<Rightarrow> policy_evaluator \<Rightarrow> verified_request \<Rightarrow> json \<Rightarrow> resolve_fn \<Rightarrow> revocation_fn \<Rightarrow> int \<Rightarrow> authorization_decision" where
  "evaluate x ev verified request resolve revocation now_unix =
     (case evaluate_inner x ev verified request resolve revocation now_unix of
        Inr decision \<Rightarrow> decision
      | Inl err \<Rightarrow> Deny err)"

section \<open>Laws\<close>

lemma policy_wire_code_inj: "policy_wire_code e = policy_wire_code d \<Longrightarrow> e = d"
  by (cases e; cases d) simp_all

lemma policy_wire_code_valid: "valid_str (policy_wire_code e)"
  by (cases e) simp_all

lemma authorization_error_members:
  "authorization_error_object e rid =
     Obj [(lit ''error'', Obj [(lit ''code'', Number (NInt (-32003))),
       (lit ''data'', Obj [(lit ''details'', Str (policy_wire_code e)), (lit ''mcps_error'', Str (policy_wire_code e)),
          (lit ''policy'', Str (lit ''authorization'')), (lit ''retryable'', Bool False)]),
       (lit ''message'', Str (policy_wire_code e))]), (lit ''id'', rid), (lit ''jsonrpc'', Str (lit ''2.0''))]"
  by (simp add: authorization_error_object_def json_object_def MCPS_JSON_RPC_ERROR_CODE_def Let_def lit_def)

lemma decoded_artifact_Ok [result_simps]:
  "decoded_artifact x block = Ok bs \<longleftrightarrow> base64_decode x (ab_artifact_b64url block) = Some bs"
  by (simp add: decoded_artifact_def b64url_decode_def result_simps)

lemma check_hash_binding_Ok [result_simps]: "check_hash_binding h expected = Ok u \<longleftrightarrow> expected = h"
  by (simp add: check_hash_binding_def result_simps)

text \<open>A hash identifier matches the bare digest of an opaque binding when its body does.\<close>

lemma check_digest_binding_id [simp]:
  "check_digest_binding v (sha256_hash_id x bs) = Ok u \<longleftrightarrow> b64url_encode x (sha256 x bs) = v"
  by (simp add: check_digest_binding_def sha256_hash_id_def SHA256_PREFIX_def result_simps)

lemma evaluate_artifact_binding_Ok:
  "evaluate_artifact_binding x ev request verified resolve revocation now check_binding = Ok d \<longleftrightarrow>
     (\<exists>block profile artifact expected. extract_authorization_block request = Ok block \<and>
        profiles ev (ab_profile block) = Some profile \<and>
        base64_decode x (ab_artifact_b64url block) = Some artifact \<and>
        expected_authorization_hash profile artifact = Ok expected \<and> check_binding expected = Ok () \<and>
        d = authorize profile artifact verified request resolve revocation now)"
  by (auto simp: evaluate_artifact_binding_def result_simps)

lemma evaluate_Allow:
  "evaluate x ev verified request resolve revocation now = Allow \<longleftrightarrow>
     evaluate_inner x ev verified request resolve revocation now = Ok Allow"
  by (simp add: evaluate_def split: sum.split)

text \<open>Only a registered interpreter can allow a request.\<close>

lemma evaluate_no_interpreter:
  "profiles ev = Map.empty \<Longrightarrow> reference_resolvers ev = Map.empty \<Longrightarrow>
     evaluate x ev verified request resolve revocation now \<noteq> Allow"
  by (auto simp: evaluate_Allow evaluate_inner_def evaluate_artifact_binding_Ok result_simps
      split: verified_authorization.splits authorization_binding.splits)

section \<open>Properties\<close>

text \<open>
  a denial says which error it is, and cannot be taken for a refusal of the verifier: the error
  object is read back with the id it was made for and the token of the error, the token identifies
  the error, and \<open>data.policy\<close> is not the one the verifier's own error objects carry.
\<close>

theorem denial_names_error:
  assumes "serde_documented x" and "serde_prints x" and "json_wf rid" and "safe_json rid 1"
  shows "\<exists>value. from_slice x (json_rpc_authorization_error x e rid) = Some value \<and>
    json_path value [lit ''id''] = Some rid \<and> json_path value [lit ''result''] = None \<and>
    (json_path value [lit ''error'', lit ''message''] = Some (Str (policy_wire_code d)) \<longleftrightarrow> d = e) \<and>
    json_path value [lit ''error'', lit ''data'', lit ''policy''] \<noteq>
      json_path (error_object core rid) [lit ''error'', lit ''data'', lit ''policy'']"
proof -
  have "json_wf (authorization_error_object e rid)" using assms(3) policy_wire_code_valid [of e]
    by (simp add: authorization_error_members) (simp add: lit_def)
  moreover have "safe_json (authorization_error_object e rid) 0" using assms(4)
    by (simp add: authorization_error_members MAX_PARSE_DEPTH_def MAX_SAFE_INTEGER_def)
  ultimately obtain bs where "to_vec x (authorization_error_object e rid) = Some bs"
    "from_slice x bs = Some (authorization_error_object e rid)"
    using printed_value_reads [OF assms(1,2)] by blast
  then show ?thesis
    using policy_wire_code_inj by (auto simp: json_rpc_authorization_error_def authorization_error_members error_object_members)
qed

theorem denial_names_error_witness:
  "\<exists>value. from_slice sample_ext (json_rpc_authorization_error sample_ext AuthorizationRevoked (Number (NInt 7))) = Some value \<and>
    json_path value [lit ''error'', lit ''message''] = Some (Str (lit ''mcps.authorization_revoked''))"
  using denial_names_error [OF sample_ext_documented(4) sample_ext_prints, of "Number (NInt 7)" AuthorizationRevoked AuthorizationRevoked]
  by (auto simp: MAX_SAFE_INTEGER_def)

end
