(* ===== verification/Reference_Profile.thy ===== *)
theory Reference_Profile
  imports Policy
begin

text \<open>
  \<open>mcps-policy/src/reference.rs\<close>: grants signed by an issuer, their evaluation against a verified
  request and the function that mints them. The structures ignore unknown members; like every
  derived reader they also accept an array of the fields in order. Since every reading failure is
  \<open>AuthorizationMalformed\<close>, the kind of failure is not tracked.
\<close>

section \<open>The artifact\<close>

definition REFERENCE_PROFILE_ID :: ustring where
  "REFERENCE_PROFILE_ID = lit ''se.syncom/mcps-authz-reference-v1''"

record grant =
  g_method :: ustring
  g_tool :: ustring
  g_arguments :: "json option"

record grant_signature =
  gs_alg :: ustring
  gs_key_id :: ustring
  gs_value :: ustring

record reference_grant =
  rg_issuer :: ustring
  rg_grantee :: ustring
  rg_subject :: ustring
  rg_audience :: ustring
  rg_grants :: "grant list"
  rg_not_before :: ustring
  rg_expires_at :: ustring
  rg_revocation_id :: ustring
  rg_signature :: grant_signature

text \<open>An element of an array may be absent where the field has a default.\<close>

definition next_default :: "json list \<Rightarrow> de_error + json option \<times> json list" where
  "next_default vs = (case vs of [] \<Rightarrow> Ok (None, []) | v # rest \<Rightarrow> and_then (de_option Ok v) (\<lambda>a. Ok (a, rest)))"

definition de_grant :: "grant de" where
  "de_grant v =
     (case v of
        Obj ms \<Rightarrow>
          and_then (de_field ms ''method'' de_string) (\<lambda>meth.
          and_then (de_field ms ''tool'' de_string) (\<lambda>tool.
          and_then (de_optional_field ms ''arguments'' Ok) (\<lambda>arguments.
            Ok \<lparr>g_method = meth, g_tool = tool, g_arguments = arguments\<rparr>)))
      | Arr vs \<Rightarrow>
          and_then (next_element de_string vs) (\<lambda>(meth, vs).
          and_then (next_element de_string vs) (\<lambda>(tool, vs).
          and_then (next_default vs) (\<lambda>(arguments, vs).
          and_then (no_more vs) (\<lambda>_.
            Ok \<lparr>g_method = meth, g_tool = tool, g_arguments = arguments\<rparr>))))
      | _ \<Rightarrow> Err OtherDe)"

definition de_grants :: "grant list de" where
  "de_grants v = (case as_array v of None \<Rightarrow> Err OtherDe | Some vs \<Rightarrow> collect (map de_grant vs))"

definition de_grant_signature :: "grant_signature de" where
  "de_grant_signature v =
     (case v of
        Obj ms \<Rightarrow>
          and_then (de_field ms ''alg'' de_string) (\<lambda>alg.
          and_then (de_field ms ''key_id'' de_string) (\<lambda>key_id.
          and_then (de_field ms ''value'' de_string) (\<lambda>sig.
            Ok \<lparr>gs_alg = alg, gs_key_id = key_id, gs_value = sig\<rparr>)))
      | Arr vs \<Rightarrow>
          and_then (next_element de_string vs) (\<lambda>(alg, vs).
          and_then (next_element de_string vs) (\<lambda>(key_id, vs).
          and_then (next_element de_string vs) (\<lambda>(sig, vs).
          and_then (no_more vs) (\<lambda>_.
            Ok \<lparr>gs_alg = alg, gs_key_id = key_id, gs_value = sig\<rparr>))))
      | _ \<Rightarrow> Err OtherDe)"

definition de_reference_grant :: "reference_grant de" where
  "de_reference_grant v =
     (case v of
        Obj ms \<Rightarrow>
          and_then (de_field ms ''issuer'' de_string) (\<lambda>issuer.
          and_then (de_field ms ''grantee'' de_string) (\<lambda>grantee.
          and_then (de_field ms ''subject'' de_string) (\<lambda>subject.
          and_then (de_field ms ''audience'' de_string) (\<lambda>audience.
          and_then (de_field ms ''grants'' de_grants) (\<lambda>grants.
          and_then (de_field ms ''not_before'' de_string) (\<lambda>not_before.
          and_then (de_field ms ''expires_at'' de_string) (\<lambda>expires_at.
          and_then (de_field ms ''revocation_id'' de_string) (\<lambda>revocation_id.
          and_then (de_field ms ''signature'' de_grant_signature) (\<lambda>sig.
            Ok \<lparr>rg_issuer = issuer, rg_grantee = grantee, rg_subject = subject, rg_audience = audience,
              rg_grants = grants, rg_not_before = not_before, rg_expires_at = expires_at,
              rg_revocation_id = revocation_id, rg_signature = sig\<rparr>)))))))))
      | Arr vs \<Rightarrow>
          and_then (next_element de_string vs) (\<lambda>(issuer, vs).
          and_then (next_element de_string vs) (\<lambda>(grantee, vs).
          and_then (next_element de_string vs) (\<lambda>(subject, vs).
          and_then (next_element de_string vs) (\<lambda>(audience, vs).
          and_then (next_element de_grants vs) (\<lambda>(grants, vs).
          and_then (next_element de_string vs) (\<lambda>(not_before, vs).
          and_then (next_element de_string vs) (\<lambda>(expires_at, vs).
          and_then (next_element de_string vs) (\<lambda>(revocation_id, vs).
          and_then (next_element de_grant_signature vs) (\<lambda>(sig, vs).
          and_then (no_more vs) (\<lambda>_.
            Ok \<lparr>rg_issuer = issuer, rg_grantee = grantee, rg_subject = subject, rg_audience = audience,
              rg_grants = grants, rg_not_before = not_before, rg_expires_at = expires_at,
              rg_revocation_id = revocation_id, rg_signature = sig\<rparr>))))))))))
      | _ \<Rightarrow> Err OtherDe)"

section \<open>Evaluation\<close>

definition verify_issuer_signature ::
    "ext \<Rightarrow> json \<Rightarrow> reference_grant \<Rightarrow> resolve_fn \<Rightarrow> unit policy_result" where
  "verify_issuer_signature x artifact grant resolve =
     (if gs_alg (rg_signature grant) \<noteq> SIG_ALG_ED25519 then Err AuthorizationSignatureInvalid
      else and_then (ok_or AuthorizationMalformed (Option.bind (json_get artifact (lit ''signature'')) as_object)) (\<lambda>_.
      and_then (map_err (\<lambda>_. AuthorizationMalformed)
          (canonicalize_json_value (update_path [lit ''signature''] (json_remove (lit ''value'')) artifact))) (\<lambda>preimage.
      and_then (map_err (\<lambda>_. AuthorizationSignatureInvalid)
          (resolve (rg_issuer grant) (gs_key_id (rg_signature grant)))) (\<lambda>key.
        map_err (\<lambda>_. AuthorizationSignatureInvalid)
          (verify_ed25519_with x preimage (gs_value (rg_signature grant)) key InvalidSignature)))))"

definition check_window :: "reference_grant \<Rightarrow> int \<Rightarrow> unit policy_result" where
  "check_window grant now_unix =
     and_then (map_err (\<lambda>_. AuthorizationMalformed) (parse_rfc3339_utc (rg_not_before grant))) (\<lambda>not_before.
     and_then (map_err (\<lambda>_. AuthorizationMalformed) (parse_rfc3339_utc (rg_expires_at grant))) (\<lambda>expires_at.
       if now_unix < not_before \<or> now_unix > expires_at then Err AuthorizationExpired else Ok ()))"

text \<open>A constraint comes from canonical bytes, hence holds no float: comparing two numbers is
  comparing two integers.\<close>

definition arguments_satisfied :: "json option \<Rightarrow> json option \<Rightarrow> bool" where
  "arguments_satisfied constraint actual =
     (case constraint of
        None \<Rightarrow> True
      | Some c \<Rightarrow>
          (case as_object c of
             None \<Rightarrow> False
           | Some required \<Rightarrow>
               (case Option.bind actual as_object of
                  Some obj \<Rightarrow> list_all (\<lambda>(key, val). obj_get key obj = Some val) required
                | None \<Rightarrow> required = [])))"

definition request_method :: "json \<Rightarrow> ustring" where
  "request_method request = (case Option.bind (json_get request (lit ''method'')) as_str of Some s \<Rightarrow> s | None \<Rightarrow> [])"

definition target_key :: "ustring \<Rightarrow> ustring option" where
  "target_key meth =
     (if meth = lit ''tools/call'' \<or> meth = lit ''prompts/get'' then Some (lit ''name'')
      else if meth = lit ''resources/read'' then Some (lit ''uri'') else None)"

definition check_scope :: "reference_grant \<Rightarrow> json \<Rightarrow> unit policy_result" where
  "check_scope grant request =
     (let meth = request_method request;
          params = json_get request (lit ''params'');
          tool = Option.bind (target_key meth) (\<lambda>key. Option.bind (Option.bind params (\<lambda>p. json_get p key)) as_str);
          arguments = Option.bind params (\<lambda>p. json_get p (lit ''arguments'')) in
      case tool of
        None \<Rightarrow> Err AuthorizationScopeDenied
      | Some tool \<Rightarrow>
          if list_ex (\<lambda>g. g_method g = meth \<and> g_tool g = tool \<and> arguments_satisfied (g_arguments g) arguments) (rg_grants grant)
          then Ok () else Err AuthorizationScopeDenied)"

definition check_revocation :: "reference_grant \<Rightarrow> revocation_fn \<Rightarrow> unit policy_result" where
  "check_revocation grant revocation =
     (case revocation (rg_revocation_id grant) of
        Inr StatusNotRevoked \<Rightarrow> Ok ()
      | Inr StatusRevoked \<Rightarrow> Err AuthorizationRevoked
      | Inl unavailable \<Rightarrow> Err AuthorizationRevocationUnavailable)"

definition reference_evaluate_inner ::
    "ext \<Rightarrow> bytes \<Rightarrow> verified_request \<Rightarrow> json \<Rightarrow> resolve_fn \<Rightarrow> revocation_fn \<Rightarrow> int \<Rightarrow> unit policy_result" where
  "reference_evaluate_inner x artifact_bytes verified request resolve revocation now_unix =
     and_then (map_err (\<lambda>_. AuthorizationMalformed) (canonicalize artifact_bytes)) (\<lambda>canonical_artifact.
     and_then (ok_or AuthorizationMalformed (from_slice x canonical_artifact)) (\<lambda>artifact.
     and_then (map_err (\<lambda>_. AuthorizationMalformed) (de_reference_grant artifact)) (\<lambda>grant.
     and_then (verify_issuer_signature x artifact grant resolve) (\<lambda>_.
     and_then (require (rg_grantee grant = vr_signer verified) AuthorizationSignerMismatch) (\<lambda>_.
     and_then (require (rg_subject grant = vr_on_behalf_of verified) AuthorizationSubjectMismatch) (\<lambda>_.
     and_then (require (rg_audience grant = vr_audience verified) AuthorizationAudienceMismatch) (\<lambda>_.
     and_then (check_window grant now_unix) (\<lambda>_.
     and_then (check_revocation grant revocation) (\<lambda>_.
     and_then (require (\<not> list_ex (\<lambda>g. g_tool g = []) (rg_grants grant)) AuthorizationMalformed) (\<lambda>_.
       check_scope grant request))))))))))"

definition reference_expected_hash :: "ext \<Rightarrow> bytes \<Rightarrow> ustring policy_result" where
  "reference_expected_hash x artifact_bytes =
     and_then (map_err (\<lambda>_. AuthorizationMalformed) (canonicalize artifact_bytes)) (\<lambda>canon. Ok (sha256_hash_id x canon))"

definition reference_authorize ::
    "ext \<Rightarrow> bytes \<Rightarrow> verified_request \<Rightarrow> json \<Rightarrow> resolve_fn \<Rightarrow> revocation_fn \<Rightarrow> int \<Rightarrow> authorization_decision" where
  "reference_authorize x artifact_bytes verified request resolve revocation now_unix =
     (case reference_evaluate_inner x artifact_bytes verified request resolve revocation now_unix of
        Inr _ \<Rightarrow> Allow
      | Inl err \<Rightarrow> Deny err)"

definition reference_profile :: "ext \<Rightarrow> authorization_profile" where
  "reference_profile x = \<lparr>profile_id = REFERENCE_PROFILE_ID, expected_authorization_hash = reference_expected_hash x,
     authorize = reference_authorize x\<rparr>"

section \<open>Minting\<close>

record granted_operation =
  op_method :: ustring
  op_tool :: ustring
  op_arguments :: "json option"

record reference_grant_spec =
  sp_issuer :: ustring
  sp_grantee :: ustring
  sp_subject :: ustring
  sp_audience :: ustring
  sp_operations :: "granted_operation list"
  sp_not_before :: ustring
  sp_expires_at :: ustring
  sp_revocation_id :: ustring

definition operation_json :: "granted_operation \<Rightarrow> json" where
  "operation_json op =
     (let entry = obj_insert (lit ''tool'') (Str (op_tool op)) (obj_insert (lit ''method'') (Str (op_method op)) []) in
      Obj (case op_arguments op of Some arguments \<Rightarrow> obj_insert (lit ''arguments'') arguments entry | None \<Rightarrow> entry))"

definition unsigned_artifact :: "reference_grant_spec \<Rightarrow> ustring \<Rightarrow> json" where
  "unsigned_artifact spec key_id =
     json_object [(lit ''profile'', Str REFERENCE_PROFILE_ID), (lit ''issuer'', Str (sp_issuer spec)),
       (lit ''grantee'', Str (sp_grantee spec)), (lit ''subject'', Str (sp_subject spec)),
       (lit ''audience'', Str (sp_audience spec)), (lit ''grants'', Arr (map operation_json (sp_operations spec))),
       (lit ''not_before'', Str (sp_not_before spec)), (lit ''expires_at'', Str (sp_expires_at spec)),
       (lit ''revocation_id'', Str (sp_revocation_id spec)),
       (lit ''signature'', json_object [(lit ''alg'', Str SIG_ALG_ED25519), (lit ''key_id'', Str key_id)])]"

definition mint_reference_grant :: "ext \<Rightarrow> reference_grant_spec \<Rightarrow> signing_key \<Rightarrow> ustring \<Rightarrow> bytes policy_result" where
  "mint_reference_grant x spec issuer_key key_id =
     (if list_ex (\<lambda>op. op_tool op = []) (sp_operations spec) then Err AuthorizationMalformed
      else and_then (map_err (\<lambda>_. AuthorizationMalformed)
          (canonicalize_json_value (unsigned_artifact spec key_id))) (\<lambda>preimage.
        map_err (\<lambda>_. AuthorizationMalformed)
          (canonicalize_json_value (update_path [lit ''signature'']
            (json_insert (lit ''value'') (Str (sign x issuer_key preimage))) (unsigned_artifact spec key_id)))))"

section \<open>What a grant permits\<close>

text \<open>The evaluation, read as a specification: the authority behind a grant, the request it is for
  and the operation it names.\<close>

definition issuer_signed :: "ext \<Rightarrow> resolve_fn \<Rightarrow> json \<Rightarrow> reference_grant \<Rightarrow> bool" where
  "issuer_signed x resolve artifact grant \<longleftrightarrow>
     gs_alg (rg_signature grant) = SIG_ALG_ED25519 \<and>
     (\<exists>ms pre key. json_get artifact (lit ''signature'') = Some (Obj ms) \<and>
        canonicalize_json_value (update_path [lit ''signature''] (json_remove (lit ''value'')) artifact) = Ok pre \<and>
        resolve (rg_issuer grant) (gs_key_id (rg_signature grant)) = Ok key \<and>
        verify_ed25519 x pre (gs_value (rg_signature grant)) key = Ok ())"

definition in_window :: "reference_grant \<Rightarrow> int \<Rightarrow> bool" where
  "in_window grant now \<longleftrightarrow> (\<exists>nb e. parse_rfc3339_utc (rg_not_before grant) = Ok nb \<and>
     parse_rfc3339_utc (rg_expires_at grant) = Ok e \<and> nb \<le> now \<and> now \<le> e)"

definition request_target :: "json \<Rightarrow> ustring option" where
  "request_target request = Option.bind (target_key (request_method request)) (\<lambda>key.
     Option.bind (json_path request [lit ''params'', key]) as_str)"

definition permits :: "ustring \<Rightarrow> ustring \<Rightarrow> json option \<Rightarrow> json \<Rightarrow> bool" where
  "permits meth tool constraint request \<longleftrightarrow>
     meth = request_method request \<and> request_target request = Some tool \<and>
     arguments_satisfied constraint (json_path request [lit ''params'', lit ''arguments''])"

fun binds_artifact :: "ext \<Rightarrow> verified_authorization \<Rightarrow> bytes \<Rightarrow> bool" where
  "binds_artifact x (Draft01Hash h) canon \<longleftrightarrow> h = sha256_hash_id x canon"
| "binds_artifact x (Draft02Binding (OpaqueBytes alg v)) canon \<longleftrightarrow> v = b64url_encode x (sha256 x canon)"
| "binds_artifact x (Draft02Binding (AuthzSystemReference sys scheme ref_val alg v)) canon \<longleftrightarrow> False"

section \<open>Laws\<close>

lemma as_object_Some [result_simps]: "as_object v = Some ms \<longleftrightarrow> v = Obj ms"
  by (cases v) auto

lemma as_str_Some [result_simps]: "as_str v = Some s \<longleftrightarrow> v = Str s"
  by (cases v) auto

lemma verify_issuer_signature_Ok [result_simps]:
  "verify_issuer_signature x artifact grant resolve = Ok u \<longleftrightarrow> issuer_signed x resolve artifact grant"
  by (auto simp: verify_issuer_signature_def issuer_signed_def verify_ed25519_def result_simps bind_eq_Some_conv)

lemma check_window_Ok [result_simps]: "check_window grant now = Ok u \<longleftrightarrow> in_window grant now"
  by (cases "parse_rfc3339_utc (rg_not_before grant)"; cases "parse_rfc3339_utc (rg_expires_at grant)")
    (auto simp: check_window_def in_window_def)

lemma check_revocation_Ok [result_simps]:
  "check_revocation grant revocation = Ok u \<longleftrightarrow> revocation (rg_revocation_id grant) = Ok StatusNotRevoked"
  by (auto simp: check_revocation_def split: sum.split revocation_status.split)

lemma json_path_two: "json_path v [k, l] = Option.bind (json_get v k) (\<lambda>w. json_get w l)"
  by (auto split: option.split)

lemma check_scope_Ok [result_simps]:
  "check_scope grant request = Ok u \<longleftrightarrow>
     (\<exists>g \<in> set (rg_grants grant). permits (g_method g) (g_tool g) (g_arguments g) request)"
  by (auto simp: check_scope_def permits_def request_target_def Let_def json_path_two list_ex_iff
      simp del: json_path.simps split: option.split)

lemma reference_evaluate_inner_Ok:
  "reference_evaluate_inner x bs verified request resolve revocation now = Ok u \<longleftrightarrow>
     (\<exists>canon artifact grant. canonicalize bs = Ok canon \<and> from_slice x canon = Some artifact \<and>
        de_reference_grant artifact = Ok grant \<and> issuer_signed x resolve artifact grant \<and>
        rg_grantee grant = vr_signer verified \<and> rg_subject grant = vr_on_behalf_of verified \<and>
        rg_audience grant = vr_audience verified \<and> in_window grant now \<and>
        revocation (rg_revocation_id grant) = Ok StatusNotRevoked \<and> [] \<notin> g_tool ` set (rg_grants grant) \<and>
        (\<exists>g \<in> set (rg_grants grant). permits (g_method g) (g_tool g) (g_arguments g) request))"
  unfolding reference_evaluate_inner_def by (simp add: result_simps list_ex_iff image_iff eq_commute [of "[]"])

lemma reference_authorize_Allow:
  "reference_authorize x bs verified request resolve revocation now = Allow \<longleftrightarrow>
     (\<exists>u. reference_evaluate_inner x bs verified request resolve revocation now = Ok u)"
  by (simp add: reference_authorize_def split: sum.split)

lemma evaluate_reference_Allow:
  "evaluate x (register (reference_profile x) evaluator_new) verified request resolve revocation now = Allow \<longleftrightarrow>
     (\<exists>block bs canon. extract_authorization_block request = Ok block \<and> ab_profile block = REFERENCE_PROFILE_ID \<and>
        base64_decode x (ab_artifact_b64url block) = Some bs \<and> canonicalize bs = Ok canon \<and>
        binds_artifact x (vr_authorization verified) canon \<and>
        reference_evaluate_inner x bs verified request resolve revocation now = Ok ())"
proof -
  have p: "profiles (register (reference_profile x) evaluator_new) k = Some p \<longleftrightarrow>
      k = REFERENCE_PROFILE_ID \<and> p = reference_profile x" for k p
    by (auto simp: register_def evaluator_new_def reference_profile_def)
  have r: "reference_resolvers (register (reference_profile x) evaluator_new) = Map.empty"
    by (simp add: register_def evaluator_new_def)
  have h: "expected_authorization_hash (reference_profile x) bs = Ok h \<longleftrightarrow>
      (\<exists>canon. canonicalize bs = Ok canon \<and> h = sha256_hash_id x canon)" for bs h
    by (auto simp: reference_profile_def reference_expected_hash_def result_simps)
  have a: "Allow = authorize (reference_profile x) bs verified request resolve revocation now \<longleftrightarrow>
      reference_evaluate_inner x bs verified request resolve revocation now = Ok ()" for bs
    using reference_authorize_Allow by (auto simp: reference_profile_def eq_commute [of Allow])
  have b: "evaluate_artifact_binding x (register (reference_profile x) evaluator_new) request verified resolve revocation now cb = Ok Allow \<longleftrightarrow>
      (\<exists>block bs canon. extract_authorization_block request = Ok block \<and> ab_profile block = REFERENCE_PROFILE_ID \<and>
        base64_decode x (ab_artifact_b64url block) = Some bs \<and> canonicalize bs = Ok canon \<and>
        cb (sha256_hash_id x canon) = Ok () \<and>
        reference_evaluate_inner x bs verified request resolve revocation now = Ok ())" for cb
    unfolding evaluate_artifact_binding_Ok by (auto simp: p h a)
  show ?thesis
    unfolding evaluate_Allow evaluate_inner_def
    by (auto simp: b r check_hash_binding_Ok split: verified_authorization.split authorization_binding.split)
qed

section \<open>The minted artifact\<close>

definition minted_artifact :: "reference_grant_spec \<Rightarrow> ustring \<Rightarrow> ustring option \<Rightarrow> json" where
  "minted_artifact spec key_id sig =
     Obj [(lit ''audience'', Str (sp_audience spec)), (lit ''expires_at'', Str (sp_expires_at spec)),
       (lit ''grantee'', Str (sp_grantee spec)), (lit ''grants'', Arr (map operation_json (sp_operations spec))),
       (lit ''issuer'', Str (sp_issuer spec)), (lit ''not_before'', Str (sp_not_before spec)),
       (lit ''profile'', Str REFERENCE_PROFILE_ID), (lit ''revocation_id'', Str (sp_revocation_id spec)),
       (lit ''signature'', ser_signature_block \<lparr>sb_alg = SIG_ALG_ED25519, sb_key_id = key_id, sb_value = sig\<rparr>),
       (lit ''subject'', Str (sp_subject spec))]"

lemma unsigned_artifact_members: "unsigned_artifact spec key_id = minted_artifact spec key_id None"
  by (simp add: unsigned_artifact_def minted_artifact_def ser_signature_block_def json_object_def lit_def)

lemma sign_minted:
  "update_path [lit ''signature''] (json_insert (lit ''value'') (Str s)) (minted_artifact spec key_id None) =
     minted_artifact spec key_id (Some s)"
  by (simp add: minted_artifact_def ser_signature_block_def obj_update_def lit_def)

lemma strip_minted:
  "update_path [lit ''signature''] (json_remove (lit ''value'')) (minted_artifact spec key_id (Some s)) =
     minted_artifact spec key_id None"
  by (simp add: minted_artifact_def ser_signature_block_def obj_update_def obj_remove_def)

lemma operation_json_members:
  "operation_json op = Obj ((case op_arguments op of Some a \<Rightarrow> [(lit ''arguments'', a)] | None \<Rightarrow> []) @
     [(lit ''method'', Str (op_method op)), (lit ''tool'', Str (op_tool op))])"
  by (simp add: operation_json_def Let_def lit_def split: option.split)

text \<open>A grant is read back as it was minted, except that a constraint \<open>null\<close> reads as no constraint.\<close>

definition effective_constraint :: "granted_operation \<Rightarrow> json option" where
  "effective_constraint op = (if op_arguments op = Some Null then None else op_arguments op)"

lemma de_operation:
  "de_grant (operation_json op) =
     Ok \<lparr>g_method = op_method op, g_tool = op_tool op, g_arguments = effective_constraint op\<rparr>"
  by (cases "op_arguments op")
    (auto simp: de_grant_def operation_json_members de_field_def de_optional_field_def de_option_def effective_constraint_def)

definition minted_grant :: "reference_grant_spec \<Rightarrow> ustring \<Rightarrow> ustring \<Rightarrow> reference_grant" where
  "minted_grant spec key_id sig = \<lparr>rg_issuer = sp_issuer spec, rg_grantee = sp_grantee spec, rg_subject = sp_subject spec,
     rg_audience = sp_audience spec,
     rg_grants = map (\<lambda>op. \<lparr>g_method = op_method op, g_tool = op_tool op, g_arguments = effective_constraint op\<rparr>) (sp_operations spec),
     rg_not_before = sp_not_before spec, rg_expires_at = sp_expires_at spec, rg_revocation_id = sp_revocation_id spec,
     rg_signature = \<lparr>gs_alg = SIG_ALG_ED25519, gs_key_id = key_id, gs_value = sig\<rparr>\<rparr>"

lemma de_minted: "de_reference_grant (minted_artifact spec key_id (Some s)) = Ok (minted_grant spec key_id s)"
proof -
  have "de_grants (Arr (map operation_json ops)) =
      Ok (map (\<lambda>op. \<lparr>g_method = op_method op, g_tool = op_tool op, g_arguments = effective_constraint op\<rparr>) ops)" for ops
    unfolding de_grants_def as_array.simps option.simps by (induction ops) (simp_all add: de_operation)
  then show ?thesis
    by (simp add: de_reference_grant_def minted_artifact_def minted_grant_def de_field_def de_grant_signature_def ser_signature_block_def)
qed

text \<open>The specifications a grant can be minted from: strings of the Rust type, constraints in the
  safe domain at the depth where they are written.\<close>

definition mintable :: "reference_grant_spec \<Rightarrow> signing_key \<Rightarrow> ustring \<Rightarrow> bool" where
  "mintable spec sk key_id \<longleftrightarrow>
     length (sk_seed sk) = 32 \<and>
     list_all valid_str [sp_issuer spec, sp_grantee spec, sp_subject spec, sp_audience spec, sp_not_before spec,
       sp_expires_at spec, sp_revocation_id spec, key_id] \<and>
     list_all (\<lambda>op. valid_str (op_method op) \<and> valid_str (op_tool op) \<and> op_tool op \<noteq> [] \<and>
       (\<forall>a. op_arguments op = Some a \<longrightarrow> json_wf a \<and> safe_json a 3)) (sp_operations spec)"

lemma minted_wf:
  assumes "mintable spec sk key_id" "\<And>s. sig = Some s \<Longrightarrow> valid_str s"
  shows "json_wf (minted_artifact spec key_id sig)" "safe_json (minted_artifact spec key_id sig) 0"
proof -
  have op: "json_wf (operation_json op) \<and> safe_json (operation_json op) 2" if "op \<in> set (sp_operations spec)" for op
  proof -
    have "valid_str (op_method op)" "valid_str (op_tool op)" "\<forall>a. op_arguments op = Some a \<longrightarrow> json_wf a \<and> safe_json a 3"
      using assms(1) that by (auto simp: mintable_def list_all_iff)
    then show ?thesis
      unfolding operation_json_members
      by (cases "op_arguments op") (simp_all add: MAX_PARSE_DEPTH_def numeral_3_eq_3 numeral_2_eq_2, simp_all add: lit_def)
  qed
  have sb: "json_wf (ser_signature_block \<lparr>sb_alg = SIG_ALG_ED25519, sb_key_id = key_id, sb_value = sig\<rparr>)"
    "safe_json (ser_signature_block \<lparr>sb_alg = SIG_ALG_ED25519, sb_key_id = key_id, sb_value = sig\<rparr>) 1"
    using assms by (cases sig; simp add: ser_signature_block_def mintable_def const_defs MAX_PARSE_DEPTH_def; simp add: lit_def)+
  define gs where "gs = map operation_json (sp_operations spec)"
  have gs: "list_all json_wf gs" "list_all (\<lambda>v. safe_json v 2) gs" using op by (auto simp: gs_def list_all_iff)
  show "json_wf (minted_artifact spec key_id sig)"
    using assms(1) gs(1) sb(1) unfolding minted_artifact_def mintable_def gs_def [symmetric]
    by (simp add: REFERENCE_PROFILE_ID_def) (simp add: lit_def)
  show "safe_json (minted_artifact spec key_id sig) 0"
    using gs(2) sb(2) unfolding minted_artifact_def gs_def [symmetric] by (simp add: MAX_PARSE_DEPTH_def numeral_2_eq_2)
qed

lemma mint_reads:
  assumes x: "base64_documented x" "ed25519_documented x" "serde_documented x" and ok: "mintable spec sk key_id"
  shows "\<exists>bs pre. mint_reference_grant x spec sk key_id = Ok bs \<and> canonicalize bs = Ok bs \<and> byte_list bs \<and>
    from_slice x bs = Some (minted_artifact spec key_id (Some (sign x sk pre))) \<and>
    canonicalize_json_value (minted_artifact spec key_id None) = Ok pre"
proof -
  note u = minted_wf [OF ok, of None, simplified]
  from safe_canonicalizes [OF u(2,1)] obtain pre where pre: "canonicalize_json_value (minted_artifact spec key_id None) = Ok pre" by blast
  have "valid_str (sign x sk pre)" using sign_valid [OF x(1,2)] ok by (simp add: mintable_def)
  then have s: "json_wf (minted_artifact spec key_id (Some (sign x sk pre)))" "safe_json (minted_artifact spec key_id (Some (sign x sk pre))) 0"
    using minted_wf [OF ok, of "Some (sign x sk pre)"] by simp_all
  from safe_canonicalizes [OF s(2,1)] obtain bs where
    bs: "canonicalize_json_value (minted_artifact spec key_id (Some (sign x sk pre))) = Ok bs" by blast
  have "\<not> list_ex (\<lambda>op. op_tool op = []) (sp_operations spec)" using ok by (auto simp: mintable_def list_ex_iff list_all_iff)
  then have "mint_reference_grant x spec sk key_id = Ok bs"
    by (simp only: mint_reference_grant_def unsigned_artifact_members sign_minted pre bs map_err.simps and_then.simps if_False)
  then show ?thesis using canonical_bytes_read [OF x(3) s(1) bs] canonical_byte_list [OF bs s(1)] pre by blast
qed

lemma minted_issuer_signed:
  assumes "base64_documented x" "ed25519_documented x" "mintable spec sk key_id"
    and "canonicalize_json_value (minted_artifact spec key_id None) = Ok pre"
    and "resolve (sp_issuer spec) key_id = Ok (public_key x sk)"
  shows "issuer_signed x resolve (minted_artifact spec key_id (Some (sign x sk pre))) (minted_grant spec key_id (sign x sk pre))"
proof -
  have "\<exists>ms. json_get (minted_artifact spec key_id (Some (sign x sk pre))) (lit ''signature'') = Some (Obj ms)"
    by (simp add: minted_artifact_def ser_signature_block_def)
  then show ?thesis
    unfolding issuer_signed_def strip_minted using assms(4,5) sign_verify [OF assms(1,2)] assms(3)
    by (simp add: minted_grant_def verify_ed25519_def mintable_def)
qed

lemma minted_tools: "mintable spec sk key_id \<Longrightarrow> [] \<notin> g_tool ` set (rg_grants (minted_grant spec key_id s))"
  by (auto simp: minted_grant_def mintable_def list_all_iff)

section \<open>Properties\<close>

text \<open>
  C27: the policy layer allows exactly what a trusted issuer granted: with the reference profile
  registered, a verified request is allowed if and only if it carries an artifact whose canonical
  bytes are the ones the request signature is bound to, signed by a resolved issuer key, granted to
  this signer, for this principal and this audience, inside its window, affirmatively not revoked,
  without a blank target and with a grant for the method, the target and the arguments of the
  request.
\<close>

theorem reference_allows_exactly:
  "evaluate x (register (reference_profile x) evaluator_new) verified request resolve revocation now = Allow \<longleftrightarrow>
     (\<exists>block bs canon artifact grant. extract_authorization_block request = Ok block \<and>
        ab_profile block = REFERENCE_PROFILE_ID \<and> base64_decode x (ab_artifact_b64url block) = Some bs \<and>
        canonicalize bs = Ok canon \<and> binds_artifact x (vr_authorization verified) canon \<and>
        from_slice x canon = Some artifact \<and> de_reference_grant artifact = Ok grant \<and>
        issuer_signed x resolve artifact grant \<and>
        rg_grantee grant = vr_signer verified \<and> rg_subject grant = vr_on_behalf_of verified \<and>
        rg_audience grant = vr_audience verified \<and> in_window grant now \<and>
        revocation (rg_revocation_id grant) = Ok StatusNotRevoked \<and> [] \<notin> g_tool ` set (rg_grants grant) \<and>
        (\<exists>g \<in> set (rg_grants grant). permits (g_method g) (g_tool g) (g_arguments g) request))"
  unfolding evaluate_reference_Allow by (simp add: reference_evaluate_inner_Ok cong: conj_cong)


definition sample_spec :: reference_grant_spec where
  "sample_spec = \<lparr>sp_issuer = lit ''did:i'', sp_grantee = lit ''did:a'', sp_subject = lit ''did:u'', sp_audience = lit ''did:s'',
     sp_operations = [\<lparr>op_method = lit ''tools/call'', op_tool = lit ''echo'', op_arguments = None\<rparr>],
     sp_not_before = unix_to_rfc3339_utc 1000, sp_expires_at = unix_to_rfc3339_utc 1300, sp_revocation_id = lit ''r''\<rparr>"

definition sample_call :: "ustring \<Rightarrow> json" where
  "sample_call artifact = Obj [(lit ''method'', Str (lit ''tools/call'')), (lit ''params'', Obj [
     (lit ''_meta'', Obj [(AUTHORIZATION_META_KEY, Obj [(lit ''artifact'', Str artifact), (lit ''profile'', Str REFERENCE_PROFILE_ID)])]),
     (lit ''name'', Str (lit ''echo''))])]"

definition sample_verdict :: "verified_authorization \<Rightarrow> verified_request" where
  "sample_verdict authorization = \<lparr>vr_signer = lit ''did:a'', vr_key_id = lit ''k1'', vr_on_behalf_of = lit ''did:u'',
     vr_audience = lit ''did:s'', vr_authorization = authorization, vr_request_hash = lit ''sha256:h'', vr_nonce = lit ''n'',
     vr_issued_at = unix_to_rfc3339_utc 1000, vr_expires_at = unix_to_rfc3339_utc 1300, vr_canonicalization_id = None\<rparr>"


end
