(* ===== verification/Transport.thy ===== *)
theory Transport
  imports Crypto
begin

text \<open>
  \<open>mcps-proxy/src/transport.rs\<close>: the transport identity of a request and its binding to the
  verified signer. The identity comes from a header a trusted ingress sets (plain, or Envoy's XFCC
  syntax with RFC 2253 subjects), or from an assertion the load balancer signed for the request at
  hand. Every defect of either yields no identity.
\<close>

section \<open>Operations of Rust strings\<close>

definition is_whitespace :: "uchar \<Rightarrow> bool" where
  "is_whitespace c \<longleftrightarrow> 9 \<le> c \<and> c \<le> 13 \<or> c = 32 \<or> c = 0x85 \<or> c = 0xA0 \<or> c = 0x1680 \<or>
     0x2000 \<le> c \<and> c \<le> 0x200A \<or> c = 0x2028 \<or> c = 0x2029 \<or> c = 0x202F \<or> c = 0x205F \<or> c = 0x3000"

definition is_control :: "uchar \<Rightarrow> bool" where
  "is_control c \<longleftrightarrow> c < 32 \<or> 127 \<le> c \<and> c \<le> 159"

definition trim :: "ustring \<Rightarrow> ustring" where
  "trim s = rev (dropWhile is_whitespace (rev (dropWhile is_whitespace s)))"

definition to_ascii_lowercase :: "ustring \<Rightarrow> ustring" where
  "to_ascii_lowercase s = map (\<lambda>c. if 65 \<le> c \<and> c \<le> 90 then c + 32 else c) s"

definition split_once :: "uchar \<Rightarrow> ustring \<Rightarrow> (ustring \<times> ustring) option" where
  "split_once sep s =
     (case dropWhile (\<lambda>c. c \<noteq> sep) s of [] \<Rightarrow> None | _ # rest \<Rightarrow> Some (takeWhile (\<lambda>c. c \<noteq> sep) s, rest))"

fun split_char :: "uchar \<Rightarrow> ustring \<Rightarrow> ustring list" where
  "split_char sep [] = [[]]"
| "split_char sep (c # cs) =
     (if c = sep then [] # split_char sep cs
      else (c # hd (split_char sep cs)) # tl (split_char sep cs))"

definition strip_suffix :: "uchar \<Rightarrow> ustring \<Rightarrow> ustring option" where
  "strip_suffix c s = (if s \<noteq> [] \<and> last s = c then Some (butlast s) else None)"

definition text_lines :: "ustring \<Rightarrow> ustring list" where
  "text_lines s =
     (let ps = split_char 10 s in
      map (\<lambda>l. case strip_suffix 13 l of Some l' \<Rightarrow> l' | None \<Rightarrow> l) (butlast ps) @ (if last ps = [] then [] else [last ps]))"

section \<open>Identities and headers\<close>

datatype identity_source = SourceUriSan | SourceDnsSan | SourceCommonName

datatype identity_policy = UriSan | DnsSan | CnLegacy

record transport_identity =
  ti_value :: ustring
  ti_source :: identity_source

record request_headers =
  rh_headers :: "(ustring \<times> ustring) list"

definition headers_parse :: "ustring \<Rightarrow> request_headers" where
  "headers_parse header_block =
     \<lparr>rh_headers = List.map_filter (\<lambda>(index, line).
        if index = 0 \<or> trim line = [] then None
        else map_option (\<lambda>(name, val). (to_ascii_lowercase (trim name), trim val)) (split_once 58 line))
       (enumerate 0 (text_lines header_block))\<rparr>"

definition from_pairs :: "(ustring \<times> ustring) list \<Rightarrow> request_headers" where
  "from_pairs pairs = \<lparr>rh_headers = map (\<lambda>(name, val). (to_ascii_lowercase name, val)) pairs\<rparr>"

definition header_first :: "request_headers \<Rightarrow> ustring \<Rightarrow> ustring option" where
  "header_first h name = map_option snd (find (\<lambda>(n, _). n = to_ascii_lowercase name) (rh_headers h))"

definition header_count :: "request_headers \<Rightarrow> ustring \<Rightarrow> nat" where
  "header_count h name = length (filter (\<lambda>(n, _). n = to_ascii_lowercase name) (rh_headers h))"

section \<open>Asserted values\<close>

record static_identity_provider =
  sip_identity :: "transport_identity option"

definition static_verified_identity :: "static_identity_provider \<Rightarrow> request_headers \<Rightarrow> transport_identity option" where
  "static_verified_identity provider request = sip_identity provider"

definition MAX_ASSERTED_IDENTITY_LEN :: nat where
  "MAX_ASSERTED_IDENTITY_LEN = 8192"

datatype asserted_identity_rejection = RejectEmpty | RejectTooLong | RejectMalformed

definition validate_asserted_identity_value :: "ustring \<Rightarrow> asserted_identity_rejection + ustring" where
  "validate_asserted_identity_value val =
     (let trimmed = trim val in
      if trimmed = [] then Err RejectEmpty
      else if length (utf8 trimmed) > MAX_ASSERTED_IDENTITY_LEN then Err RejectTooLong
      else if list_ex is_control trimmed then Err RejectMalformed
      else Ok trimmed)"

definition MCP_METHOD_HEADER :: ustring where
  "MCP_METHOD_HEADER = lit ''mcp-method''"

definition MCP_NAME_HEADER :: ustring where
  "MCP_NAME_HEADER = lit ''mcp-name''"

datatype routing_header_rejection = RoutingDuplicate ustring | RoutingMalformed ustring

fun validate_routing :: "request_headers \<Rightarrow> ustring list \<Rightarrow> routing_header_rejection + unit" where
  "validate_routing h [] = Ok ()"
| "validate_routing h (header # rest) =
     (let n = header_count h header in
      if n = 0 then validate_routing h rest
      else if n = 1 then
        (case validate_asserted_identity_value (case header_first h header of Some v \<Rightarrow> v | None \<Rightarrow> []) of
           Inl _ \<Rightarrow> Err (RoutingMalformed header)
         | Inr _ \<Rightarrow> validate_routing h rest)
      else Err (RoutingDuplicate header))"

definition validate_routing_headers :: "request_headers \<Rightarrow> routing_header_rejection + unit" where
  "validate_routing_headers h = validate_routing h [MCP_METHOD_HEADER, MCP_NAME_HEADER]"

section \<open>XFCC and RFC 2253 syntax\<close>

text \<open>The scan over the characters carries whether it is inside quotes and the segment read so far;
  the segments are the slices between the separators that were found outside quotes.\<close>

fun split_scan :: "uchar \<Rightarrow> bool \<Rightarrow> ustring \<Rightarrow> ustring \<Rightarrow> ustring list \<times> bool" where
  "split_scan sep in_quotes cur [] = ([cur], in_quotes)"
| "split_scan sep in_quotes cur (c # cs) =
     (if c = 34 then split_scan sep (\<not> in_quotes) (cur @ [c]) cs
      else if c = sep \<and> \<not> in_quotes then
        (let (parts, q) = split_scan sep in_quotes [] cs in (cur # parts, q))
      else split_scan sep in_quotes (cur @ [c]) cs)"

definition split_outside_quotes :: "ustring \<Rightarrow> uchar \<Rightarrow> ustring list option" where
  "split_outside_quotes val sep =
     (let (parts, in_quotes) = split_scan sep False [] val in if in_quotes then None else Some parts)"

definition split_xfcc_elements :: "ustring \<Rightarrow> ustring list option" where
  "split_xfcc_elements val = split_outside_quotes val 44"

definition split_xfcc_element_pairs :: "ustring \<Rightarrow> ustring list option" where
  "split_xfcc_element_pairs element = split_outside_quotes element 59"

definition strip_optional_quotes :: "ustring \<Rightarrow> ustring" where
  "strip_optional_quotes val =
     (case Option.bind (strip_prefix [34] val) (strip_suffix 34) of Some inner \<Rightarrow> inner | None \<Rightarrow> val)"

fun unescaped_scan :: "uchar \<Rightarrow> bool \<Rightarrow> bool \<Rightarrow> ustring \<Rightarrow> ustring \<Rightarrow> ustring list" where
  "unescaped_scan sep in_quotes escaped cur [] = [cur]"
| "unescaped_scan sep in_quotes escaped cur (c # cs) =
     (if escaped then unescaped_scan sep in_quotes False (cur @ [c]) cs
      else if c = 92 then unescaped_scan sep in_quotes True (cur @ [c]) cs
      else if c = 34 then unescaped_scan sep (\<not> in_quotes) False (cur @ [c]) cs
      else if c = sep \<and> \<not> in_quotes then cur # unescaped_scan sep in_quotes False [] cs
      else unescaped_scan sep in_quotes False (cur @ [c]) cs)"

definition split_unescaped :: "ustring \<Rightarrow> uchar \<Rightarrow> ustring list" where
  "split_unescaped input sep = unescaped_scan sep False False [] input"

definition hex_digit_value :: "byte \<Rightarrow> nat option" where
  "hex_digit_value b =
     (if 48 \<le> b \<and> b \<le> 57 then Some (b - 48)
      else if 65 \<le> b \<and> b \<le> 70 then Some (b - 55)
      else if 97 \<le> b \<and> b \<le> 102 then Some (b - 87) else None)"

fun unescape_bytes :: "bytes \<Rightarrow> bytes option" where
  "unescape_bytes [] = Some []"
| "unescape_bytes (b # bs) =
     (if b \<noteq> 92 then map_option ((#) b) (unescape_bytes bs)
      else case bs of
        [] \<Rightarrow> None
      | [next] \<Rightarrow> Some [next]
      | next # after # rest \<Rightarrow>
          (case (hex_digit_value next, hex_digit_value after) of
             (Some hi, Some lo) \<Rightarrow> map_option ((#) (hi * 16 + lo)) (unescape_bytes rest)
           | _ \<Rightarrow> map_option ((#) next) (unescape_bytes (after # rest))))"

definition unescape_rfc2253_value :: "ustring \<Rightarrow> ustring option" where
  "unescape_rfc2253_value val = Option.bind (unescape_bytes (utf8 (strip_optional_quotes val))) from_utf8"

text \<open>The first attribute whose type is \<open>CN\<close> decides.\<close>

fun first_common_name :: "ustring list \<Rightarrow> ustring option option" where
  "first_common_name [] = None"
| "first_common_name (attr # attrs) =
     (case split_once 61 attr of
        None \<Rightarrow> first_common_name attrs
      | Some (attr_type, attr_value) \<Rightarrow>
          if to_ascii_lowercase (trim attr_type) = lit ''cn'' then Some (unescape_rfc2253_value (trim attr_value))
          else first_common_name attrs)"

fun common_name_of_rdns :: "ustring list \<Rightarrow> ustring option" where
  "common_name_of_rdns [] = None"
| "common_name_of_rdns (rdn # rdns) =
     (case first_common_name (split_unescaped rdn 43) of
        Some r \<Rightarrow> r
      | None \<Rightarrow> common_name_of_rdns rdns)"

definition common_name_from_rfc2253 :: "ustring \<Rightarrow> ustring option" where
  "common_name_from_rfc2253 dn = common_name_of_rdns (split_unescaped dn 44)"

section \<open>The reverse-proxy provider\<close>

datatype reverse_proxy_header_format = Plain | Xfcc

record reverse_proxy_mtls_provider =
  rp_header_name :: ustring
  rp_format :: reverse_proxy_header_format
  rp_policy :: identity_policy

primrec policy_source :: "identity_policy \<Rightarrow> identity_source" where
  "policy_source UriSan = SourceUriSan"
| "policy_source DnsSan = SourceDnsSan"
| "policy_source CnLegacy = SourceCommonName"

definition asserted_identity :: "identity_policy \<Rightarrow> ustring \<Rightarrow> transport_identity option" where
  "asserted_identity policy val =
     (case validate_asserted_identity_value val of
        Inl _ \<Rightarrow> None
      | Inr validated \<Rightarrow> Some \<lparr>ti_value = validated, ti_source = policy_source policy\<rparr>)"

definition parse_plain :: "reverse_proxy_mtls_provider \<Rightarrow> ustring \<Rightarrow> transport_identity option" where
  "parse_plain p val = asserted_identity (rp_policy p) val"

primrec wanted_keys :: "identity_policy \<Rightarrow> ustring list" where
  "wanted_keys UriSan = [lit ''uri'']"
| "wanted_keys DnsSan = [lit ''dns'']"
| "wanted_keys CnLegacy = [lit ''subject'', lit ''cn'']"

definition extract_pair :: "ustring \<Rightarrow> ustring \<Rightarrow> ustring option" where
  "extract_pair key raw_value =
     (let stripped = strip_optional_quotes (trim raw_value) in
      if key = lit ''subject'' then common_name_from_rfc2253 stripped else Some stripped)"

text \<open>The outer \<open>None\<close> is the early return without an identity.\<close>

fun scan_pairs :: "ustring list \<Rightarrow> ustring list \<Rightarrow> ustring option \<Rightarrow> ustring option option" where
  "scan_pairs wanted [] found = Some found"
| "scan_pairs wanted (pair # pairs) found =
     (case split_once 61 pair of
        None \<Rightarrow> scan_pairs wanted pairs found
      | Some (raw_key, raw_value) \<Rightarrow>
          (let key = to_ascii_lowercase (trim raw_key) in
           if key \<notin> set wanted then scan_pairs wanted pairs found
           else case extract_pair key raw_value of
             None \<Rightarrow> None
           | Some extracted \<Rightarrow>
               if extracted = [] then None
               else case found of
                 Some existing \<Rightarrow> if existing \<noteq> extracted then None else scan_pairs wanted pairs found
               | None \<Rightarrow> scan_pairs wanted pairs (Some extracted)))"

fun scan_elements :: "ustring list \<Rightarrow> ustring list \<Rightarrow> ustring option \<Rightarrow> ustring option option" where
  "scan_elements wanted [] found = Some found"
| "scan_elements wanted (element # elements) found =
     (case split_xfcc_element_pairs element of
        None \<Rightarrow> None
      | Some pairs \<Rightarrow>
          (case scan_pairs wanted pairs found of
             None \<Rightarrow> None
           | Some found' \<Rightarrow> scan_elements wanted elements found'))"

definition parse_xfcc :: "reverse_proxy_mtls_provider \<Rightarrow> ustring \<Rightarrow> transport_identity option" where
  "parse_xfcc p val =
     (case split_xfcc_elements val of
        None \<Rightarrow> None
      | Some elements \<Rightarrow>
          (case scan_elements (wanted_keys (rp_policy p)) elements None of
             Some (Some found) \<Rightarrow> asserted_identity (rp_policy p) found
           | _ \<Rightarrow> None))"

definition verified_identity :: "reverse_proxy_mtls_provider \<Rightarrow> request_headers \<Rightarrow> transport_identity option" where
  "verified_identity p request =
     (if header_count request (rp_header_name p) \<noteq> 1 then None
      else case header_first request (rp_header_name p) of
        None \<Rightarrow> None
      | Some val \<Rightarrow> (case rp_format p of Plain \<Rightarrow> parse_plain p val | Xfcc \<Rightarrow> parse_xfcc p val))"

section \<open>Binding the signer\<close>

type_synonym binding_fn = "ustring \<Rightarrow> transport_identity option \<Rightarrow> unit mcps_result"

definition exact_match_check :: binding_fn where
  "exact_match_check signer identity =
     (case identity of
        Some i \<Rightarrow> if ti_value i = signer then Ok () else Err TransportBindingFailed
      | None \<Rightarrow> Err TransportBindingFailed)"

record mapped_binding =
  mb_allowed :: "ustring \<rightharpoonup> ustring set"

definition mapped_new :: mapped_binding where
  "mapped_new = \<lparr>mb_allowed = Map.empty\<rparr>"

definition permit :: "ustring \<Rightarrow> ustring \<Rightarrow> mapped_binding \<Rightarrow> mapped_binding" where
  "permit signer identity m =
     m\<lparr>mb_allowed := (mb_allowed m)(signer \<mapsto>
       {identity} \<union> (case mb_allowed m signer of Some s \<Rightarrow> s | None \<Rightarrow> {}))\<rparr>"

definition mapped_check :: "mapped_binding \<Rightarrow> binding_fn" where
  "mapped_check m signer identity =
     and_then (ok_or TransportBindingFailed identity) (\<lambda>i.
       case mb_allowed m signer of
         Some s \<Rightarrow> if ti_value i \<in> s then Ok () else Err TransportBindingFailed
       | None \<Rightarrow> Err TransportBindingFailed)"

section \<open>Load-balancer assertions\<close>

definition LB_ASSERTION_DOMAIN_TAG :: bytes where
  "LB_ASSERTION_DOMAIN_TAG = lit ''mcps/lb-ingress-assertion/v1''"

definition DEFAULT_LB_ASSERTION_MAX_AGE_SECS :: int where
  "DEFAULT_LB_ASSERTION_MAX_AGE_SECS = 30"

record lb_assertion =
  la_key_id :: ustring
  la_identity :: ustring
  la_request_hash :: ustring
  la_validation_time :: int

text \<open>\<open>u64::to_be_bytes\<close>, and \<open>i64::to_be_bytes\<close> with its inverse, in two's complement.\<close>

definition be_bytes :: "nat \<Rightarrow> bytes" where
  "be_bytes n = map (\<lambda>i. n div 256 ^ (7 - i) mod 256) [0..<8]"

definition i64_to_be_bytes :: "int \<Rightarrow> bytes" where
  "i64_to_be_bytes t = be_bytes (nat (t mod 2 ^ 64))"

definition i64_from_be_bytes :: "bytes \<Rightarrow> int" where
  "i64_from_be_bytes bs =
     (let u = int (foldl (\<lambda>n b. n * 256 + b) 0 bs) in if u < 2 ^ 63 then u else u - 2 ^ 64)"

definition framed :: "ustring \<Rightarrow> bytes" where
  "framed field = be_bytes (length (utf8 field)) @ utf8 field"

definition lb_signing_preimage :: "lb_assertion \<Rightarrow> bytes" where
  "lb_signing_preimage a =
     LB_ASSERTION_DOMAIN_TAG @ framed (la_key_id a) @ framed (la_identity a) @ framed (la_request_hash a) @
     i64_to_be_bytes (la_validation_time a)"

record lb_key_entry =
  lk_key_id :: ustring
  lk_key :: verification_key

record lb_assertion_binding =
  lb_keys :: "lb_key_entry list"
  lb_source :: identity_source
  lb_max_age_secs :: int

datatype lb_assertion_rejection = LbMalformed | LbUnknownKeyId | LbBadSignature | LbRequestHashMismatch | LbStale

definition lb_new :: "identity_source \<Rightarrow> lb_assertion_binding" where
  "lb_new source = \<lparr>lb_keys = [], lb_source = source, lb_max_age_secs = DEFAULT_LB_ASSERTION_MAX_AGE_SECS\<rparr>"

definition with_max_age_secs :: "int \<Rightarrow> lb_assertion_binding \<Rightarrow> lb_assertion_binding" where
  "with_max_age_secs max_age lb = lb\<lparr>lb_max_age_secs := max_age\<rparr>"

definition add_key :: "ustring \<Rightarrow> verification_key \<Rightarrow> lb_assertion_binding \<Rightarrow> lb_assertion_binding" where
  "add_key key_id key lb =
     lb\<lparr>lb_keys := filter (\<lambda>entry. lk_key_id entry \<noteq> key_id) (lb_keys lb) @ [\<lparr>lk_key_id = key_id, lk_key = key\<rparr>]\<rparr>"

definition key_for :: "lb_assertion_binding \<Rightarrow> ustring \<Rightarrow> verification_key option" where
  "key_for lb key_id = map_option lk_key (find (\<lambda>entry. lk_key_id entry = key_id) (lb_keys lb))"

definition decode_b64url_field :: "ext \<Rightarrow> ustring \<Rightarrow> lb_assertion_rejection + ustring" where
  "decode_b64url_field x field =
     and_then (map_err (\<lambda>_. LbMalformed) (b64url_decode x field)) (\<lambda>bs. ok_or LbMalformed (from_utf8 bs))"

definition lb_parse :: "ext \<Rightarrow> ustring \<Rightarrow> lb_assertion_rejection + lb_assertion \<times> ustring" where
  "lb_parse x val =
     (let trimmed = trim val in
      if trimmed = [] \<or> length (utf8 trimmed) > MAX_ASSERTED_IDENTITY_LEN then Err LbMalformed
      else case split_char 46 trimmed of
        [p0, p1, p2, p3, p4] \<Rightarrow>
          and_then (decode_b64url_field x p0) (\<lambda>key_id.
          and_then (decode_b64url_field x p1) (\<lambda>identity.
          and_then (decode_b64url_field x p2) (\<lambda>request_hash.
          and_then (map_err (\<lambda>_. LbMalformed) (b64url_decode x p3)) (\<lambda>time_bytes.
          and_then (require (length time_bytes = 8) LbMalformed) (\<lambda>_.
          and_then (require (p4 \<noteq> []) LbMalformed) (\<lambda>_.
          and_then (map_err (\<lambda>_. LbMalformed) (validate_asserted_identity_value identity)) (\<lambda>_.
          and_then (require (\<not> (key_id = [] \<or> request_hash = [] \<or> list_ex is_control key_id \<or> list_ex is_control request_hash))
             LbMalformed) (\<lambda>_.
            Ok (\<lparr>la_key_id = key_id, la_identity = identity, la_request_hash = request_hash,
                la_validation_time = i64_from_be_bytes time_bytes\<rparr>, p4)))))))))
      | _ \<Rightarrow> Err LbMalformed)"

definition lb_verify ::
    "ext \<Rightarrow> lb_assertion_binding \<Rightarrow> ustring \<Rightarrow> ustring \<Rightarrow> int \<Rightarrow> lb_assertion_rejection + transport_identity" where
  "lb_verify x lb assertion_value in_hand_request_hash now_unix =
     and_then (lb_parse x assertion_value) (\<lambda>(assertion, signature_b64url).
     and_then (ok_or LbUnknownKeyId (key_for lb (la_key_id assertion))) (\<lambda>key.
     and_then (map_err (\<lambda>_. LbBadSignature)
        (verify_ed25519_with x (lb_signing_preimage assertion) signature_b64url key TransportBindingFailed)) (\<lambda>_.
     and_then (map_err (\<lambda>_. LbRequestHashMismatch) (parse_hash_id x (la_request_hash assertion))) (\<lambda>bound.
     and_then (map_err (\<lambda>_. LbRequestHashMismatch) (parse_hash_id x in_hand_request_hash)) (\<lambda>in_hand.
       if bound \<noteq> in_hand then Err LbRequestHashMismatch
       else
         (let age = saturating_sub now_unix (la_validation_time assertion) in
          if age > lb_max_age_secs lb \<or> age < - lb_max_age_secs lb then Err LbStale
          else Ok \<lparr>ti_value = la_identity assertion, ti_source = lb_source lb\<rparr>))))))"

section \<open>Values and headers\<close>

lemma trim_trim [simp]: "trim (trim s) = trim s"
proof -
  have d: "dropWhile P (dropWhile P xs) = dropWhile P xs" for P and xs :: ustring
    by (induction xs) auto
  have r: "dropWhile P (rev (dropWhile P (rev xs))) = rev (dropWhile P (rev xs))"
    if "dropWhile P xs = xs" for P and xs :: ustring
  proof -
    have "suffix (dropWhile P (rev xs)) (rev xs)" by (rule suffix_dropWhile)
    then have pre: "prefix (rev (dropWhile P (rev xs))) xs" by (simp add: suffix_to_prefix)
    show ?thesis
    proof (cases "rev (dropWhile P (rev xs))")
      case (Cons y ys)
      then have "xs \<noteq> [] \<and> hd xs = y" using pre by (cases xs) auto
      then have "\<not> P y" using that by (metis dropWhile_eq_self_iff)
      then show ?thesis using Cons by simp
    next
      case Nil
      show ?thesis unfolding Nil by simp
    qed
  qed
  show ?thesis unfolding trim_def using r [OF d [of is_whitespace s]] by (simp add: d)
qed

lemma validate_Ok:
  "validate_asserted_identity_value val = Ok v \<longleftrightarrow>
     v = trim val \<and> v \<noteq> [] \<and> length (utf8 v) \<le> MAX_ASSERTED_IDENTITY_LEN \<and> list_all (\<lambda>c. \<not> is_control c) v"
  by (auto simp: validate_asserted_identity_value_def Let_def list_ex_iff list_all_iff not_less)

lemma asserted_identity_Some:
  "asserted_identity policy val = Some i \<longleftrightarrow>
     i = \<lparr>ti_value = trim val, ti_source = policy_source policy\<rparr> \<and> trim val \<noteq> [] \<and>
     length (utf8 (trim val)) \<le> MAX_ASSERTED_IDENTITY_LEN \<and> list_all (\<lambda>c. \<not> is_control c) (trim val)"
  by (auto simp: asserted_identity_def validate_Ok split: sum.split_asm)
    (metis (mono_tags, lifting) validate_Ok sum.case(2))

section \<open>Splitting\<close>

text \<open>Splitting loses nothing: joined with the separator, the parts are the value again.\<close>

fun join :: "uchar \<Rightarrow> ustring list \<Rightarrow> ustring" where
  "join sep [] = []"
| "join sep [p] = p"
| "join sep (p # q # ps) = p @ sep # join sep (q # ps)"

lemma join_Cons: "ps \<noteq> [] \<Longrightarrow> join sep (p # ps) = p @ sep # join sep ps"
  by (cases ps) auto

lemma split_scan_join: "join sep (fst (split_scan sep q cur cs)) = cur @ cs \<and> fst (split_scan sep q cur cs) \<noteq> []"
  by (induction sep q cur cs rule: split_scan.induct) (auto simp: split_def Let_def join_Cons)

lemma split_outside_quotes_join: "split_outside_quotes val sep = Some ps \<Longrightarrow> join sep ps = val \<and> ps \<noteq> []"
  using split_scan_join [of sep False "[]" val]
  by (auto simp: split_outside_quotes_def split_def Let_def split: if_split_asm)

text \<open>Inside a part the separator only occurs between quotes. The scan is at a quoted position when
  the number of quotes before it is odd.\<close>

definition quotes :: "ustring \<Rightarrow> nat" where
  "quotes s = count_list s 34"

definition separator_free :: "uchar \<Rightarrow> ustring \<Rightarrow> bool" where
  "separator_free sep s \<longleftrightarrow> (\<forall>u v. s = u @ sep # v \<longrightarrow> odd (quotes u))"

lemma separator_free_snoc:
  "separator_free sep s \<Longrightarrow> c \<noteq> sep \<or> odd (quotes s) \<Longrightarrow> separator_free sep (s @ [c])"
  unfolding separator_free_def
proof (intro allI impI)
  fix u v assume s: "\<forall>u v. s = u @ sep # v \<longrightarrow> odd (quotes u)" and c: "c \<noteq> sep \<or> odd (quotes s)"
    and e: "s @ [c] = u @ sep # v"
  show "odd (quotes u)"
  proof (cases v rule: rev_cases)
    case Nil
    then show ?thesis using e c by simp
  next
    case (snoc v' d)
    then have "s = u @ sep # v'" using e by simp
    then show ?thesis using s by blast
  qed
qed

lemma split_scan_parts:
  assumes "sep \<noteq> 34" "separator_free sep cur" "q \<longleftrightarrow> odd (quotes cur)"
  shows "split_scan sep q cur cs = (ps, q') \<Longrightarrow>
    (\<forall>p \<in> set ps. separator_free sep p) \<and> (\<forall>p \<in> set (butlast ps). even (quotes p)) \<and> (q' \<longleftrightarrow> odd (quotes (last ps)))"
  using assms
proof (induction sep q cur cs arbitrary: ps rule: split_scan.induct)
  case (2 sep q cur c cs)
  note sf = separator_free_snoc [OF "2.prems"(3)]
  consider "c = 34" | "c \<noteq> 34" "c = sep \<and> \<not> q" | "c \<noteq> 34" "\<not> (c = sep \<and> \<not> q)" by blast
  then show ?case
  proof cases
    case 1
    have s: "split_scan sep (\<not> q) (cur @ [c]) cs = (ps, q')" using "2.prems"(1) 1 by simp
    have "separator_free sep (cur @ [c])" "(\<not> q) \<longleftrightarrow> odd (quotes (cur @ [c]))"
      using sf [of c] "2.prems"(2,4) 1 by (simp_all add: quotes_def)
    then show ?thesis using "2.IH"(1) [OF 1 s "2.prems"(2)] by blast
  next
    case c: 2
    obtain ps' where ps': "split_scan sep q [] cs = (ps', q')" "ps = cur # ps'"
      using "2.prems"(1) c by (cases "split_scan sep q [] cs") (simp add: Let_def)
    have "ps' \<noteq> []" using split_scan_join [of sep q "[]" cs] ps'(1) by simp
    moreover have "separator_free sep []" "q \<longleftrightarrow> odd (quotes [])" using c(2) by (simp_all add: separator_free_def quotes_def)
    then have "(\<forall>p \<in> set ps'. separator_free sep p) \<and> (\<forall>p \<in> set (butlast ps'). even (quotes p)) \<and> (q' \<longleftrightarrow> odd (quotes (last ps')))"
      using "2.IH"(2) [OF c ps'(1) "2.prems"(2)] by blast
    ultimately show ?thesis using ps'(2) "2.prems"(3,4) c(2) by simp
  next
    case 3
    have s: "split_scan sep q (cur @ [c]) cs = (ps, q')" using "2.prems"(1) 3 by simp
    have "separator_free sep (cur @ [c])" "q \<longleftrightarrow> odd (quotes (cur @ [c]))"
      using sf [of c] "2.prems"(2,4) 3 by (auto simp add: quotes_def)
    then show ?thesis using "2.IH"(3) [OF 3 s "2.prems"(2)] by blast
  qed
qed auto

lemma split_outside_quotes_parts:
  assumes "sep \<noteq> 34" "split_outside_quotes val sep = Some ps" "p \<in> set ps"
  shows "separator_free sep p" "even (quotes p)"
proof -
  obtain ps' q where s: "split_scan sep False [] val = (ps', q)" by fastforce
  have *: "\<not> q" "ps' = ps" using assms(2) s by (auto simp: split_outside_quotes_def split: if_split_asm)
  note f = split_scan_parts [OF assms(1) _ _ s]
  show "separator_free sep p" using f assms(3) * by (simp add: separator_free_def quotes_def)
  have "ps \<noteq> []" using split_scan_join [of sep False "[]" val] s * by simp
  then have "p \<in> set (butlast ps) \<or> p = last ps" using assms(3) by (cases ps rule: rev_cases) auto
  then show "even (quotes p)" using f * by (auto simp: separator_free_def quotes_def)
qed

section \<open>XFCC\<close>

text \<open>The values of the selected field, over all pairs of all elements.\<close>

definition pair_values :: "ustring list \<Rightarrow> ustring \<Rightarrow> ustring option list" where
  "pair_values wanted pair =
     (case split_once 61 pair of
        Some (k, raw) \<Rightarrow> if to_ascii_lowercase (trim k) \<in> set wanted then [extract_pair (to_ascii_lowercase (trim k)) raw] else []
      | None \<Rightarrow> [])"

definition element_values :: "ustring list \<Rightarrow> ustring \<Rightarrow> ustring option list" where
  "element_values wanted element =
     (case split_xfcc_element_pairs element of Some pairs \<Rightarrow> concat (map (pair_values wanted) pairs) | None \<Rightarrow> [None])"

definition xfcc_values :: "identity_policy \<Rightarrow> ustring list \<Rightarrow> ustring option list" where
  "xfcc_values policy elements = concat (map (element_values (wanted_keys policy)) elements)"

text \<open>All values agree with the one found before, if any.\<close>

fun agree :: "ustring option list \<Rightarrow> ustring option \<Rightarrow> ustring option option" where
  "agree [] found = Some found"
| "agree (None # vs) found = None"
| "agree (Some v # vs) found =
     (if v = [] then None
      else case found of Some e \<Rightarrow> if e \<noteq> v then None else agree vs found | None \<Rightarrow> agree vs (Some v))"

lemma agree_append: "agree (vs @ ws) found = Option.bind (agree vs found) (agree ws)"
  by (induction vs found rule: agree.induct) (auto split: option.split)

lemma scan_pairs_agree: "scan_pairs wanted pairs found = agree (concat (map (pair_values wanted) pairs)) found"
  by (induction wanted pairs found rule: scan_pairs.induct)
    (auto simp: pair_values_def Let_def split: option.split)

lemma scan_elements_agree: "scan_elements wanted els found = agree (concat (map (element_values wanted) els)) found"
  by (induction wanted els found rule: scan_elements.induct)
    (auto simp: element_values_def scan_pairs_agree agree_append split: option.split)

lemma agree_Some: "agree vs (Some e) = Some r \<longleftrightarrow> r = Some e \<and> set vs \<subseteq> {Some e} \<and> (vs \<noteq> [] \<longrightarrow> e \<noteq> [])"
proof (induction vs)
  case (Cons v vs)
  then show ?case by (cases v) auto
qed auto

lemma agree_found: "agree vs None = Some (Some e) \<longleftrightarrow> set vs = {Some e} \<and> e \<noteq> []"
proof (cases vs)
  case (Cons v ws)
  show ?thesis
  proof (cases v)
    case (Some w)
    then show ?thesis using Cons by (auto simp: agree_Some)
  qed (use Cons in auto)
qed simp

lemma parse_xfcc_Some:
  "parse_xfcc p val = Some i \<longleftrightarrow>
     (\<exists>els v. split_xfcc_elements val = Some els \<and> set (xfcc_values (rp_policy p) els) = {Some v} \<and> v \<noteq> [] \<and>
        asserted_identity (rp_policy p) v = Some i)"
proof (cases "split_xfcc_elements val")
  case (Some els)
  have *: "agree (xfcc_values (rp_policy p) els) None = Some (Some e) \<longleftrightarrow> set (xfcc_values (rp_policy p) els) = {Some e} \<and> e \<noteq> []" for e
    by (rule agree_found)
  show ?thesis
    unfolding parse_xfcc_def scan_elements_agree Some option.simps xfcc_values_def [symmetric]
    by (cases "agree (xfcc_values (rp_policy p) els) None") (use * in \<open>auto simp: Some split: option.split\<close>)
qed (simp add: parse_xfcc_def)

section \<open>Distinguished names\<close>

text \<open>How RFC 2253 prints a name: attributes joined by \<open>+\<close>, relative names joined by \<open>,\<close>, and a
  backslash before each special character of a value.\<close>

definition special :: "uchar \<Rightarrow> bool" where
  "special c \<longleftrightarrow> c \<in> {44, 43, 34, 92, 60, 62, 59, 61}"

fun escape_value :: "ustring \<Rightarrow> ustring" where
  "escape_value [] = []"
| "escape_value (c # cs) = (if special c then [92, c] else [c]) @ escape_value cs"

definition print_attr :: "ustring \<times> ustring \<Rightarrow> ustring" where
  "print_attr a = fst a @ 61 # escape_value (snd a)"

definition print_dn :: "(ustring \<times> ustring) list list \<Rightarrow> ustring" where
  "print_dn rdns = join 44 (map (\<lambda>rdn. join 43 (map print_attr rdn)) rdns)"

definition attr_ok :: "ustring \<times> ustring \<Rightarrow> bool" where
  "attr_ok a \<longleftrightarrow> list_all (\<lambda>c. \<not> special c) (fst a) \<and> trim (fst a) = fst a \<and>
     valid_str (snd a) \<and> trim (snd a) = snd a"

text \<open>A text the scan for a separator passes over.\<close>

definition passes :: "uchar \<Rightarrow> ustring \<Rightarrow> bool" where
  "passes sep t \<longleftrightarrow> (\<forall>cur rest. unescaped_scan sep False False cur (t @ rest) = unescaped_scan sep False False (cur @ t) rest)"

lemma passes_Nil: "passes sep []"
  by (simp add: passes_def)

lemma passes_append: "passes sep s \<Longrightarrow> passes sep t \<Longrightarrow> passes sep (s @ t)"
  by (simp add: passes_def)

lemma passes_char: "c \<noteq> 92 \<Longrightarrow> c \<noteq> 34 \<Longrightarrow> c \<noteq> sep \<Longrightarrow> passes sep [c]"
  by (simp add: passes_def)

lemma passes_plain: "list_all (\<lambda>c. \<not> special c) t \<Longrightarrow> special sep \<Longrightarrow> passes sep t"
proof (induction t)
  case (Cons c t)
  then have "passes sep [c]" by (intro passes_char) (auto simp: special_def)
  then show ?case using Cons passes_append [of sep "[c]" t] by simp
qed (rule passes_Nil)

lemma passes_escaped: "special sep \<Longrightarrow> passes sep (escape_value v)"
proof (induction v)
  case (Cons c v)
  have "passes sep (if special c then [92, c] else [c])"
    using Cons.prems passes_char [of c sep] by (auto simp: passes_def special_def)
  then show ?case using Cons by (simp add: passes_append)
qed (simp add: passes_Nil)

lemma passes_attr:
  assumes "attr_ok a" "special sep" "sep \<noteq> 61"
  shows "passes sep (print_attr a)"
proof -
  have "passes sep ([61] @ escape_value (snd a))"
    by (intro passes_append passes_char passes_escaped assms(2)) (use assms(3) in auto)
  then show ?thesis
    unfolding print_attr_def using passes_append [OF passes_plain, of "fst a"] assms by (auto simp: attr_ok_def)
qed

lemma passes_join: "list_all (passes sep) ps \<Longrightarrow> passes sep [c] \<Longrightarrow> passes sep (join c ps)"
proof (induction c ps rule: join.induct)
  case (3 c p q ps)
  then have "passes sep (p @ [c] @ join c (q # ps))" by (intro passes_append) auto
  then show ?case by simp
qed (auto simp: passes_Nil)

lemma split_unescaped_join:
  assumes "list_all (passes sep) ps" "ps \<noteq> []" "sep \<noteq> 92" "sep \<noteq> 34"
  shows "split_unescaped (join sep ps) sep = ps"
proof -
  have "unescaped_scan sep False False cur (join sep ps) = (cur @ hd ps) # tl ps" for cur
    using assms(1,2)
  proof (induction ps arbitrary: cur)
    case outer: (Cons p ps)
    have p: "unescaped_scan sep False False cur (p @ rest) = unescaped_scan sep False False (cur @ p) rest" for rest
      using outer.prems(1) unfolding passes_def by simp
    show ?case
    proof (cases ps)
      case Nil
      then show ?thesis using p [of "[]"] by simp
    next
      case (Cons q qs)
      then show ?thesis using p [of "sep # join sep ps"] outer assms(3,4) by (simp add: join_Cons)
    qed
  qed simp
  from this [of "[]"] show ?thesis using assms(2) by (simp add: split_unescaped_def)
qed

lemma trim_id: "trim s = s \<longleftrightarrow> s = [] \<or> \<not> is_whitespace (hd s) \<and> \<not> is_whitespace (last s)"
proof (cases "s = []")
  case False
  have l: "length (trim s) \<le> length (dropWhile is_whitespace s)"
    unfolding trim_def using length_dropWhile_le [of is_whitespace "rev (dropWhile is_whitespace s)"] by simp
  have "is_whitespace (hd s) \<Longrightarrow> length (dropWhile is_whitespace s) < length s"
    using False by (cases s) (simp_all add: le_imp_less_Suc length_dropWhile_le)
  then have h: "trim s = s \<Longrightarrow> \<not> is_whitespace (hd s)" using l by fastforce
  have "trim s = rev (dropWhile is_whitespace (rev s))" if "\<not> is_whitespace (hd s)"
    using that False by (cases s) (simp_all add: trim_def)
  moreover have "rev (dropWhile is_whitespace (rev s)) = s \<longleftrightarrow> \<not> is_whitespace (last s)"
    using False dropWhile_eq_self_iff [of is_whitespace "rev s"] by (metis hd_rev rev_is_Nil_conv rev_rev_ident rev_swap)
  ultimately show ?thesis using h False by auto
qed (simp add: trim_def)

lemma escape_value_ends:
  "v \<noteq> [] \<Longrightarrow> hd (escape_value v) \<in> {92, hd v} \<and> last (escape_value v) = last v \<and> escape_value v \<noteq> []"
  by (induction v rule: escape_value.induct) (auto split: if_split_asm)

lemma trim_escaped: "trim v = v \<Longrightarrow> trim (escape_value v) = escape_value v"
proof (cases "v = []")
  case False
  assume "trim v = v"
  then have "\<not> is_whitespace (hd v)" "\<not> is_whitespace (last v)" using False by (simp_all add: trim_id)
  moreover have "\<not> is_whitespace 92" by (simp add: is_whitespace_def)
  ultimately show ?thesis using escape_value_ends [OF False] unfolding trim_id by auto
qed simp

lemma unescape_passthrough: "92 \<notin> set us \<Longrightarrow> unescape_bytes (us @ r) = map_option ((@) us) (unescape_bytes r)"
proof (induction us)
  case Nil
  show ?case by (simp add: option.map_ident)
next
  case (Cons a us)
  then have "unescape_bytes ((a # us) @ r) = map_option ((#) a) (map_option ((@) us) (unescape_bytes r))" by simp
  then show ?case by (simp add: option.map_comp comp_def del: unescape_bytes.simps)
qed

lemma unescape_special:
  assumes "special c"
  shows "unescape_bytes (92 # c # r) = map_option ((#) c) (unescape_bytes r)"
proof -
  have "hex_digit_value c = None" using assms by (auto simp: special_def hex_digit_value_def)
  then show ?thesis by (cases r) auto
qed

lemma unescape_escaped: "valid_str v \<Longrightarrow> unescape_bytes (utf8 (escape_value v)) = Some (utf8 v)"
proof (induction v)
  case (Cons c v)
  show ?case
  proof (cases "special c")
    case True
    then have "utf8_char c = [c]" by (auto simp: special_def utf8_char_def)
    then show ?thesis using Cons True unescape_special [OF True] by (simp add: utf8_char_def)
  next
    case False
    then have "92 \<notin> set (utf8_char c)" by (auto simp: special_def utf8_char_def)
    then show ?thesis using Cons False by (simp add: unescape_passthrough)
  qed
qed simp

lemma unescape_value_escaped:
  assumes "valid_str v"
  shows "unescape_rfc2253_value (escape_value v) = Some v"
proof -
  have "\<not> prefix [34] (escape_value v)" by (cases v) (auto simp: special_def)
  then have "strip_optional_quotes (escape_value v) = escape_value v" by (simp add: strip_optional_quotes_def strip_prefix_def)
  then show ?thesis using unescape_escaped [OF assms] assms by (simp add: unescape_rfc2253_value_def)
qed

lemma split_once_attr: "list_all (\<lambda>c. \<not> special c) t \<Longrightarrow> split_once 61 (t @ 61 # w) = Some (t, w)"
  by (induction t) (auto simp: split_once_def special_def split: list.split)

lemma first_common_name_attrs:
  "list_all attr_ok as \<Longrightarrow>
     first_common_name (map print_attr as) = map_option (\<lambda>a. Some (snd a)) (find (\<lambda>a. to_ascii_lowercase (fst a) = lit ''cn'') as)"
  by (induction as)
    (auto simp: print_attr_def split_once_attr attr_ok_def trim_escaped unescape_value_escaped)

lemma common_name_printed:
  assumes "rdns \<noteq> []" "list_all (\<lambda>rdn. rdn \<noteq> [] \<and> list_all attr_ok rdn) rdns"
  shows "common_name_from_rfc2253 (print_dn rdns) = map_option snd (find (\<lambda>a. to_ascii_lowercase (fst a) = lit ''cn'') (concat rdns))"
proof -
  have "passes 44 [43]" by (rule passes_char) auto
  then have p: "list_all (passes 44) (map (\<lambda>rdn. join 43 (map print_attr rdn)) rdns)"
    using assms(2) passes_attr by (auto simp: list_all_iff special_def intro!: passes_join)
  have f: "find P (xs @ ys) = (case find P xs of Some y \<Rightarrow> Some y | None \<Rightarrow> find P ys)" for P and xs ys :: "(ustring \<times> ustring) list"
    by (induction xs) auto
  have "common_name_of_rdns (map (\<lambda>rdn. join 43 (map print_attr rdn)) rdns) =
      map_option snd (find (\<lambda>a. to_ascii_lowercase (fst a) = lit ''cn'') (concat rdns))"
    using assms(2)
  proof (induction rdns)
    case (Cons rdn rdns)
    have "split_unescaped (join 43 (map print_attr rdn)) 43 = map print_attr rdn"
      using Cons.prems passes_attr by (intro split_unescaped_join) (auto simp: list_all_iff special_def)
    then show ?case using Cons by (simp add: first_common_name_attrs f split: option.split)
  qed simp
  then show ?thesis
    unfolding common_name_from_rfc2253_def print_dn_def using split_unescaped_join [OF p] assms(1) by simp
qed

section \<open>Assertions\<close>

lemma be_step: "n div 256 ^ Suc k * 256 + n div 256 ^ k mod 256 = (n div 256 ^ k :: nat)"
  by (metis div_mult2_eq div_mult_mod_eq power_Suc2)

lemma be_bytes_value: "n < 2 ^ 64 \<Longrightarrow> foldl (\<lambda>n b. n * 256 + b) 0 (be_bytes n) = n"
proof -
  assume n: "n < 2 ^ 64"
  have "be_bytes n = map (\<lambda>k. n div 256 ^ k mod 256) [7, 6, 5, 4, 3, 2, 1, 0]"
    by (simp add: be_bytes_def upt_rec)
  moreover have "n div 256 ^ 7 mod 256 = n div 256 ^ 7"
    using n by (intro mod_less less_mult_imp_div_less) simp
  moreover have "n div 256 ^ 7 * 256 + n div 256 ^ 6 mod 256 = n div 256 ^ 6"
    "n div 256 ^ 6 * 256 + n div 256 ^ 5 mod 256 = n div 256 ^ 5" "n div 256 ^ 5 * 256 + n div 256 ^ 4 mod 256 = n div 256 ^ 4"
    "n div 256 ^ 4 * 256 + n div 256 ^ 3 mod 256 = n div 256 ^ 3" "n div 256 ^ 3 * 256 + n div 256 ^ 2 mod 256 = n div 256 ^ 2"
    "n div 256 ^ 2 * 256 + n div 256 ^ 1 mod 256 = n div 256 ^ 1" "n div 256 ^ 1 * 256 + n div 256 ^ 0 mod 256 = n div 256 ^ 0"
    using be_step [of n 6] be_step [of n 5] be_step [of n 4] be_step [of n 3] be_step [of n 2] be_step [of n 1] be_step [of n 0]
    by (simp_all only: eval_nat_numeral BitM.simps One_nat_def)
  ultimately show ?thesis by (simp only: list.simps foldl_Nil foldl_Cons mult_0 add_0 power_0 div_by_1)
qed

lemma length_be_bytes [simp]: "length (be_bytes n) = 8"
  by (simp add: be_bytes_def)

lemma be_bytes_inj: "m < 2 ^ 64 \<Longrightarrow> n < 2 ^ 64 \<Longrightarrow> be_bytes m = be_bytes n \<longleftrightarrow> m = n"
  by (metis be_bytes_value)

lemma i64_be_roundtrip: "is_i64 t \<Longrightarrow> i64_from_be_bytes (i64_to_be_bytes t) = t"
proof -
  assume t: "is_i64 t"
  have "nat (t mod 2 ^ 64) < 2 ^ 64" by (simp add: nat_less_iff)
  then have "i64_from_be_bytes (i64_to_be_bytes t) = (if t mod 2 ^ 64 < 2 ^ 63 then t mod 2 ^ 64 else t mod 2 ^ 64 - 2 ^ 64)"
    unfolding i64_from_be_bytes_def i64_to_be_bytes_def by (simp only: be_bytes_value Let_def) simp
  also have "t mod 2 ^ 64 = (if 0 \<le> t then t else t + 2 ^ 64)"
    using t mod_pos_pos_trivial [of t "2 ^ 64"] mod_pos_pos_trivial [of "t + 2 ^ 64" "2 ^ 64"] by (simp add: i64_simps)
  also have "(if (if 0 \<le> t then t else t + 2 ^ 64) < 2 ^ 63 then if 0 \<le> t then t else t + 2 ^ 64
      else (if 0 \<le> t then t else t + 2 ^ 64) - 2 ^ 64) = t" using t by (simp add: i64_simps)
  finally show ?thesis .
qed

lemma framed_append_inj:
  assumes "framed a @ r = framed b @ s" "valid_str a" "valid_str b" "length (utf8 a) < 2 ^ 64" "length (utf8 b) < 2 ^ 64"
  shows "a = b \<and> r = s"
proof -
  have e: "be_bytes (length (utf8 a)) = be_bytes (length (utf8 b))" "utf8 a @ r = utf8 b @ s"
    using assms(1) by (simp_all add: framed_def append_eq_append_conv)
  have "length (utf8 a) = length (utf8 b)" using e(1) be_bytes_inj [OF assms(4,5)] by blast
  then show ?thesis using e(2) utf8_inj [OF assms(2,3)] by (auto simp: append_eq_append_conv)
qed

definition assertion_ok :: "lb_assertion \<Rightarrow> bool" where
  "assertion_ok a \<longleftrightarrow> list_all (\<lambda>s. valid_str s \<and> length (utf8 s) < 2 ^ 64) [la_key_id a, la_identity a, la_request_hash a] \<and>
     is_i64 (la_validation_time a)"

lemma lb_signing_preimage_inj:
  assumes "lb_signing_preimage a = lb_signing_preimage b" "assertion_ok a" "assertion_ok b"
  shows "a = b"
proof -
  note ok = assms(2,3) [unfolded assertion_ok_def]
  have 1: "la_key_id a = la_key_id b \<and> framed (la_identity a) @ framed (la_request_hash a) @ i64_to_be_bytes (la_validation_time a) =
      framed (la_identity b) @ framed (la_request_hash b) @ i64_to_be_bytes (la_validation_time b)"
    using assms(1) ok by (intro framed_append_inj) (simp_all add: lb_signing_preimage_def)
  then have 2: "la_identity a = la_identity b \<and> framed (la_request_hash a) @ i64_to_be_bytes (la_validation_time a) =
      framed (la_request_hash b) @ i64_to_be_bytes (la_validation_time b)"
    using ok by (intro framed_append_inj) simp_all
  then have 3: "la_request_hash a = la_request_hash b \<and> i64_to_be_bytes (la_validation_time a) = i64_to_be_bytes (la_validation_time b)"
    using ok by (intro framed_append_inj) simp_all
  then have "la_validation_time a = la_validation_time b" using ok i64_be_roundtrip by metis
  then show ?thesis using 1 2 3 by simp
qed

text \<open>What the parser lets through can be framed.\<close>

lemma split_char_length: "p \<in> set (split_char sep s) \<Longrightarrow> length p \<le> length s"
proof (induction s arbitrary: p)
  case (Cons c s)
  have "split_char sep s \<noteq> []" by (cases s) auto
  then have h: "hd (split_char sep s) \<in> set (split_char sep s)" "set (tl (split_char sep s)) \<subseteq> set (split_char sep s)"
    by (auto simp: list.set_sel)
  have "p = [] \<or> p \<in> set (split_char sep s) \<or> p = c # hd (split_char sep s)"
    using Cons.prems h(2) by (auto split: if_split_asm)
  then show ?case using Cons.IH [of p] Cons.IH [OF h(1)] by auto
qed simp

lemma length_utf8_ge: "length s \<le> length (utf8 s)"
proof (induction s)
  case (Cons c s)
  moreover have "0 < length (utf8_char c)" by (rule length_utf8_char_pos)
  ultimately show ?case unfolding utf8_simps length_append length_Cons by linarith
qed simp

lemma decode_field_ok:
  assumes "base64_documented x" "decode_b64url_field x p = Ok s" "length p \<le> MAX_ASSERTED_IDENTITY_LEN"
  shows "valid_str s \<and> length (utf8 s) < 2 ^ 64"
proof -
  from assms(2) obtain bs where bs: "base64_decode x p = Some bs" "from_utf8 bs = Some s"
    by (auto simp: decode_b64url_field_def b64url_decode_def result_simps)
  have "length bs \<le> length p" using assms(1) bs(1) by (auto simp: base64_documented_def)
  then have "length (utf8 s) \<le> 4 * MAX_ASSERTED_IDENTITY_LEN"
    using from_utf8_length [OF bs(2)] length_utf8_le [of s] assms(3) by linarith
  then show ?thesis using from_utf8_valid [OF bs(2)] by (simp add: MAX_ASSERTED_IDENTITY_LEN_def)
qed

lemma foldl_bytes_bound: "byte_list bs \<Longrightarrow> foldl (\<lambda>n b. n * 256 + b) n bs < (n + 1) * 256 ^ length bs"
proof (induction bs arbitrary: n)
  case (Cons b bs)
  then have "foldl (\<lambda>n b. n * 256 + b) (n * 256 + b) bs < (n * 256 + b + 1) * 256 ^ length bs" by (simp add: byte_list_def)
  also have "\<dots> \<le> (n + 1) * 256 * 256 ^ length bs" using Cons.prems by (intro mult_right_mono) (auto simp: byte_list_def)
  finally show ?case by (simp add: algebra_simps)
qed simp

lemma i64_from_be_range:
  assumes "byte_list bs" "length bs = 8"
  shows "is_i64 (i64_from_be_bytes bs)"
proof -
  have "foldl (\<lambda>n b. n * 256 + b) 0 bs < 2 ^ 64" using foldl_bytes_bound [OF assms(1), of 0] assms(2) by simp
  then have "int (foldl (\<lambda>n b. n * 256 + b) 0 bs) < 2 ^ 64" by simp
  then show ?thesis by (simp add: i64_from_be_bytes_def Let_def i64_simps)
qed

lemma lb_parse_ok:
  assumes x: "base64_documented x" and p: "lb_parse x val = Ok (a, s)"
  shows "assertion_ok a"
proof -
  from p obtain p0 p1 p2 p3 p4 bs where
    parts: "split_char 46 (trim val) = [p0, p1, p2, p3, p4]" "length (utf8 (trim val)) \<le> MAX_ASSERTED_IDENTITY_LEN"
    and d: "decode_b64url_field x p0 = Ok (la_key_id a)" "decode_b64url_field x p1 = Ok (la_identity a)"
      "decode_b64url_field x p2 = Ok (la_request_hash a)" "base64_decode x p3 = Some bs" "length bs = 8"
      "la_validation_time a = i64_from_be_bytes bs"
    unfolding lb_parse_def Let_def
    by (auto simp: result_simps b64url_decode_def split: if_split_asm list.split_asm)
  have l: "length p \<le> MAX_ASSERTED_IDENTITY_LEN" if "p \<in> {p0, p1, p2}" for p
    using split_char_length [of p 46 "trim val"] length_utf8_ge [of "trim val"] parts that by auto
  have "byte_list bs" using x d(4) by (auto simp: base64_documented_def)
  then show ?thesis
    using decode_field_ok [OF x d(1) l] decode_field_ok [OF x d(2) l] decode_field_ok [OF x d(3) l] d(5,6)
    by (simp add: assertion_ok_def i64_from_be_range)
qed

lemma lb_age_window:
  "is_i64 now \<Longrightarrow> is_i64 t \<Longrightarrow> is_i64 m \<Longrightarrow> m < i64_max \<Longrightarrow>
     \<not> (saturating_sub now t > m \<or> saturating_sub now t < - m) \<longleftrightarrow> \<bar>now - t\<bar> \<le> m"
  by (auto simp: saturating_sub_def i64_simps)

lemma lb_verify_Ok:
  "lb_verify x lb val h now = Ok i \<longleftrightarrow>
     (\<exists>a s key d. lb_parse x val = Ok (a, s) \<and> key_for lb (la_key_id a) = Some key \<and>
        verify_ed25519_with x (lb_signing_preimage a) s key TransportBindingFailed = Ok () \<and>
        parse_hash_id x (la_request_hash a) = Ok d \<and> parse_hash_id x h = Ok d \<and>
        \<not> (saturating_sub now (la_validation_time a) > lb_max_age_secs lb \<or>
            saturating_sub now (la_validation_time a) < - lb_max_age_secs lb) \<and>
        i = \<lparr>ti_value = la_identity a, ti_source = lb_source lb\<rparr>)"
  unfolding lb_verify_def and_then_eq_Inr
  by (auto simp: Let_def result_simps split: prod.splits if_split_asm)

section \<open>Binding policies\<close>

text \<open>What the sidecar relies on: an absent identity is never bound, and a refusal has one error.\<close>

locale binding_policy =
  fixes check :: binding_fn
  assumes absent: "check signer None = Err TransportBindingFailed"
    and refusal: "check signer identity = Err e \<Longrightarrow> e = TransportBindingFailed"
begin

lemma bound_identity: "check signer identity = Ok u \<Longrightarrow> \<exists>i. identity = Some i"
  using absent [of signer] by (cases identity) auto

lemma outcome: "check signer identity = Ok () \<or> check signer identity = Err TransportBindingFailed"
  by (cases "check signer identity") (auto dest: refusal)

end

interpretation exact: binding_policy exact_match_check
  by unfold_locales (auto simp: exact_match_check_def split: option.splits if_split_asm)

interpretation mapped: binding_policy "mapped_check m" for m
  by unfold_locales (auto simp: mapped_check_def result_simps split: option.splits if_split_asm)

lemma mapped_check_Ok:
  "mapped_check m s i = Ok u \<longleftrightarrow> (\<exists>t a. i = Some t \<and> mb_allowed m s = Some a \<and> ti_value t \<in> a)"
  by (cases i) (auto simp: mapped_check_def split: option.splits)

text \<open>A value that ends in a line feed is accepted for its trimmed form.\<close>

lemma edge_control_passes: "validate_asserted_identity_value (lit ''a'' @ [10]) = Ok (lit ''a'')"
  by (simp add: validate_asserted_identity_value_def trim_def is_whitespace_def is_control_def MAX_ASSERTED_IDENTITY_LEN_def lit_def Let_def utf8_char_def)

section \<open>Properties\<close>

text \<open>
  C32: an identity is only read from a forwarded-certificate header whose elements are unanimous: the
  XFCC reader returns an identity exactly when every element splits with balanced quotes and the
  values of the selected field over all pairs of all elements are one and the same non-empty value,
  which is then trimmed, at most 8192 bytes long and free of control characters; splitting drops
  nothing, and the separators left inside a part are quoted.
\<close>

theorem xfcc_identity_unanimous:
  "(parse_xfcc p val = Some i \<longleftrightarrow>
     (\<exists>els v. split_xfcc_elements val = Some els \<and> set (xfcc_values (rp_policy p) els) = {Some v} \<and> v \<noteq> [] \<and>
        i = \<lparr>ti_value = trim v, ti_source = policy_source (rp_policy p)\<rparr> \<and> trim v \<noteq> [] \<and>
        length (utf8 (trim v)) \<le> MAX_ASSERTED_IDENTITY_LEN \<and> list_all (\<lambda>c. \<not> is_control c) (trim v))) \<and>
   (split_xfcc_elements val = Some els \<longrightarrow> join 44 els = val \<and> list_all (\<lambda>e. separator_free 44 e \<and> even (quotes e)) els)"
  using split_outside_quotes_join [of val 44 els] split_outside_quotes_parts [of 44 val els]
  unfolding parse_xfcc_Some asserted_identity_Some split_xfcc_elements_def by (auto simp: list_all_iff)

lemma sample_xfcc_values:
  "xfcc_values UriSan [lit ''URI=a'', lit ''URI=b''] = [Some (lit ''a''), Some (lit ''b'')]"
proof -
  have p: "split_xfcc_element_pairs (lit ''URI=a'') = Some [lit ''URI=a'']" "split_xfcc_element_pairs (lit ''URI=b'') = Some [lit ''URI=b'']"
    by (simp_all add: split_xfcc_element_pairs_def split_outside_quotes_def lit_def)
  have o: "split_once 61 (lit ''URI=a'') = Some (lit ''URI'', lit ''a'')" "split_once 61 (lit ''URI=b'') = Some (lit ''URI'', lit ''b'')"
    by (simp_all add: split_once_def lit_def)
  have t: "trim (lit ''URI'') = lit ''URI''" "trim (lit ''a'') = lit ''a''" "trim (lit ''b'') = lit ''b''"
    by (simp_all add: trim_id is_whitespace_def lit_def)
  have l: "to_ascii_lowercase (lit ''URI'') = lit ''uri''" by (simp add: to_ascii_lowercase_def lit_def)
  have q: "strip_optional_quotes (lit ''a'') = lit ''a''" "strip_optional_quotes (lit ''b'') = lit ''b''"
    by (simp_all add: strip_optional_quotes_def strip_prefix_def lit_def)
  show ?thesis by (simp add: xfcc_values_def element_values_def pair_values_def p o t l extract_pair_def q)
qed

theorem xfcc_identity_unanimous_witness:
  "parse_xfcc \<lparr>rp_header_name = lit ''xfcc'', rp_format = Xfcc, rp_policy = UriSan\<rparr> (lit ''URI=a,URI=b'') = None \<and>
   join 44 [lit ''URI=a'', lit ''URI=b''] = lit ''URI=a,URI=b''"
proof -
  let ?v = "lit ''URI=a,URI=b''" and ?p = "\<lparr>rp_header_name = lit ''xfcc'', rp_format = Xfcc, rp_policy = UriSan\<rparr>"
  let ?els = "[lit ''URI=a'', lit ''URI=b'']"
  have s: "split_xfcc_elements ?v = Some ?els"
    by (simp add: split_xfcc_elements_def split_outside_quotes_def lit_def)
  have "{Some (lit ''a''), Some (lit ''b'')} \<noteq> {Some v}" for v by (simp add: doubleton_eq_iff) auto
  then have "set (xfcc_values (rp_policy ?p) ?els) \<noteq> {Some v}" for v by (simp add: sample_xfcc_values)
  then have "parse_xfcc ?p ?v \<noteq> Some i" for i
    unfolding xfcc_identity_unanimous [of ?p ?v i ?els, THEN conjunct1] s option.inject by blast
  then show ?thesis
    using xfcc_identity_unanimous [of ?p ?v _ ?els, THEN conjunct2, rule_format, OF s] by blast
qed

text \<open>
  the common name of a forwarded subject is the one the certificate has: for a distinguished name
  printed by the rules of RFC 2253, whatever special characters its values contain, the extraction
  returns the value of the first \<open>CN\<close> attribute, and nothing when there is none. Values that begin
  or end with white space are outside the statement.
\<close>

theorem subject_common_name_roundtrip:
  assumes "rdns \<noteq> []" and "list_all (\<lambda>rdn. rdn \<noteq> [] \<and> list_all attr_ok rdn) rdns"
  shows "common_name_from_rfc2253 (print_dn rdns) =
    map_option snd (find (\<lambda>a. to_ascii_lowercase (fst a) = lit ''cn'') (concat rdns))"
  using common_name_printed [OF assms] .

theorem subject_common_name_roundtrip_witness:
  "common_name_from_rfc2253 (lit ''OU=x+CN=a'' @ 92 # lit '',b,CN=c'') = Some (lit ''a,b'')"
proof -
  let ?d = "[[(lit ''OU'', lit ''x''), (lit ''CN'', lit ''a,b'')], [(lit ''CN'', lit ''c'')]]"
  have "list_all (\<lambda>rdn. rdn \<noteq> [] \<and> list_all attr_ok rdn) ?d"
    by (simp add: attr_ok_def) (simp add: special_def trim_id is_whitespace_def lit_def)
  moreover have "print_dn ?d = lit ''OU=x+CN=a'' @ 92 # lit '',b,CN=c''"
    by (simp add: print_dn_def print_attr_def special_def lit_def)
  ultimately show ?thesis
    using subject_common_name_roundtrip [of ?d] by (simp add: to_ascii_lowercase_def lit_def)
qed

text \<open>
  C31: an ingress assertion vouches for one identity, one request and one moment: it yields an identity
  exactly when it parses, names a trusted key, carries that key's signature over its fields, is bound
  to the digest of the request at hand and its time is within the age limit of the present, future
  included, as mathematical integers; and no other assertion has the bytes that were signed.
\<close>

theorem lb_assertion_accepts_exactly:
  assumes "base64_documented x" and "is_i64 now" and "is_i64 (lb_max_age_secs lb)" and "lb_max_age_secs lb < i64_max"
  shows "(lb_verify x lb val h now = Ok i \<longleftrightarrow>
      (\<exists>a s key d. lb_parse x val = Ok (a, s) \<and> key_for lb (la_key_id a) = Some key \<and>
        verify_ed25519_with x (lb_signing_preimage a) s key TransportBindingFailed = Ok () \<and>
        parse_hash_id x (la_request_hash a) = Ok d \<and> parse_hash_id x h = Ok d \<and>
        \<bar>now - la_validation_time a\<bar> \<le> lb_max_age_secs lb \<and>
        i = \<lparr>ti_value = la_identity a, ti_source = lb_source lb\<rparr>)) \<and>
    (lb_parse x val = Ok (a, s) \<and> assertion_ok b \<and> lb_signing_preimage a = lb_signing_preimage b \<longrightarrow> a = b)"
proof -
  have w: "\<not> (saturating_sub now (la_validation_time a) > lb_max_age_secs lb \<or>
      saturating_sub now (la_validation_time a) < - lb_max_age_secs lb) \<longleftrightarrow> \<bar>now - la_validation_time a\<bar> \<le> lb_max_age_secs lb"
    if "lb_parse x val = Ok (a, s)" for a s
    using lb_age_window [OF assms(2) _ assms(3,4)] lb_parse_ok [OF assms(1) that] by (simp add: assertion_ok_def)
  have "lb_parse x val = Ok (a, s) \<and> assertion_ok b \<and> lb_signing_preimage a = lb_signing_preimage b \<longrightarrow> a = b"
    using lb_signing_preimage_inj lb_parse_ok [OF assms(1)] by blast
  moreover have "(lb_parse x val = Ok (a, s) \<and> P \<and> Q \<and> R \<and> S \<and> \<not> (saturating_sub now (la_validation_time a) > lb_max_age_secs lb \<or>
      saturating_sub now (la_validation_time a) < - lb_max_age_secs lb) \<and> T) \<longleftrightarrow>
      (lb_parse x val = Ok (a, s) \<and> P \<and> Q \<and> R \<and> S \<and> \<bar>now - la_validation_time a\<bar> \<le> lb_max_age_secs lb \<and> T)" for a s P Q R S T
    using w by blast
  ultimately show ?thesis unfolding lb_verify_Ok by simp
qed

definition sample_assertion :: lb_assertion where
  "sample_assertion = \<lparr>la_key_id = lit ''k'', la_identity = lit ''did:a'', la_request_hash = SHA256_PREFIX @ replicate 32 120,
     la_validation_time = 90\<rparr>"

definition sample_lb :: lb_assertion_binding where
  "sample_lb = add_key (lit ''k'') (public_key sample_ext \<lparr>sk_seed = replicate 32 7\<rparr>) (lb_new SourceUriSan)"

definition sample_lb_signature :: ustring where
  "sample_lb_signature = sign sample_ext \<lparr>sk_seed = replicate 32 7\<rparr> (lb_signing_preimage sample_assertion)"

definition sample_lb_header :: ustring where
  "sample_lb_header = join 46 [lit ''k'', lit ''did:a'', SHA256_PREFIX @ replicate 32 120, i64_to_be_bytes 90, sample_lb_signature]"

lemma split_char_append: "sep \<notin> set p \<Longrightarrow> split_char sep (p @ sep # rest) = p # split_char sep rest"
  by (induction p) auto

lemma split_char_single: "sep \<notin> set p \<Longrightarrow> split_char sep p = [p]"
  by (induction p) auto

lemma sample_time_bytes: "i64_to_be_bytes 90 = [0, 0, 0, 0, 0, 0, 0, 90]"
  by (simp add: i64_to_be_bytes_def be_bytes_def upt_rec)

lemma sample_signature_bytes: "sample_lb_signature = replicate 32 7 @ LB_ASSERTION_DOMAIN_TAG @ [0, 0, 0, 0]"
proof -
  have p: "pad 32 (replicate 32 7) = replicate 32 7" by (simp add: pad_def)
  have m: "map (\<lambda>b. b mod 256) (lit w) = lit w" for w
    using mod_less by (auto simp: lit_def intro!: map_idI)
  have "lb_signing_preimage sample_assertion = LB_ASSERTION_DOMAIN_TAG @ [0, 0, 0, 0] @
      [0, 0, 0, 1] @ lit ''k'' @ framed (la_identity sample_assertion) @ framed (la_request_hash sample_assertion) @ i64_to_be_bytes 90"
    by (simp add: lb_signing_preimage_def sample_assertion_def framed_def be_bytes_def upt_rec utf8_lit_ascii lit_def utf8_char_def)
  then have "sign sample_ext \<lparr>sk_seed = replicate 32 7\<rparr> (lb_signing_preimage sample_assertion) =
      take 64 (map (\<lambda>b. b mod 256) (replicate 32 7 @ LB_ASSERTION_DOMAIN_TAG @ [0, 0, 0, 0] @
      [0, 0, 0, 1] @ lit ''k'' @ framed (la_identity sample_assertion) @ framed (la_request_hash sample_assertion) @ i64_to_be_bytes 90) @ replicate 64 0)"
    by (simp only: sign_def b64url_encode_def sample_ext_def ext.simps signing_key.simps p pad_def [of 64])
  then show ?thesis
    by (simp add: sample_lb_signature_def LB_ASSERTION_DOMAIN_TAG_def m)
qed

lemma decode_ascii_field:
  assumes "\<forall>c \<in> set s. c < 0x80"
  shows "decode_b64url_field sample_ext s = Ok s"
proof -
  have "valid_str s" using assms by (auto simp: valid_str_def is_scalar_def)
  then have "from_utf8 s = Some s" using from_utf8_utf8 [of s] utf8_ascii [OF assms] by simp
  moreover have "byte_list s" using assms by (auto simp: byte_list_def list_all_iff)
  ultimately show ?thesis by (simp add: decode_b64url_field_def b64url_decode_def sample_ext_def)
qed

lemma sample_header_parses: "lb_parse sample_ext sample_lb_header = Ok (sample_assertion, sample_lb_signature)"
proof -
  let ?h = "SHA256_PREFIX @ replicate 32 120" and ?s = "replicate 32 7 @ LB_ASSERTION_DOMAIN_TAG @ [0, 0, 0, 0]"
  have h: "sample_lb_header = lit ''k'' @ 46 # lit ''did:a'' @ 46 # ?h @ 46 # [0, 0, 0, 0, 0, 0, 0, 90] @ 46 # ?s"
    by (simp add: sample_lb_header_def sample_signature_bytes sample_time_bytes)
  have t: "trim sample_lb_header = sample_lb_header" "sample_lb_header \<noteq> []"
    unfolding trim_id h by (simp_all add: is_whitespace_def) (simp_all add: lit_def)
  have l: "\<not> MAX_ASSERTED_IDENTITY_LEN < length (utf8 sample_lb_header)"
    using length_utf8_le [of sample_lb_header]
    by (simp add: h MAX_ASSERTED_IDENTITY_LEN_def SHA256_PREFIX_def LB_ASSERTION_DOMAIN_TAG_def)
  have n: "46 \<notin> set (lit ''k'')" "46 \<notin> set (lit ''did:a'')" "46 \<notin> set ?h" "46 \<notin> set ?s"
    by (simp_all add: SHA256_PREFIX_def LB_ASSERTION_DOMAIN_TAG_def lit_def)
  have n0: "46 \<notin> set [0, 0, 0, 0, 0, 0, 0, 90 :: nat]" by simp
  have p: "split_char 46 sample_lb_header = [lit ''k'', lit ''did:a'', ?h, [0, 0, 0, 0, 0, 0, 0, 90], ?s]"
    unfolding h split_char_append [OF n(1)] split_char_append [OF n(2)] split_char_append [OF n(3)] split_char_append [OF n0]
      split_char_single [OF n(4)] ..
  have d: "decode_b64url_field sample_ext (lit ''k'') = Ok (lit ''k'')" "decode_b64url_field sample_ext (lit ''did:a'') = Ok (lit ''did:a'')"
    "decode_b64url_field sample_ext ?h = Ok ?h"
    by (rule decode_ascii_field; simp add: lit_def SHA256_PREFIX_def)+
  have "b64url_decode sample_ext [0, 0, 0, 0, 0, 0, 0, 90] = Ok [0, 0, 0, 0, 0, 0, 0, 90]"
    "i64_from_be_bytes [0, 0, 0, 0, 0, 0, 0, 90] = 90"
    by (simp_all add: b64url_decode_def sample_ext_def byte_list_def i64_from_be_bytes_def)
  moreover have "validate_asserted_identity_value (lit ''did:a'') = Ok (lit ''did:a'')"
    unfolding validate_Ok eq_commute [of "lit ''did:a''" "trim _"] by (simp add: trim_id utf8_lit_ascii MAX_ASSERTED_IDENTITY_LEN_def is_whitespace_def is_control_def lit_def utf8_char_def)
  moreover have "\<not> list_ex is_control (lit ''k'')" "\<not> list_ex is_control ?h"
    by (simp_all add: is_control_def SHA256_PREFIX_def lit_def list_ex_iff)
  moreover have "?h \<noteq> []" "?s \<noteq> []" by simp_all
  ultimately show ?thesis
    unfolding lb_parse_def Let_def t(1) p using t(2) l d by (simp add: sample_assertion_def sample_signature_bytes)
qed

theorem lb_assertion_accepts_exactly_witness:
  "lb_verify sample_ext sample_lb sample_lb_header (SHA256_PREFIX @ replicate 32 120) 100 =
     Ok \<lparr>ti_value = lit ''did:a'', ti_source = SourceUriSan\<rparr>"
proof -
  have key: "key_for sample_lb (la_key_id sample_assertion) = Some (public_key sample_ext \<lparr>sk_seed = replicate 32 7\<rparr>)"
    by (simp add: key_for_def sample_lb_def add_key_def lb_new_def sample_assertion_def)
  have "verify_ed25519_with sample_ext (lb_signing_preimage sample_assertion) sample_lb_signature
      (public_key sample_ext \<lparr>sk_seed = replicate 32 7\<rparr>) TransportBindingFailed = Ok ()"
    unfolding sample_lb_signature_def by (rule sign_verify [OF sample_ext_documented(1,3)]) simp
  moreover have "parse_hash_id sample_ext (SHA256_PREFIX @ replicate 32 120) = Ok (replicate 32 120)"
    by (simp add: parse_hash_id_def b64url_decode_def sample_ext_def byte_list_def list_all_iff SHA256_LEN_def)
  ultimately show ?thesis
    using lb_assertion_accepts_exactly [OF sample_ext_documented(1), of 100 sample_lb sample_lb_header] sample_header_parses key
    by (auto simp: sample_lb_def add_key_def lb_new_def DEFAULT_LB_ASSERTION_MAX_AGE_SECS_def i64_simps sample_assertion_def)
qed

end
