(* ===== verification/Sidecar.thy ===== *)
theory Sidecar
  imports Verdict Reference_Profile Transport
begin

text \<open>
  \<open>mcps-proxy/src/proxy.rs\<close>: the sidecar in front of an unmodified MCP server. One call verifies
  the request, asks the authorization policy, binds the signer to the transport identity, forwards
  the stripped request with the verified context, and signs whatever the inner server answers. The
  injected components are fields of the record \<open>proxy\<close>; the state of the replay cache is passed
  along. A call returns the response (\<open>None\<close> where the code panics), what it did to the outside, in
  order, and the cache after it.
\<close>

section \<open>The proxy and its effects\<close>

datatype proxy_event = Dispatched bytes | LogRequestForwarded ustring | LogResponseSigned ustring

text \<open>\<open>px_sign\<close> is \<open>ResponseSigner::sign_response\<close>, \<open>None\<close> for a signing failure; \<open>px_inner\<close> is the
  inner server; \<open>px_borrowed\<close> tells whether the replay cell is already borrowed.\<close>

record 'c proxy =
  px_sign :: "bytes \<Rightarrow> ustring option"
  px_server_signer :: ustring
  px_key_id :: ustring
  px_resolve :: resolve_fn
  px_config :: verification_config
  px_version_policy :: expected_version_policy
  px_inner :: "bytes \<Rightarrow> bytes"
  px_check :: "'c replay_fn"
  px_borrowed :: bool
  px_policy :: "(policy_evaluator \<times> revocation_fn) option"
  px_transport_binding :: "binding_fn option"
  px_lb_assertion :: "lb_assertion_binding option"
  px_log_sink :: bool

definition sign_response :: "ext \<Rightarrow> signing_key \<Rightarrow> bytes \<Rightarrow> ustring option" where
  "sign_response x key preimage = Some (sign x key preimage)"

definition proxy_new ::
    "ext \<Rightarrow> signing_key \<Rightarrow> ustring \<Rightarrow> ustring \<Rightarrow> resolve_fn \<Rightarrow> ustring \<Rightarrow> int \<Rightarrow> (bytes \<Rightarrow> bytes) \<Rightarrow>
     in_memory_replay_cache proxy \<times> in_memory_replay_cache" where
  "proxy_new x key server_signer key_id resolve audience skew inner =
     (\<lparr>px_sign = sign_response x key, px_server_signer = server_signer, px_key_id = key_id, px_resolve = resolve,
       px_config = \<lparr>expected_audience = audience, skew_secs = skew\<rparr>, px_version_policy = Draft01AndDraft02,
       px_inner = inner, px_check = check_and_insert, px_borrowed = False, px_policy = None,
       px_transport_binding = None, px_lb_assertion = None, px_log_sink = False\<rparr>, replay_new skew)"

definition with_log_sink :: "'c proxy \<Rightarrow> 'c proxy" where
  "with_log_sink p = p\<lparr>px_log_sink := True\<rparr>"

definition with_expected_version_policy :: "expected_version_policy \<Rightarrow> 'c proxy \<Rightarrow> 'c proxy" where
  "with_expected_version_policy policy p = p\<lparr>px_version_policy := policy\<rparr>"

definition with_replay_cache :: "'d replay_fn \<Rightarrow> 'c proxy \<Rightarrow> 'd proxy" where
  "with_replay_cache cache p =
     \<lparr>px_sign = px_sign p, px_server_signer = px_server_signer p, px_key_id = px_key_id p, px_resolve = px_resolve p,
      px_config = px_config p, px_version_policy = px_version_policy p, px_inner = px_inner p, px_check = cache,
      px_borrowed = False, px_policy = px_policy p, px_transport_binding = px_transport_binding p,
      px_lb_assertion = px_lb_assertion p, px_log_sink = px_log_sink p\<rparr>"

definition with_policy_enforcement :: "policy_evaluator \<Rightarrow> revocation_fn \<Rightarrow> 'c proxy \<Rightarrow> 'c proxy" where
  "with_policy_enforcement evaluator revocation p = p\<lparr>px_policy := Some (evaluator, revocation)\<rparr>"

definition with_transport_binding :: "binding_fn \<Rightarrow> 'c proxy \<Rightarrow> 'c proxy" where
  "with_transport_binding policy p = p\<lparr>px_transport_binding := Some policy\<rparr>"

definition with_lb_assertion :: "lb_assertion_binding \<Rightarrow> 'c proxy \<Rightarrow> 'c proxy" where
  "with_lb_assertion lb p = p\<lparr>px_lb_assertion := Some lb\<rparr>"

section \<open>Indexing that inserts\<close>

text \<open>\<open>value[k1]...[kn]\<close> as a place: \<open>null\<close> becomes an object, a missing member becomes \<open>null\<close>,
  indexing anything but an object or \<open>null\<close> panics.\<close>

fun index_update :: "ustring list \<Rightarrow> (json \<Rightarrow> json) \<Rightarrow> json \<Rightarrow> json option" where
  "index_update [] f v = Some (f v)"
| "index_update (k # ks) f Null = map_option (\<lambda>w. Obj [(k, w)]) (index_update ks f Null)"
| "index_update (k # ks) f (Obj ms) =
     map_option (\<lambda>w. Obj (obj_insert k w ms))
       (index_update ks f (case obj_get k ms of Some v \<Rightarrow> v | None \<Rightarrow> Null))"
| "index_update (k # ks) f v = None"

section \<open>Scrubbing\<close>

definition PROXY_OWNED_META_KEYS :: "ustring list" where
  "PROXY_OWNED_META_KEYS = [REQUEST_META_KEY, RESPONSE_META_KEY, VERIFIED_META_KEY, AUTHORIZATION_META_KEY]"

definition strip_owned :: "json \<Rightarrow> json" where
  "strip_owned meta = fold json_remove PROXY_OWNED_META_KEYS meta"

lemma size_obj_remove: "size_list (size_prod (\<lambda>_. 0) size) (obj_remove k ms) \<le> size_list (size_prod (\<lambda>_. 0) size) ms"
  by (induction ms) (auto simp: obj_remove_def)

lemma size_json_remove: "size (json_remove k v) \<le> size v"
  by (cases v) (simp_all add: size_obj_remove)

lemma size_strip_owned: "size (strip_owned v) \<le> size v"
proof -
  have "size (fold json_remove ks v) \<le> size v" for ks
    by (induction ks arbitrary: v) (auto intro: order_trans size_json_remove)
  then show ?thesis by (simp add: strip_owned_def)
qed

lemma size_member: "(k, v) \<in> set ms \<Longrightarrow> size v < size (Obj ms)"
  by (induction ms) auto

function (sequential) scrub_proxy_owned_meta :: "json \<Rightarrow> json" where
  "scrub_proxy_owned_meta (Obj ms) =
     Obj (map (\<lambda>(k, v). (k, scrub_proxy_owned_meta (if k = lit ''_meta'' then strip_owned v else v))) ms)"
| "scrub_proxy_owned_meta (Arr vs) = Arr (map scrub_proxy_owned_meta vs)"
| "scrub_proxy_owned_meta v = v"
  by pat_completeness auto

termination
proof (relation "measure size", goal_cases)
  case (2 ms m k v)
  then have "size v < size (Obj ms)" by (metis size_member)
  moreover have "size (if k = lit ''_meta'' then strip_owned v else v) \<le> size v" by (simp add: size_strip_owned)
  ultimately show ?case by simp
next
  case (3 vs v)
  then show ?case by (auto dest: size_list_estimation' [where f = size])
qed simp

section \<open>The verified context\<close>

definition ser_verified_context :: "'c proxy \<Rightarrow> verified_request \<Rightarrow> ustring \<Rightarrow> ustring \<Rightarrow> json" where
  "ser_verified_context p verified authorization_hash verified_at =
     json_object [(lit ''verified_signer'', Str (vr_signer verified)), (lit ''key_id'', Str (vr_key_id verified)),
       (lit ''on_behalf_of'', Str (vr_on_behalf_of verified)), (lit ''audience'', Str (vr_audience verified)),
       (lit ''authorization_hash'', Str authorization_hash), (lit ''request_hash'', Str (vr_request_hash verified)),
       (lit ''verifier'', Str (px_server_signer p)), (lit ''verified_at'', Str verified_at)]"

definition build_verified_context :: "'c proxy \<Rightarrow> verified_request \<Rightarrow> int \<Rightarrow> json mcps_result" where
  "build_verified_context p verified now_unix =
     (let verified_at = unix_to_rfc3339_utc now_unix in
      case vr_authorization verified of
        Draft01Hash authorization_hash \<Rightarrow> Ok (ser_verified_context p verified authorization_hash verified_at)
      | Draft02Binding authorization_binding \<Rightarrow>
          and_then (ok_or CanonicalizationIdMissing (vr_canonicalization_id verified)) (\<lambda>canonicalization_id.
            Ok (json_object [(lit ''version'', Str VERSION_DRAFT_02), (lit ''verified_signer'', Str (vr_signer verified)),
              (lit ''key_id'', Str (vr_key_id verified)), (lit ''on_behalf_of'', Str (vr_on_behalf_of verified)),
              (lit ''audience'', Str (vr_audience verified)), (lit ''request_hash'', Str (vr_request_hash verified)),
              (lit ''verifier'', Str (px_server_signer p)), (lit ''verified_at'', Str verified_at),
              (lit ''canonicalization_id'', Str canonicalization_id),
              (lit ''authorization_binding'', Obj (binding_members authorization_binding))])))"

text \<open>The forwarded request: scrub, then write the one block the proxy authors.\<close>

definition write_verified :: "json \<Rightarrow> json \<Rightarrow> json" where
  "write_verified context_value meta =
     (case as_object meta of
        Some ms \<Rightarrow> Obj (obj_insert VERIFIED_META_KEY context_value ms)
      | None \<Rightarrow> json_object [(VERIFIED_META_KEY, context_value)])"

definition build_forwarded_request ::
    "ext \<Rightarrow> 'c proxy \<Rightarrow> bytes \<Rightarrow> verified_request \<Rightarrow> int \<Rightarrow> bytes mcps_result option" where
  "build_forwarded_request x p request_bytes verified now_unix =
     (case from_slice x request_bytes of
        None \<Rightarrow> Some (Err CanonicalizationFailed)
      | Some request \<Rightarrow>
          (case build_verified_context p verified now_unix of
             Inl e \<Rightarrow> Some (Err e)
           | Inr context_value \<Rightarrow>
               map_option (\<lambda>r. ok_or CanonicalizationFailed (to_vec x r))
                 (index_update [lit ''params'', lit ''_meta''] (write_verified context_value)
                   (scrub_proxy_owned_meta request))))"

section \<open>The signed response\<close>

definition wrap_result :: "json \<Rightarrow> json" where
  "wrap_result inner =
     (case json_get inner (lit ''result'') of
        Some result \<Rightarrow>
          if as_object result \<noteq> None then result else json_object [(RESPONSE_WRAP_VALUE_KEY, result)]
      | None \<Rightarrow> json_object [(RESPONSE_WRAP_INNER_ERROR_KEY, inner)])"

definition build_response_envelope :: "'c proxy \<Rightarrow> verified_request \<Rightarrow> int \<Rightarrow> json mcps_result" where
  "build_response_envelope p verified now_unix =
     (let issued_at = unix_to_rfc3339_utc now_unix;
          signature = json_object [(lit ''alg'', Str SIG_ALG_ED25519), (lit ''key_id'', Str (px_key_id p))] in
      case vr_authorization verified of
        Draft01Hash _ \<Rightarrow>
          Ok (json_object [(lit ''request_hash'', Str (vr_request_hash verified)),
            (lit ''server_signer'', Str (px_server_signer p)), (lit ''issued_at'', Str issued_at), (lit ''signature'', signature)])
      | Draft02Binding _ \<Rightarrow>
          and_then (ok_or CanonicalizationIdMissing (vr_canonicalization_id verified)) (\<lambda>canonicalization_id.
            Ok (json_object [(lit ''version'', Str VERSION_DRAFT_02), (lit ''canonicalization_id'', Str canonicalization_id),
              (lit ''request_hash'', Str (vr_request_hash verified)), (lit ''server_signer'', Str (px_server_signer p)),
              (lit ''issued_at'', Str issued_at), (lit ''signature'', signature)])))"

definition response_object :: "json \<Rightarrow> json \<Rightarrow> json" where
  "response_object rid result =
     json_object [(lit ''jsonrpc'', Str (lit ''2.0'')), (lit ''id'', rid), (lit ''result'', result)]"

definition response_path :: "ustring list" where
  "response_path = [lit ''result'', lit ''_meta'', RESPONSE_META_KEY]"

definition build_signed_response ::
    "ext \<Rightarrow> 'c proxy \<Rightarrow> bytes \<Rightarrow> verified_request \<Rightarrow> int \<Rightarrow> json \<Rightarrow> bytes mcps_result option" where
  "build_signed_response x p inner_response verified now_unix id_value =
     (case from_slice x inner_response of
        None \<Rightarrow> Some (Err CanonicalizationFailed)
      | Some inner \<Rightarrow>
          (case build_response_envelope p verified now_unix of
             Inl e \<Rightarrow> Some (Err e)
           | Inr envelope \<Rightarrow>
               Option.bind (index_update response_path (\<lambda>_. envelope)
                   (response_object id_value (scrub_proxy_owned_meta (wrap_result inner)))) (\<lambda>response.
                 case and_then (response_signing_preimage response) (\<lambda>preimage.
                        ok_or ResponseSigInvalid (px_sign p preimage)) of
                   Inl e \<Rightarrow> Some (Err e)
                 | Inr signature \<Rightarrow>
                     map_option (\<lambda>signed. ok_or CanonicalizationFailed (to_vec x signed))
                       (index_update (response_path @ [lit ''signature'', lit ''value'']) (\<lambda>_. Str signature) response))))"

section \<open>One call\<close>

definition dispatch_and_sign ::
    "ext \<Rightarrow> 'c proxy \<Rightarrow> bytes \<Rightarrow> verified_request \<Rightarrow> int \<Rightarrow> json \<Rightarrow> bytes mcps_result option \<times> proxy_event list" where
  "dispatch_and_sign x p request_bytes verified now_unix id_value =
     (case build_forwarded_request x p request_bytes verified now_unix of
        None \<Rightarrow> (None, [])
      | Some (Inl e) \<Rightarrow> (Some (Err e), [])
      | Some (Inr forwarded) \<Rightarrow>
          (let sent = (if px_log_sink p then [LogRequestForwarded (vr_signer verified)] else []) @ [Dispatched forwarded] in
           case build_signed_response x p (px_inner p forwarded) verified now_unix id_value of
             None \<Rightarrow> (None, sent)
           | Some (Inl e) \<Rightarrow> (Some (Err e), sent)
           | Some (Inr signed) \<Rightarrow>
               (Some (Ok signed), sent @ (if px_log_sink p then [LogResponseSigned (vr_signer verified)] else []))))"

text \<open>The identity the binding policy is asked about: the one of a verified ingress assertion when
  one is required, else the one of the connection.\<close>

definition lb_verified_identity ::
    "ext \<Rightarrow> 'c proxy \<Rightarrow> verified_request \<Rightarrow> int \<Rightarrow> ustring option \<Rightarrow> transport_identity option mcps_result" where
  "lb_verified_identity x p verified now_unix lb_assertion_header =
     (case px_lb_assertion p of
        None \<Rightarrow> Ok None
      | Some lb \<Rightarrow>
          if px_transport_binding p = None then Err TransportBindingFailed
          else case lb_assertion_header of
            None \<Rightarrow> Err TransportBindingFailed
          | Some header \<Rightarrow>
              (case lb_verify x lb header (vr_request_hash verified) now_unix of
                 Inr identity \<Rightarrow> Ok (Some identity)
               | Inl _ \<Rightarrow> Err TransportBindingFailed))"

definition check_transport_binding ::
    "'c proxy \<Rightarrow> verified_request \<Rightarrow> transport_identity option \<Rightarrow> transport_identity option \<Rightarrow> unit mcps_result" where
  "check_transport_binding p verified lb_identity identity =
     (case px_transport_binding p of
        None \<Rightarrow> Ok ()
      | Some check \<Rightarrow> check (vr_signer verified) (case lb_identity of Some i \<Rightarrow> Some i | None \<Rightarrow> identity))"

definition request_id :: "ext \<Rightarrow> bytes \<Rightarrow> json" where
  "request_id x request_bytes =
     (case Option.bind (from_slice x request_bytes) (\<lambda>v. json_get v (lit ''id'')) of Some v \<Rightarrow> v | None \<Rightarrow> Null)"

definition bind_and_dispatch ::
    "ext \<Rightarrow> 'c proxy \<Rightarrow> bytes \<Rightarrow> verified_request \<Rightarrow> int \<Rightarrow> transport_identity option \<Rightarrow> ustring option \<Rightarrow>
     bytes option \<times> proxy_event list" where
  "bind_and_dispatch x p request_bytes verified now_unix identity lb_assertion_header =
     (let id_value = request_id x request_bytes in
      case and_then (lb_verified_identity x p verified now_unix lb_assertion_header) (\<lambda>lb_identity.
             check_transport_binding p verified lb_identity identity) of
        Inl err \<Rightarrow> (Some (json_rpc_error_object x err id_value), [])
      | Inr _ \<Rightarrow>
          (case dispatch_and_sign x p request_bytes verified now_unix id_value of
             (r, evs) \<Rightarrow> (map_option (\<lambda>r. case r of Inr bytes \<Rightarrow> bytes | Inl err \<Rightarrow> json_rpc_error_object x err id_value) r, evs)))"

definition handle_with_transport ::
    "ext \<Rightarrow> 'c proxy \<Rightarrow> 'c \<Rightarrow> bytes \<Rightarrow> int \<Rightarrow> transport_identity option \<Rightarrow> ustring option \<Rightarrow>
     bytes option \<times> proxy_event list \<times> 'c" where
  "handle_with_transport x p c request_bytes now_unix identity lb_assertion_header =
     (let id_value = request_id x request_bytes;
          (verify_result, c') =
            (if px_borrowed p then (Err ReplayCacheUnavailable, c)
             else verify_request_dispatch x (px_resolve p) (px_check p) c (px_config p) now_unix (px_version_policy p) request_bytes) in
      case verify_result of
        Inl err \<Rightarrow> (Some (json_rpc_error_object x err id_value), [], c')
      | Inr verified \<Rightarrow>
          (case px_policy p of
             None \<Rightarrow>
               (case bind_and_dispatch x p request_bytes verified now_unix identity lb_assertion_header of
                  (r, evs) \<Rightarrow> (r, evs, c'))
           | Some (evaluator, revocation) \<Rightarrow>
               (case from_slice x request_bytes of
                  None \<Rightarrow> (Some (json_rpc_error_object x CanonicalizationFailed id_value), [], c')
                | Some request_value \<Rightarrow>
                    (case evaluate x evaluator verified request_value (px_resolve p) revocation now_unix of
                       Deny err \<Rightarrow> (Some (json_rpc_authorization_error x err id_value), [], c')
                     | Allow \<Rightarrow>
                         (case bind_and_dispatch x p request_bytes verified now_unix identity lb_assertion_header of
                            (r, evs) \<Rightarrow> (r, evs, c'))))))"

definition handle :: "ext \<Rightarrow> 'c proxy \<Rightarrow> 'c \<Rightarrow> bytes \<Rightarrow> int \<Rightarrow> bytes option \<times> proxy_event list \<times> 'c" where
  "handle x p c request_bytes now_unix = handle_with_transport x p c request_bytes now_unix None None"

section \<open>Laws of scrubbing\<close>

text \<open>No \<open>_meta\<close> object, at any depth, holds a member the proxy owns.\<close>

fun no_owned :: "json \<Rightarrow> bool" where
  "no_owned (Obj ms) \<longleftrightarrow> (\<forall>k \<in> set PROXY_OWNED_META_KEYS. obj_get k ms = None)"
| "no_owned v \<longleftrightarrow> True"

fun owned_free :: "json \<Rightarrow> bool" where
  "owned_free (Obj ms) \<longleftrightarrow> list_all (\<lambda>(k, v). (k = lit ''_meta'' \<longrightarrow> no_owned v) \<and> owned_free v) ms"
| "owned_free (Arr vs) \<longleftrightarrow> list_all owned_free vs"
| "owned_free v \<longleftrightarrow> True"

lemma json_get_fold_remove: "json_get (fold json_remove ks v) k = (if k \<in> set ks then None else json_get v k)"
proof (induction ks arbitrary: v)
  case (Cons l ks)
  have "json_get (json_remove l v) k = (if k = l then None else json_get v k)" by (cases v) auto
  then show ?case using Cons by (cases "k = l") auto
qed simp

lemma no_owned_get: "no_owned v \<longleftrightarrow> (\<forall>k \<in> set PROXY_OWNED_META_KEYS. json_get v k = None)"
  by (cases v) auto

lemma no_owned_strip: "no_owned (strip_owned v)"
  by (simp add: no_owned_get strip_owned_def json_get_fold_remove)

lemma scrub_keys [simp]: "map fst (map (\<lambda>(k, v). (k, f k v)) ms) = map fst ms"
  by (simp add: comp_def split_def)

lemma keys_sorted_map: "keys_sorted (map (\<lambda>(k, v). (k, f k v)) ms) \<longleftrightarrow> keys_sorted ms"
  unfolding keys_sorted_def scrub_keys ..

lemma obj_get_map: "obj_get k (map (\<lambda>(k, v). (k, f k v)) ms) = map_option (f k) (obj_get k ms)"
  by (induction ms) auto

lemma json_get_scrub:
  "json_get (scrub_proxy_owned_meta v) k =
     map_option (\<lambda>w. scrub_proxy_owned_meta (if k = lit ''_meta'' then strip_owned w else w)) (json_get v k)"
  by (cases v) (simp_all add: obj_get_map)

lemma as_object_scrub: "as_object (scrub_proxy_owned_meta v) = None \<longleftrightarrow> as_object v = None"
  by (cases v) simp_all

lemma no_owned_scrub: "no_owned v \<Longrightarrow> no_owned (scrub_proxy_owned_meta v)"
  by (simp add: no_owned_get json_get_scrub)

lemma scrub_owned_free: "owned_free (scrub_proxy_owned_meta v)"
proof (induction v rule: scrub_proxy_owned_meta.induct)
  case (1 ms)
  then show ?case by (fastforce simp: list_all_iff no_owned_strip intro: no_owned_scrub)
qed (auto simp: list_all_iff)

text \<open>Only owned members disappear: what has none is left as it is.\<close>

lemma strip_owned_id: "no_owned v \<Longrightarrow> strip_owned v = v"
proof -
  have "json_remove k v = v" if "json_get v k = None" for k using that by (cases v) (simp_all add: obj_remove_absent)
  then have "fold json_remove ks v = v" if "\<forall>k \<in> set ks. json_get v k = None" for ks
    using that by (induction ks) auto
  then show "no_owned v \<Longrightarrow> strip_owned v = v" by (simp add: no_owned_get strip_owned_def)
qed

lemma scrub_id: "owned_free v \<Longrightarrow> scrub_proxy_owned_meta v = v"
proof (induction v rule: scrub_proxy_owned_meta.induct)
  case (1 ms)
  have "scrub_proxy_owned_meta (if k = lit ''_meta'' then strip_owned v else v) = v" if "(k, v) \<in> set ms" for k v
    using 1(1) [OF that refl] 1(2) that by (auto simp: list_all_iff strip_owned_id)
  then show ?case by (auto intro!: map_idI)
qed (auto simp: list_all_iff intro: map_idI)

lemma scrub_wf: "json_wf v \<Longrightarrow> json_wf (scrub_proxy_owned_meta v)"
proof (induction v rule: scrub_proxy_owned_meta.induct)
  case (1 ms)
  have "json_wf w \<Longrightarrow> json_wf (strip_owned w)" for w by (simp add: strip_owned_def)
  then have "json_wf (scrub_proxy_owned_meta (if k = lit ''_meta'' then strip_owned v else v))" if "(k, v) \<in> set ms" for k v
    using 1(1) [OF that refl] 1(2) that by (auto simp: list_all_iff)
  then show ?case using 1(2) by (auto simp: list_all_iff keys_sorted_map)
qed (auto simp: list_all_iff)

lemma safe_strip_owned: "safe_json v d \<Longrightarrow> safe_json (strip_owned v) d"
proof -
  have "safe_json v d \<Longrightarrow> safe_json (fold json_remove ks v) d" for ks by (induction ks arbitrary: v) auto
  then show "safe_json v d \<Longrightarrow> safe_json (strip_owned v) d" by (simp add: strip_owned_def)
qed

lemma scrub_safe: "safe_json v d \<Longrightarrow> safe_json (scrub_proxy_owned_meta v) d"
proof (induction v arbitrary: d rule: scrub_proxy_owned_meta.induct)
  case (1 ms)
  have "safe_json (scrub_proxy_owned_meta (if k = lit ''_meta'' then strip_owned v else v)) (d + 1)" if "(k, v) \<in> set ms" for k v
    using 1(1) [OF that refl, of "d + 1"] 1(2) that safe_strip_owned by (auto simp: list_all_iff)
  then show ?case using 1(2) by (auto simp: list_all_iff)
qed (auto simp: list_all_iff)

section \<open>Laws of indexing\<close>

lemma insert_is_update: "keys_sorted ms \<Longrightarrow> obj_get k ms = Some v \<Longrightarrow> obj_insert k (f v) ms = obj_update k f ms"
  by (rule members_ext) auto

lemma index_update_existing:
  "json_wf v \<Longrightarrow> json_path v ks = Some w \<Longrightarrow> index_update ks f v = Some (update_path ks f v)"
proof (induction ks f v rule: index_update.induct)
  case (3 k ks f ms)
  then obtain u where u: "obj_get k ms = Some u" "json_path u ks = Some w" by (auto split: option.split_asm)
  have "json_wf u" using json_wf_get [OF "3.prems"(1), of k u] u(1) by simp
  then have "index_update ks f u = Some (update_path ks f u)" using "3.IH" u by simp
  then show ?case using "3.prems"(1) u(1) by (simp add: insert_is_update)
qed auto

lemma index_insert:
  assumes "json_wf v" "json_path v ks = Some (Obj ms)"
  shows "index_update (ks @ [k]) (\<lambda>_. w) v = Some (update_path ks (json_insert k w) v)"
  using assms
proof (induction ks arbitrary: v)
  case (Cons l ks)
  then obtain ns u where u: "v = Obj ns" "obj_get l ns = Some u" "json_path u ks = Some (Obj ms)"
    by (cases v) (auto split: option.split_asm)
  have "json_wf u" using json_wf_get [OF Cons.prems(1), of l u] u(1,2) by simp
  then have "index_update (ks @ [k]) (\<lambda>_. w) u = Some (update_path ks (json_insert k w) u)" using Cons.IH u(3) by blast
  then show ?case using Cons.prems(1) u(1,2) by (simp add: insert_is_update)
qed simp

text \<open>The \<open>_meta\<close> of an object result as the assignment finds it; \<open>None\<close> where indexing it panics.\<close>

definition result_meta :: "members \<Rightarrow> members option" where
  "result_meta ms =
     (case obj_get (lit ''_meta'') ms of None \<Rightarrow> Some [] | Some Null \<Rightarrow> Some [] | Some (Obj m) \<Rightarrow> Some m | _ \<Rightarrow> None)"

definition with_envelope :: "json \<Rightarrow> members \<Rightarrow> members \<Rightarrow> members" where
  "with_envelope envelope m ms = obj_insert (lit ''_meta'') (Obj (obj_insert RESPONSE_META_KEY envelope m)) ms"

lemma response_object_members:
  "response_object rid result = Obj [(lit ''id'', rid), (lit ''jsonrpc'', Str (lit ''2.0'')), (lit ''result'', result)]"
  by (simp add: response_object_def json_object_def lit_def)

lemma index_response:
  "index_update response_path (\<lambda>_. envelope) (response_object rid (Obj ms)) =
     map_option (\<lambda>m. response_object rid (Obj (with_envelope envelope m ms))) (result_meta ms)"
proof -
  have "\<not> lit ''result'' < lit ''id''" "\<not> lit ''result'' < lit ''jsonrpc''" by (simp_all add: lit_def)
  then show ?thesis
    by (simp add: response_path_def response_object_members with_envelope_def result_meta_def split: option.split json.split)
qed

lemma with_envelope_path: "json_path (Obj (with_envelope envelope m ms)) [lit ''_meta'', RESPONSE_META_KEY] = Some envelope"
  by (simp add: with_envelope_def)

lemma result_meta_wf:
  assumes "json_wf (Obj ms)" "safe_json (Obj ms) d" "result_meta ms = Some m" "d + 1 < MAX_PARSE_DEPTH"
  shows "json_wf (Obj m)" "safe_json (Obj m) (d + 1)"
  using json_wf_get [OF assms(1), of "lit ''_meta''"] safe_obj_get [OF assms(2), of "lit ''_meta''"] assms(3,4)
  by (auto simp: result_meta_def split: option.split_asm json.split_asm)

lemma with_envelope_wf:
  assumes "json_wf (Obj ms)" "safe_json (Obj ms) d" "result_meta ms = Some m" "d + 1 < MAX_PARSE_DEPTH"
    and "json_wf envelope" "safe_json envelope (d + 2)"
  shows "json_wf (Obj (with_envelope envelope m ms))" "safe_json (Obj (with_envelope envelope m ms)) d"
  unfolding with_envelope_def
  using result_meta_wf [OF assms(1-4)] assms(1,2,5,6)
  by (intro json_wf_insert safe_obj_insert; simp add: RESPONSE_META_KEY_def)+

lemma response_object_wf:
  assumes "json_wf rid" "safe_json rid 1" "json_wf result" "safe_json result 1"
  shows "json_wf (response_object rid result)" "safe_json (response_object rid result) 0"
proof -
  show "json_wf (response_object rid result)" using assms unfolding response_object_members by simp (simp add: lit_def)
  show "safe_json (response_object rid result) 0" using assms unfolding response_object_members by (simp add: MAX_PARSE_DEPTH_def)
qed

section \<open>What the proxy signs\<close>

definition response_env :: "'c proxy \<Rightarrow> verified_request \<Rightarrow> int \<Rightarrow> ustring option \<Rightarrow> response_envelope" where
  "response_env p vr now sig = \<lparr>rs_request_hash = vr_request_hash vr, rs_server_signer = px_server_signer p,
     rs_issued_at = unix_to_rfc3339_utc now, rs_signature = \<lparr>sb_alg = SIG_ALG_ED25519, sb_key_id = px_key_id p, sb_value = sig\<rparr>\<rparr>"

definition response_env_draft02 :: "'c proxy \<Rightarrow> verified_request \<Rightarrow> ustring \<Rightarrow> int \<Rightarrow> ustring option \<Rightarrow> draft02_response_envelope" where
  "response_env_draft02 p vr cid now sig = \<lparr>d2r_version = VERSION_DRAFT_02, d2r_canonicalization_id = cid,
     d2r_request_hash = vr_request_hash vr, d2r_server_signer = px_server_signer p, d2r_issued_at = unix_to_rfc3339_utc now,
     d2r_signature = \<lparr>sb_alg = SIG_ALG_ED25519, sb_key_id = px_key_id p, sb_value = sig\<rparr>\<rparr>"

definition ser_env :: "'c proxy \<Rightarrow> verified_request \<Rightarrow> int \<Rightarrow> ustring option \<Rightarrow> json" where
  "ser_env p vr now sig =
     (case vr_authorization vr of
        Draft01Hash _ \<Rightarrow> ser_response_envelope (response_env p vr now sig)
      | Draft02Binding _ \<Rightarrow> ser_draft02_response_envelope (response_env_draft02 p vr (the (vr_canonicalization_id vr)) now sig))"

text \<open>A verdict as the verifiers give it: a draft-02 one carries its canonicalization id.\<close>

definition verdict_ok :: "verified_request \<Rightarrow> bool" where
  "verdict_ok vr \<longleftrightarrow> (\<forall>b. vr_authorization vr = Draft02Binding b \<longrightarrow> vr_canonicalization_id vr \<noteq> None)"

lemma response_envelope_ser: "verdict_ok vr \<Longrightarrow> build_response_envelope p vr now = Ok (ser_env p vr now None)"
  by (auto simp: build_response_envelope_def ser_env_def verdict_ok_def response_env_def response_env_draft02_def
      ser_response_envelope_def response_members_def ser_draft02_response_envelope_def draft02_response_members_def
      ser_signature_block_def json_object_def lit_def split: verified_authorization.split)

lemma insert_signature_ser:
  "update_path [lit ''signature''] (json_insert (lit ''value'') (Str s)) (ser_env p vr now None) = ser_env p vr now (Some s)"
  by (simp add: ser_env_def response_env_def response_env_draft02_def
      ser_response_envelope_def response_members_def ser_draft02_response_envelope_def draft02_response_members_def
      ser_signature_block_def obj_update_def lit_def split: verified_authorization.split)

lemma ser_env_signature: "\<exists>ms. json_path (ser_env p vr now sig) [lit ''signature''] = Some (Obj ms)"
  by (simp add: ser_env_def ser_response_envelope_def response_members_def ser_draft02_response_envelope_def
      draft02_response_members_def ser_signature_block_def split: verified_authorization.split)

lemma ser_env_wf:
  assumes "verdict_ok vr" "list_all valid_str [px_server_signer p, px_key_id p, vr_request_hash vr]"
    and "\<And>cid. vr_canonicalization_id vr = Some cid \<Longrightarrow> valid_str cid"
  shows "json_wf (ser_env p vr now None)" "safe_json (ser_env p vr now None) 3"
proof -
  show "json_wf (ser_env p vr now None)"
  proof (cases "vr_authorization vr")
    case (Draft01Hash h)
    then show ?thesis using assms rfc3339_valid
      by (simp add: ser_env_def response_env_def ser_response_envelope_def response_members_def ser_signature_block_def const_defs)
        (simp add: lit_def)
  next
    case (Draft02Binding b)
    then obtain cid where "vr_canonicalization_id vr = Some cid" "valid_str cid" using assms by (auto simp: verdict_ok_def)
    then show ?thesis using assms(2) Draft02Binding rfc3339_valid
      by (simp add: ser_env_def response_env_draft02_def ser_draft02_response_envelope_def draft02_response_members_def
          ser_signature_block_def const_defs) (simp add: lit_def)
  qed
  show "safe_json (ser_env p vr now None) 3"
    by (simp add: ser_env_def ser_response_envelope_def response_members_def ser_draft02_response_envelope_def
        draft02_response_members_def ser_signature_block_def response_env_def response_env_draft02_def MAX_PARSE_DEPTH_def
        split: verified_authorization.split)
qed

lemma obj_remove_update_same: "obj_remove k (obj_update k f ms) = obj_remove k ms"
  by (induction ms) (auto simp: obj_remove_def obj_update_def)

lemma obj_remove_insert_same: "obj_remove k (obj_insert k v ms) = obj_remove k ms"
  by (induction k v ms rule: obj_insert.induct) (auto simp: obj_remove_def)

text \<open>Whatever object is to be returned, the response is signed, printed, and opens again.\<close>

lemma signed_response_opens:
  assumes x: "base64_documented x" "ed25519_documented x" "serde_documented x" "serde_prints x"
    and p: "px_sign p = sign_response x sk" "length (sk_seed sk) = 32"
      "list_all valid_str [px_server_signer p, px_key_id p, vr_request_hash vr]"
    and vr: "verdict_ok vr" "\<And>cid. vr_canonicalization_id vr = Some cid \<Longrightarrow> valid_str cid"
    and rid: "json_wf rid" "safe_json rid 1" "rid \<noteq> Null"
    and inner: "from_slice x inner_bytes = Some inner" "scrub_proxy_owned_meta (wrap_result inner) = Obj ms"
      "safe_json (Obj ms) 1" "json_wf (Obj ms)" "result_meta ms = Some m"
  shows "\<exists>bs signed pre ms'. build_signed_response x p inner_bytes vr now rid = Some (Ok bs) \<and>
    open_message x bs = Ok signed \<and> signing_preimage signed Response = Ok pre \<and>
    json_path signed response_path = Some (ser_env p vr now (Some (sign x sk pre))) \<and>
    json_get signed (lit ''id'') = Some rid \<and> json_get signed (lit ''result'') = Some (Obj ms') \<and>
    obj_remove (lit ''_meta'') ms' = obj_remove (lit ''_meta'') ms \<and>
    (\<forall>e. verify_ed25519_with x pre (sign x sk pre) (public_key x sk) e = Ok ())"
proof -
  let ?env = "ser_env p vr now None" and ?r = "Obj (with_envelope (ser_env p vr now None) m ms)"
  let ?o = "response_object rid ?r"
  note env = ser_env_wf [OF vr(1) p(3) vr(2), where now = now]
  have r: "json_wf ?r" "safe_json ?r 1"
    using with_envelope_wf [OF inner(4,3,5) _ env(1)] env(2) by (simp_all add: MAX_PARSE_DEPTH_def numeral_3_eq_3)
  note o = response_object_wf [OF rid(1,2) r]
  have path: "json_path ?o response_path = Some ?env"
    using with_envelope_path [of ?env m ms] by (simp add: response_path_def response_object_members)
  have sp: "signature_path Response = response_path @ [lit ''signature'']"
    by (simp add: signature_path_def response_path_def)
  obtain sb where sb: "json_path ?o (signature_path Response) = Some (Obj sb)"
    unfolding sp json_path_append path using ser_env_signature [of p vr now None] by auto
  from signed_in_place [OF x p(2) o sb] obtain pre signed bs cs where
    s: "sign_in_place x sk Response ?o = Ok signed"
      "signed = update_path (signature_path Response) (json_insert (lit ''value'') (Str (sign x sk pre))) ?o"
      "signing_preimage signed Response = Ok pre" "to_vec x signed = Some bs" "from_slice x bs = Some signed"
      "canonicalize bs = Ok cs" "\<forall>e. verify_ed25519_with x pre (sign x sk pre) (public_key x sk) e = Ok ()" by blast
  have pre: "signing_preimage ?o Response = Ok pre" using s(2,3) preimage_insert_signature [of Response _ ?o] by simp
  have "index_update (response_path @ [lit ''signature'', lit ''value'']) (\<lambda>_. Str (sign x sk pre)) ?o = Some signed"
    using index_insert [OF o(1) sb, of "lit ''value''" "Str (sign x sk pre)"] s(2) by (simp add: sp)
  then have "build_signed_response x p inner_bytes vr now rid = Some (Ok bs)"
    by (simp add: build_signed_response_def inner(1,2,5) response_envelope_ser [OF vr(1)] index_response
        response_signing_preimage_def pre p(1) sign_response_def s(4))
  moreover have "json_path signed response_path = Some (ser_env p vr now (Some (sign x sk pre)))"
    using json_path_update [of response_path _ ?o "[]"] path insert_signature_ser
    unfolding s(2) sp update_path_append by simp
  moreover have id: "json_get signed (lit ''id'') = Some rid"
    unfolding s(2) signature_path_def response_object_members by simp
  moreover have "open_message x bs = Ok signed"
    using id rid(3) s(5,6) unfolding open_message_Ok s(2) signature_path_def response_object_members
    by (simp add: is_array_def)
  moreover have "\<exists>ms'. json_get signed (lit ''result'') = Some (Obj ms') \<and> obj_remove (lit ''_meta'') ms' = obj_remove (lit ''_meta'') ms"
    unfolding s(2) signature_path_def response_object_members
    by (simp add: with_envelope_def obj_remove_update_same obj_remove_insert_same)
  ultimately show ?thesis using s(3,7) by blast
qed

lemma verify_signed_response:
  assumes "open_message x bs = Ok signed" "signing_preimage signed Response = Ok pre"
    and "json_path signed response_path = Some (ser_env p vr now (Some (sign x sk pre)))"
    and "\<forall>e. verify_ed25519_with x pre (sign x sk pre) (public_key x sk) e = Ok ()"
    and "resolve (px_server_signer p) (px_key_id p) = Ok (public_key x sk)" and "authorization_ok vr"
  shows "case vr_authorization vr of
      Draft01Hash h \<Rightarrow> verify_response x resolve (vr_request_hash vr) bs =
        Ok \<lparr>vs_server_signer = px_server_signer p, vs_key_id = px_key_id p, vs_request_hash = vr_request_hash vr\<rparr>
    | Draft02Binding b \<Rightarrow> verify_response_draft02 x resolve (vr_request_hash vr) CANONICALIZATION_ID_INT53_V1 bs =
        Ok \<lparr>vs_server_signer = px_server_signer p, vs_key_id = px_key_id p, vs_request_hash = vr_request_hash vr\<rparr>"
proof (cases "vr_authorization vr")
  case (Draft01Hash h)
  have "extract_response_envelope signed = Ok (response_env p vr now (Some (sign x sk pre)))"
    using assms(3) unfolding extract_response_envelope_Ok response_path_def
    by (auto simp: ser_env_def Draft01Hash de_response_envelope_ser)
  then show ?thesis
    using assms by (simp add: Draft01Hash verify_response_def response_env_def ensure_ed25519_alg_def response_signing_preimage_def)
next
  case (Draft02Binding b)
  have cid: "vr_canonicalization_id vr = Some CANONICALIZATION_ID_INT53_V1" using assms(6) Draft02Binding by (simp add: authorization_ok_def)
  let ?env = "response_env_draft02 p vr CANONICALIZATION_ID_INT53_V1 now (Some (sign x sk pre))"
  have raw: "locate_envelope signed (lit ''result'') RESPONSE_META_KEY = Ok (ser_draft02_response_envelope ?env)"
    using assms(3) unfolding response_path_def by (simp add: result_simps ser_env_def Draft02Binding cid del: json_path.simps)
  have "require_draft02_version (ser_draft02_response_envelope ?env) = Ok ()"
    by (simp add: require_draft02_version_def ser_draft02_response_envelope_def draft02_response_members_def response_env_draft02_def get_str_def)
  moreover have "check_canonicalization_id (ser_draft02_response_envelope ?env) = Ok ()"
    unfolding check_canonicalization_id_Ok
    by (simp add: ser_draft02_response_envelope_def draft02_response_members_def response_env_draft02_def)
  ultimately have "extract_draft02_response_envelope signed = Ok ?env"
    unfolding extract_draft02_response_envelope_def raw by (simp add: deserialize_envelope_Ok de_draft02_response_envelope_ser)
  then show ?thesis
    using assms by (simp add: Draft02Binding verify_response_draft02_def response_env_draft02_def ensure_ed25519_alg_def response_signing_preimage_def)
qed

section \<open>What the client recovers\<close>

lemma safe_json_mono: "safe_json v d \<Longrightarrow> e \<le> d \<Longrightarrow> safe_json v e"
proof (induction v d arbitrary: e rule: safe_json.induct)
  case (2 vs d)
  then show ?case by (fastforce simp: list_all_iff)
next
  case (3 ms d)
  then show ?case by (fastforce simp: list_all_iff)
qed auto

lemma safe_json_get: "safe_json v d \<Longrightarrow> json_get v k = Some w \<Longrightarrow> safe_json w (d + 1)"
  by (cases v) (use safe_obj_get in \<open>auto simp del: safe_json.simps(3)\<close>)

text \<open>The one shape of inner response that is lost: an object result that consists of a single
  member with the name of a wrapper.\<close>

definition looks_wrapped :: "json \<Rightarrow> bool" where
  "looks_wrapped result \<longleftrightarrow>
     (case result of
        Obj ms \<Rightarrow> (\<exists>k v. obj_remove (lit ''_meta'') ms = [(k, v)] \<and> k \<in> {lit ''value'', lit ''inner_error''})
      | _ \<Rightarrow> False)"

definition recovered :: "json \<Rightarrow> unwrapped_result" where
  "recovered inner =
     (case json_get inner (lit ''result'') of
        Some (Obj ms) \<Rightarrow> ObjectResult (json_remove (lit ''_meta'') (scrub_proxy_owned_meta (Obj ms)))
      | Some v \<Rightarrow> ScalarResult (scrub_proxy_owned_meta v)
      | None \<Rightarrow> InnerError (scrub_proxy_owned_meta inner))"

text \<open>The inner responses the proxy can sign: JSON of the safe domain, with two levels to spare, whose
  object result has no \<open>_meta\<close> or an object (or \<open>null\<close>) as its \<open>_meta\<close>.\<close>

definition signable_inner :: "json \<Rightarrow> bool" where
  "signable_inner inner \<longleftrightarrow> safe_json inner 2 \<and>
     (\<forall>ms. json_get inner (lit ''result'') = Some (Obj ms) \<longrightarrow> result_meta ms \<noteq> None)"

lemma signable_result:
  assumes "signable_inner inner" "json_wf inner" "json_get inner (lit ''result'') = Some r"
  shows "json_wf r" "safe_json r 2"
proof -
  show "json_wf r" using assms(2,3) by (rule json_wf_get)
  have "safe_json r (2 + 1)" using assms(1,3) safe_json_get by (fastforce simp: signable_inner_def)
  then show "safe_json r 2" by (rule safe_json_mono) simp
qed

lemma result_meta_scrub:
  "result_meta (map (\<lambda>(k, v). (k, scrub_proxy_owned_meta (if k = lit ''_meta'' then strip_owned v else v))) ms) = None \<longleftrightarrow>
     result_meta ms = None"
proof (cases "obj_get (lit ''_meta'') ms")
  case (Some v)
  have keep: "strip_owned v = v" if "\<And>m. v \<noteq> Obj m"
    using that strip_owned_id [of v] by (cases v) auto
  have obj: "\<exists>m'. strip_owned (Obj m) = Obj m'" for m
  proof -
    have "\<exists>m'. fold json_remove ks (Obj m) = Obj m'" for ks by (induction ks arbitrary: m) auto
    then show ?thesis by (simp add: strip_owned_def)
  qed
  show ?thesis
  proof (cases v)
    case (Obj m)
    then show ?thesis using Some obj [of m] by (auto simp: result_meta_def obj_get_map)
  qed (use Some keep in \<open>simp_all add: result_meta_def obj_get_map\<close>)
qed (simp add: result_meta_def obj_get_map)

lemma obj_remove_map: "obj_remove k (map (\<lambda>(k, v). (k, f k v)) ms) = map (\<lambda>(k, v). (k, f k v)) (obj_remove k ms)"
  by (induction ms) (auto simp: obj_remove_def)

lemma wrap_object:
  assumes "json_get inner (lit ''result'') = Some (Obj r)" "signable_inner inner" "json_wf inner"
  shows "\<exists>ms m. scrub_proxy_owned_meta (wrap_result inner) = Obj ms \<and> result_meta ms = Some m \<and> json_wf (Obj ms) \<and>
    safe_json (Obj ms) 1 \<and> (\<not> looks_wrapped (Obj r) \<longrightarrow>
      (\<forall>ms'. obj_remove (lit ''_meta'') ms' = obj_remove (lit ''_meta'') ms \<longrightarrow> unwrap_verified_result (Obj ms') = Ok (recovered inner)))"
proof -
  define f where "f k v = scrub_proxy_owned_meta (if k = lit ''_meta'' then strip_owned v else v)" for k v
  define ms where "ms = map (\<lambda>(k, v). (k, f k v)) r"
  have ms: "scrub_proxy_owned_meta (Obj r) = Obj ms" by (simp add: ms_def f_def)
  have "scrub_proxy_owned_meta (wrap_result inner) = Obj ms" using assms(1) ms by (simp add: wrap_result_def)
  moreover obtain m where "result_meta ms = Some m"
    using assms(1,2) result_meta_scrub [of r] unfolding signable_inner_def ms_def f_def by blast
  moreover have "json_wf (Obj r)" "safe_json (Obj r) 1"
    using signable_result [OF assms(2,3,1)] safe_json_mono [of "Obj r" 2 1] by simp_all
  then have "json_wf (Obj ms)" "safe_json (Obj ms) 1"
    using scrub_wf scrub_safe unfolding ms [symmetric] by blast+
  moreover have "unwrap_verified_result (Obj ms') = Ok (recovered inner)"
    if "\<not> looks_wrapped (Obj r)" "obj_remove (lit ''_meta'') ms' = obj_remove (lit ''_meta'') ms" for ms'
  proof -
    have "recovered inner = ObjectResult (Obj (obj_remove (lit ''_meta'') ms))"
      using assms(1) ms by (simp add: recovered_def)
    then show ?thesis using that
      by (auto simp: unwrap_payload looks_wrapped_def ms_def obj_remove_map split: list.split)
  qed
  ultimately show ?thesis by blast
qed

lemma wrap_single:
  assumes "k \<noteq> lit ''_meta''" "json_wf v" "safe_json v 2" "valid_str k"
  shows "scrub_proxy_owned_meta (json_object [(k, v)]) = Obj [(k, scrub_proxy_owned_meta v)]"
    "result_meta [(k, scrub_proxy_owned_meta v)] = Some []" "json_wf (Obj [(k, scrub_proxy_owned_meta v)])"
    "safe_json (Obj [(k, scrub_proxy_owned_meta v)]) 1"
    "obj_remove (lit ''_meta'') [(k, scrub_proxy_owned_meta v)] = [(k, scrub_proxy_owned_meta v)]"
  using assms scrub_wf [OF assms(2)] scrub_safe [OF assms(3)]
  by (simp_all add: json_object_def result_meta_def obj_remove_def keys_sorted_def numeral_2_eq_2 MAX_PARSE_DEPTH_def)

lemma wrap_result_cases:
  assumes "signable_inner inner" "json_wf inner"
  shows "\<exists>ms m. scrub_proxy_owned_meta (wrap_result inner) = Obj ms \<and> result_meta ms = Some m \<and> json_wf (Obj ms) \<and>
    safe_json (Obj ms) 1 \<and> (\<not> (\<exists>r. json_get inner (lit ''result'') = Some r \<and> looks_wrapped r) \<longrightarrow>
      (\<forall>ms'. obj_remove (lit ''_meta'') ms' = obj_remove (lit ''_meta'') ms \<longrightarrow> unwrap_verified_result (Obj ms') = Ok (recovered inner)))"
proof (cases "json_get inner (lit ''result'')")
  case None
  have s: "safe_json inner 2" using assms(1) by (simp add: signable_inner_def)
  have "recovered inner = InnerError (scrub_proxy_owned_meta inner)" "wrap_result inner = json_object [(lit ''inner_error'', inner)]"
    using None by (simp_all add: recovered_def wrap_result_def RESPONSE_WRAP_INNER_ERROR_KEY_def)
  moreover have "lit ''inner_error'' \<noteq> lit ''_meta''" "lit ''inner_error'' \<noteq> lit ''value''" "valid_str (lit ''inner_error'')" by simp_all
  ultimately show ?thesis using wrap_single [of "lit ''inner_error''", OF _ assms(2) s] None
    by (simp only: option.distinct unwrap_payload json.case list.case) simp
next
  case (Some r)
  show ?thesis
  proof (cases "as_object r")
    case None
    have s: "safe_json r 2" "json_wf r"
      using signable_result [OF assms Some] by simp_all
    have "recovered inner = ScalarResult (scrub_proxy_owned_meta r)" "wrap_result inner = json_object [(lit ''value'', r)]"
      using Some None by (auto simp: recovered_def wrap_result_def RESPONSE_WRAP_VALUE_KEY_def split: json.split)
    moreover have "lit ''value'' \<noteq> lit ''_meta''" "valid_str (lit ''value'')" by simp_all
    ultimately show ?thesis using wrap_single [of "lit ''value''", OF _ s(2,1)]
      by (simp only: unwrap_payload json.case list.case) simp
  next
    case (Some r')
    then have "r = Obj r'" by (cases r) simp_all
    then show ?thesis using wrap_object [of inner r'] assms \<open>json_get inner (lit ''result'') = Some r\<close> by simp
  qed
qed

end
