(* ===== verification/Sidecar_Gate.thy ===== *)
theory Sidecar_Gate
  imports Sidecar
begin

text \<open>
  What one call of the sidecar of \<open>Sidecar\<close> guarantees: which requests reach the inner server, what
  exactly is forwarded for them, and that the client verifies and unwraps what comes back.
\<close>

section \<open>Which requests reach the inner server\<close>

text \<open>A request is admitted when the dispatcher accepts it, the policy (if there is one) allows it,
  and the channel it came over is bound to its signer.\<close>

definition admitted ::
    "ext \<Rightarrow> 'c proxy \<Rightarrow> 'c \<Rightarrow> bytes \<Rightarrow> int \<Rightarrow> transport_identity option \<Rightarrow> ustring option \<Rightarrow> verified_request \<Rightarrow> 'c \<Rightarrow> bool" where
  "admitted x p c raw now identity header vr c' \<longleftrightarrow>
     \<not> px_borrowed p \<and>
     verify_request_dispatch x (px_resolve p) (px_check p) c (px_config p) now (px_version_policy p) raw = (Ok vr, c') \<and>
     (case px_policy p of
        None \<Rightarrow> True
      | Some (evaluator, revocation) \<Rightarrow>
          (\<exists>value. from_slice x raw = Some value \<and>
             evaluate x evaluator vr value (px_resolve p) revocation now = Allow)) \<and>
     (\<exists>i. lb_verified_identity x p vr now header = Ok i \<and> check_transport_binding p vr i identity = Ok ())"

definition dispatched :: "proxy_event list \<Rightarrow> bytes list" where
  "dispatched evs = concat (map (\<lambda>e. case e of Dispatched fwd \<Rightarrow> [fwd] | _ \<Rightarrow> []) evs)"

lemma dispatched_simps [simp]:
  "dispatched [] = []" "dispatched (Dispatched fwd # evs) = fwd # dispatched evs"
  "dispatched (LogRequestForwarded s # evs) = dispatched evs" "dispatched (LogResponseSigned s # evs) = dispatched evs"
  by (simp_all add: dispatched_def)

lemma dispatch_and_sign_dispatched:
  "dispatched (snd (dispatch_and_sign x p raw vr now rid)) =
     (case build_forwarded_request x p raw vr now of Some (Inr fwd) \<Rightarrow> [fwd] | _ \<Rightarrow> [])"
  by (auto simp: dispatch_and_sign_def Let_def split: option.split sum.split)

lemma bind_and_dispatch_bound:
  assumes "lb_verified_identity x p vr now header = Ok i" "check_transport_binding p vr i identity = Ok ()"
  shows "bind_and_dispatch x p raw vr now identity header =
    (case dispatch_and_sign x p raw vr now (request_id x raw) of
       (r, evs) \<Rightarrow> (map_option (\<lambda>r. case r of Inr bytes \<Rightarrow> bytes | Inl err \<Rightarrow> json_rpc_error_object x err (request_id x raw)) r, evs))"
  using assms by (simp add: bind_and_dispatch_def Let_def)

lemma bind_and_dispatch_dispatched:
  "dispatched (snd (bind_and_dispatch x p raw vr now identity header)) =
     (if \<exists>i. lb_verified_identity x p vr now header = Ok i \<and> check_transport_binding p vr i identity = Ok ()
      then dispatched (snd (dispatch_and_sign x p raw vr now (request_id x raw))) else [])"
  by (auto simp: bind_and_dispatch_def Let_def result_simps split: sum.split prod.split)

lemma admitted_unique:
  "admitted x p c raw now identity header vr c' \<Longrightarrow> admitted x p c raw now identity header vr2 c2 \<Longrightarrow> vr2 = vr \<and> c2 = c'"
  by (simp add: admitted_def)

lemma handle_admitted:
  assumes "admitted x p c raw now identity header vr c'"
  shows "handle_with_transport x p c raw now identity header =
    (case bind_and_dispatch x p raw vr now identity header of (r, evs) \<Rightarrow> (r, evs, c'))"
  using assms by (auto simp: admitted_def handle_with_transport_def Let_def split: option.splits prod.splits)

lemma handle_refused:
  assumes "handle_with_transport x p c raw now identity header = (r, evs, c')" "dispatched evs \<noteq> []"
  shows "\<exists>vr. admitted x p c raw now identity header vr c'"
proof -
  obtain vres c'' where v: "(if px_borrowed p then (Err ReplayCacheUnavailable, c)
      else verify_request_dispatch x (px_resolve p) (px_check p) c (px_config p) now (px_version_policy p) raw) = (vres, c'')"
    by fastforce
  then obtain vr where vr: "vres = Ok vr" using assms by (cases vres) (auto simp: handle_with_transport_def Let_def)
  have b: "\<exists>i. lb_verified_identity x p vr now header = Ok i \<and> check_transport_binding p vr i identity = Ok ()"
    if "snd (bind_and_dispatch x p raw vr now identity header) = evs"
    using assms(2) that bind_and_dispatch_dispatched [of x p raw vr now identity header] by (auto split: if_split_asm)
  show ?thesis
    using assms v vr b
    by (auto simp: handle_with_transport_def Let_def admitted_def split: option.splits prod.splits if_split_asm authorization_decision.splits)
qed

lemma handle_dispatches:
  assumes "admitted x p c raw now identity header vr c'" "build_forwarded_request x p raw vr now = Some (Ok fwd)"
  shows "dispatched (fst (snd (handle_with_transport x p c raw now identity header))) = [fwd]"
proof -
  have "fst (snd (handle_with_transport x p c raw now identity header)) = snd (bind_and_dispatch x p raw vr now identity header)"
    unfolding handle_admitted [OF assms(1)] by (simp split: prod.split)
  moreover have "\<exists>i. lb_verified_identity x p vr now header = Ok i \<and> check_transport_binding p vr i identity = Ok ()"
    using assms(1) by (simp add: admitted_def)
  ultimately show ?thesis by (simp add: bind_and_dispatch_dispatched dispatch_and_sign_dispatched assms(2))
qed

lemma handle_answers:
  assumes "admitted x p c raw now identity header vr c'" "build_forwarded_request x p raw vr now = Some (Ok fwd)"
    and "build_signed_response x p (px_inner p fwd) vr now (request_id x raw) = Some (Ok bs)"
  shows "fst (handle_with_transport x p c raw now identity header) = Some bs"
proof -
  from assms(1) obtain i where i: "lb_verified_identity x p vr now header = Ok i" "check_transport_binding p vr i identity = Ok ()"
    by (auto simp: admitted_def)
  show ?thesis
    unfolding handle_admitted [OF assms(1)] bind_and_dispatch_bound [OF i] using assms(2,3) by (simp add: dispatch_and_sign_def Let_def)
qed

section \<open>What is forwarded\<close>

lemma serde_ok_safe: "from_serde_value_at j d = Ok v \<Longrightarrow> safe_json j d"
proof (induction j d arbitrary: v rule: from_serde_value_at.induct)
  case (3 n d)
  then show ?case
    by (cases n) (auto simp: check_safe_integer_def MAX_SAFE_INTEGER_def i64_simps
        result_simps split: option.split_asm if_split_asm)
next
  case (5 vs d)
  from 5(2) obtain out where d: "d < MAX_PARSE_DEPTH" and out: "map (\<lambda>item. from_serde_value_at item (d + 1)) vs = map Inr out"
    by (auto simp: result_simps collect_eq_Inr split: if_split_asm)
  have "safe_json w (d + 1)" if "w \<in> set vs" for w
  proof -
    have "from_serde_value_at w (d + 1) \<in> set (map Inr out)" using that unfolding out [symmetric] by simp
    then show ?thesis using 5(1) [OF _ that] d by auto
  qed
  then show ?case using d by (simp add: list_all_iff)
next
  case (6 ms d)
  let ?f = "\<lambda>(k, v). and_then (from_serde_value_at v (d + 1)) (\<lambda>w. Ok (k, w))"
  from 6(2) obtain out where d: "d < MAX_PARSE_DEPTH" and out: "map ?f ms = map Inr out"
    by (auto simp: result_simps collect_eq_Inr split: if_split_asm)
  have "safe_json w (d + 1)" if "(k, w) \<in> set ms" for k w
  proof -
    have "?f (k, w) \<in> set (map Inr out)" unfolding out [symmetric] set_map by (rule imageI [OF that])
    then obtain u where "from_serde_value_at w (d + 1) = Ok u" by (auto simp: result_simps)
    then show ?thesis using 6(1) [OF _ that refl] d by simp
  qed
  then show ?case using d by (auto simp: list_all_iff)
qed auto

lemma accepted_request_safe:
  assumes "serde_documented x" "open_message x raw = Ok value"
  shows "json_wf value" "safe_json value 0"
proof -
  show "json_wf value" using assms unfolding open_message_Ok serde_documented_def by blast
  from assms obtain bs where "canonicalize_json_value value = Ok bs" using canonicalize_read_value unfolding open_message_Ok by blast
  then show "safe_json value 0" using serde_ok_safe
    by (auto simp: canonicalize_json_value_def from_serde_value_def result_simps)
qed

lemma safe_update_path_at:
  "safe_json v d \<Longrightarrow> (\<And>w. safe_json w (d + length ks) \<Longrightarrow> safe_json (f w) (d + length ks)) \<Longrightarrow> safe_json (update_path ks f v) d"
proof (induction ks f v arbitrary: d rule: update_path.induct)
  case (2 k ks f ms)
  have "safe_json (update_path ks f v) (d + 1)" if "(k, v) \<in> set ms" for v
    using 2(1) [of v "d + 1"] 2(2,3) that by (auto simp: list_all_iff)
  then show ?case using 2(2) by (auto simp: obj_update_def list_all_iff)
qed auto

lemma update_path_same:
  assumes "json_wf v" "\<And>w. json_path v ks = Some w \<Longrightarrow> f w = w"
  shows "update_path ks f v = v"
  using assms
proof (induction ks f v rule: update_path.induct)
  case (2 k ks f ms)
  have "update_path ks f w = w" if "obj_get k ms = Some w" for w
    using 2(1) [of w] 2(2,3) that json_wf_get [of "Obj ms" k w] by simp
  moreover have "keys_sorted ms" using 2(2) by simp
  ultimately have "obj_update k (update_path ks f) ms = ms" by (intro members_ext) (auto split: option.split, cases "obj_get k ms", auto)
  then show ?case by simp
qed auto

text \<open>An object literal, read through its members.\<close>

lemma json_object_wf: "list_all (\<lambda>(k, v). valid_str k \<and> json_wf v) ms \<Longrightarrow> json_wf (json_object ms)"
proof -
  have "json_wf (Obj acc) \<Longrightarrow> list_all (\<lambda>(k, v). valid_str k \<and> json_wf v) ms \<Longrightarrow>
      json_wf (Obj (fold (\<lambda>(k, v). obj_insert k v) ms acc))" for acc
    by (induction ms arbitrary: acc) (auto simp del: json_wf.simps(2) intro: json_wf_insert)
  then show "list_all (\<lambda>(k, v). valid_str k \<and> json_wf v) ms \<Longrightarrow> json_wf (json_object ms)"
    unfolding json_object_def by simp
qed

lemma json_object_safe:
  "d < MAX_PARSE_DEPTH \<Longrightarrow> list_all (\<lambda>(k, v). safe_json v (d + 1)) ms \<Longrightarrow> safe_json (json_object ms) d"
proof -
  have "safe_json (Obj acc) d \<Longrightarrow> list_all (\<lambda>(k, v). safe_json v (d + 1)) ms \<Longrightarrow>
      safe_json (Obj (fold (\<lambda>(k, v). obj_insert k v) ms acc)) d" for acc
    by (induction ms arbitrary: acc) (auto simp del: safe_json.simps(3) intro: safe_obj_insert [unfolded Suc_eq_plus1 [symmetric]])
  then show "d < MAX_PARSE_DEPTH \<Longrightarrow> list_all (\<lambda>(k, v). safe_json v (d + 1)) ms \<Longrightarrow> safe_json (json_object ms) d"
    unfolding json_object_def by simp
qed

lemma json_object_get: "json_get (json_object ms) k = map_of (rev ms) k"
proof -
  have "obj_get k (fold (\<lambda>(k, v). obj_insert k v) ms acc) = (case map_of (rev ms) k of Some v \<Rightarrow> Some v | None \<Rightarrow> obj_get k acc)" for acc
    by (induction ms arbitrary: acc) (auto simp: map_add_def split: option.split)
  then show ?thesis by (simp add: json_object_def split: option.split)
qed

lemma verified_context_ok:
  assumes "list_all valid_str (verdict_strings vr)" "authorization_ok vr" "valid_str (px_server_signer p)"
  shows "\<exists>ctx. build_verified_context p vr now = Ok ctx \<and> json_wf ctx \<and> safe_json ctx 3 \<and>
    json_get ctx (lit ''verified_signer'') = Some (Str (vr_signer vr)) \<and>
    json_get ctx (lit ''on_behalf_of'') = Some (Str (vr_on_behalf_of vr)) \<and>
    json_get ctx (lit ''request_hash'') = Some (Str (vr_request_hash vr))"
proof -
  have depth: "(3::nat) < MAX_PARSE_DEPTH" "4 < MAX_PARSE_DEPTH" by (simp_all add: MAX_PARSE_DEPTH_def)
  have bind: "safe_json (Obj (binding_members b)) 4" for b
    using depth binding_members_str [of _ _ b] by (fastforce simp: list_all_iff)
  show ?thesis
    using assms rfc3339_valid [of now] depth bind
    by (cases "vr_authorization vr")
      (auto simp: build_verified_context_def ser_verified_context_def verdict_strings_def authorization_ok_def const_defs
        json_object_get simp del: json_wf.simps(2) safe_json.simps(3) intro!: json_object_wf json_object_safe)
qed

text \<open>The \<open>_meta\<close> of the scrubbed request is an object with none of the proxy's keys.\<close>

lemma scrubbed_meta:
  assumes "json_path request [lit ''params'', lit ''_meta'', k] = Some w"
  shows "\<exists>mm. json_path (scrub_proxy_owned_meta request) [lit ''params'', lit ''_meta''] = Some (Obj mm) \<and> no_owned (Obj mm)"
proof -
  from assms obtain pm meta where p: "json_get request (lit ''params'') = Some pm" "json_get pm (lit ''_meta'') = Some meta"
    "json_get meta k = Some w" by (auto split: option.split_asm)
  have "\<exists>mm. fold json_remove ks (Obj ms) = Obj mm" for ks ms by (induction ks arbitrary: ms) auto
  then obtain mm where mm: "strip_owned meta = Obj mm" using json_get_SomeD [OF p(3)] unfolding strip_owned_def by blast
  have "no_owned (scrub_proxy_owned_meta (strip_owned meta))" by (intro no_owned_scrub no_owned_strip)
  moreover have "\<exists>mm'. scrub_proxy_owned_meta (strip_owned meta) = Obj mm'" unfolding mm by simp
  moreover have "json_path (scrub_proxy_owned_meta request) [lit ''params'', lit ''_meta''] = Some (scrub_proxy_owned_meta (strip_owned meta))"
    using p by (simp add: json_get_scrub)
  ultimately show ?thesis by auto
qed

lemma forwarded_request:
  assumes x: "base64_documented x" "sha256_documented x" "serde_documented x" "serde_prints x"
    and v: "verify_request_dispatch x resolve check c config now policy raw = (Ok vr, c')"
    and p: "valid_str (px_server_signer p)"
  shows "\<exists>request ctx fwd fv. open_message x raw = Ok request \<and> build_verified_context p vr now' = Ok ctx \<and>
    build_forwarded_request x p raw vr now' = Some (Ok fwd) \<and> from_slice x fwd = Some fv \<and>
    json_path fv [lit ''params'', lit ''_meta'', VERIFIED_META_KEY] = Some ctx \<and>
    delete_path [lit ''params'', lit ''_meta'', VERIFIED_META_KEY] fv = scrub_proxy_owned_meta request"
proof -
  let ?ks = "[lit ''params'', lit ''_meta'']"
  from dispatch_opens [OF v] obtain request ms where r: "open_message x raw = Ok request"
    "json_path request [lit ''params'', lit ''_meta'', REQUEST_META_KEY] = Some (Obj ms)" by blast
  from verified_context_ok [OF verdict_typed(1,2) [OF x(1-3) v] p] obtain ctx where
    ctx: "build_verified_context p vr now' = Ok ctx" "json_wf ctx" "safe_json ctx 3" by blast
  define s where "s = scrub_proxy_owned_meta request"
  have s: "json_wf s" "safe_json s 0" unfolding s_def using accepted_request_safe [OF x(3) r(1)] scrub_wf scrub_safe by blast+
  from scrubbed_meta [OF r(2)] obtain mm where mm: "json_path s ?ks = Some (Obj mm)" "no_owned (Obj mm)" unfolding s_def by blast
  define fv where "fv = update_path ?ks (write_verified ctx) s"
  have depth: "(2::nat) < MAX_PARSE_DEPTH" by (simp add: MAX_PARSE_DEPTH_def)
  have "json_wf (write_verified ctx w)" if "json_wf w" for w
    using that ctx(2) by (cases w)
      (auto simp: write_verified_def VERIFIED_META_KEY_def simp del: json_wf.simps(2) intro: json_wf_insert json_object_wf)
  then have wf: "json_wf fv" unfolding fv_def by (rule json_wf_update_path [OF s(1)])
  have "safe_json (write_verified ctx w) 2" if "safe_json w 2" for w
    using that ctx(3) depth safe_obj_insert [of _ 2 ctx] json_object_safe [OF depth, of "[(VERIFIED_META_KEY, ctx)]"]
    by (cases w) (auto simp: write_verified_def simp del: safe_json.simps(3))
  then have "safe_json fv 0" unfolding fv_def using safe_update_path_at [OF s(2), of ?ks] by (simp add: numeral_2_eq_2 del: update_path.simps)
  from printed_value_reads [OF x(3,4) wf this] obtain fwd where f: "to_vec x fv = Some fwd" "from_slice x fwd = Some fv" by blast
  have "build_forwarded_request x p raw vr now' = Some (Ok fwd)"
    using r(1) ctx(1) index_update_existing [OF s(1) mm(1)] f(1) unfolding open_message_Ok
    by (simp add: build_forwarded_request_def fv_def s_def)
  moreover have w: "write_verified ctx (Obj mm) = Obj (obj_insert VERIFIED_META_KEY ctx mm)" by (simp add: write_verified_def)
  have "json_path fv (?ks @ [VERIFIED_META_KEY]) = Some ctx"
    unfolding fv_def json_path_update mm(1) by (simp add: w)
  moreover have "obj_remove VERIFIED_META_KEY (obj_insert VERIFIED_META_KEY ctx mm) = mm"
    using mm(2) by (intro obj_remove_insert) (simp add: no_owned_get PROXY_OWNED_META_KEYS_def)
  then have "update_path ?ks (\<lambda>u. json_remove VERIFIED_META_KEY (write_verified ctx u)) s = s"
    using mm(1) w by (intro update_path_same [OF s(1)]) simp
  then have "delete_path (?ks @ [VERIFIED_META_KEY]) fv = s"
    unfolding delete_path_def fv_def by (simp add: update_path_comp del: update_path.simps)
  ultimately show ?thesis using r(1) ctx(1) f(2) unfolding s_def by auto
qed

section \<open>What the client gets\<close>

definition client_verifies :: "ext \<Rightarrow> resolve_fn \<Rightarrow> verified_request \<Rightarrow> bytes \<Rightarrow> verified_response mcps_result" where
  "client_verifies x resolve vr bs =
     (case vr_authorization vr of
        Draft01Hash _ \<Rightarrow> verify_response x resolve (vr_request_hash vr) bs
      | Draft02Binding _ \<Rightarrow> verify_response_draft02 x resolve (vr_request_hash vr) CANONICALIZATION_ID_INT53_V1 bs)"

lemma response_delivered:
  assumes x: "base64_documented x" "sha256_documented x" "ed25519_documented x" "serde_documented x" "serde_prints x"
    and v: "verify_request_dispatch x (px_resolve p) check c config now policy raw = (Ok vr, c')"
    and p: "px_sign p = sign_response x sk" "length (sk_seed sk) = 32" "list_all valid_str [px_server_signer p, px_key_id p]"
    and inner: "from_slice x inner_bytes = Some inner" "signable_inner inner"
    and key: "resolve (px_server_signer p) (px_key_id p) = Ok (public_key x sk)"
  shows "\<exists>bs signed ms. build_signed_response x p inner_bytes vr now' (request_id x raw) = Some (Ok bs) \<and>
    client_verifies x resolve vr bs =
      Ok \<lparr>vs_server_signer = px_server_signer p, vs_key_id = px_key_id p, vs_request_hash = vr_request_hash vr\<rparr> \<and>
    open_message x bs = Ok signed \<and> json_get signed (lit ''id'') = Some (request_id x raw) \<and>
    json_get signed (lit ''result'') = Some (Obj ms) \<and>
    (\<not> (\<exists>r. json_get inner (lit ''result'') = Some r \<and> looks_wrapped r) \<longrightarrow> unwrap_verified_result (Obj ms) = Ok (recovered inner))"
proof -
  note t = verdict_typed [OF x(1,2,4) v]
  from dispatch_opens [OF v] obtain request where r: "open_message x raw = Ok request" by blast
  then obtain rid where rid: "json_get request (lit ''id'') = Some rid" "rid \<noteq> Null" "request_id x raw = rid"
    unfolding open_message_Ok by (auto simp: request_id_def)
  have safe: "json_wf rid" "safe_json rid 1"
    using accepted_request_safe [OF x(4) r] json_wf_get rid(1) safe_json_get [of request 0] by auto
  have wf: "json_wf inner" using x(4) inner(1) unfolding serde_documented_def by blast
  from wrap_result_cases [OF inner(2) wf] obtain ms m where w: "scrub_proxy_owned_meta (wrap_result inner) = Obj ms"
    "result_meta ms = Some m" "json_wf (Obj ms)" "safe_json (Obj ms) 1"
    "\<not> (\<exists>r. json_get inner (lit ''result'') = Some r \<and> looks_wrapped r) \<Longrightarrow>
      obj_remove (lit ''_meta'') ms' = obj_remove (lit ''_meta'') ms \<Longrightarrow> unwrap_verified_result (Obj ms') = Ok (recovered inner)" for ms'
    by blast
  have ok: "verdict_ok vr" "\<And>cid. vr_canonicalization_id vr = Some cid \<Longrightarrow> valid_str cid"
    using t(2) by (auto simp: verdict_ok_def authorization_ok_def CANONICALIZATION_ID_INT53_V1_def split: verified_authorization.splits)
  have strs: "list_all valid_str [px_server_signer p, px_key_id p, vr_request_hash vr]"
    using p(3) t(1) by (simp add: verdict_strings_def)
  from signed_response_opens [OF x(1,3-5) p(1,2) strs ok safe rid(2) inner(1) w(1,4,3,2), where now = now'] obtain bs signed pre ms' where
    s: "build_signed_response x p inner_bytes vr now' rid = Some (Ok bs)" "open_message x bs = Ok signed"
      "signing_preimage signed Response = Ok pre"
      "json_path signed response_path = Some (ser_env p vr now' (Some (sign x sk pre)))"
      "json_get signed (lit ''id'') = Some rid" "json_get signed (lit ''result'') = Some (Obj ms')"
      "obj_remove (lit ''_meta'') ms' = obj_remove (lit ''_meta'') ms"
      "\<forall>e. verify_ed25519_with x pre (sign x sk pre) (public_key x sk) e = Ok ()" by blast
  have "client_verifies x resolve vr bs =
      Ok \<lparr>vs_server_signer = px_server_signer p, vs_key_id = px_key_id p, vs_request_hash = vr_request_hash vr\<rparr>"
    using verify_signed_response [where resolve = resolve, OF s(2-4,8) key t(2)] unfolding client_verifies_def by (simp split: verified_authorization.splits)
  then show ?thesis using s(1,2,5,6,7) w(5) rid(3) by blast
qed

section \<open>Two responses the proxy cannot carry\<close>

text \<open>An object result made of the single member \<open>value\<close> is signed to the same bytes as the bare value
  would be, so the client cannot tell them apart.\<close>

lemma sole_value_collides:
  assumes "as_object v = None"
    and "from_slice x b1 = Some (Obj [(lit ''result'', Obj [(lit ''value'', v)])])" "from_slice x b2 = Some (Obj [(lit ''result'', v)])"
  shows "build_signed_response x p b1 vr now rid = build_signed_response x p b2 vr now rid"
proof -
  have same: "wrap_result (Obj [(lit ''result'', Obj [(lit ''value'', v)])]) = wrap_result (Obj [(lit ''result'', v)])"
    using assms(1) by (simp add: wrap_result_def json_object_def RESPONSE_WRAP_VALUE_KEY_def)
  show ?thesis unfolding build_signed_response_def assms(2,3) option.case same ..
qed

text \<open>An object result whose \<open>_meta\<close> is neither an object nor \<open>null\<close> makes the assignment of the response
  envelope panic.\<close>

lemma scalar_meta_panics:
  assumes "from_slice x b = Some inner" "json_get inner (lit ''result'') = Some (Obj ms)" "result_meta ms = None" "verdict_ok vr"
  shows "build_signed_response x p b vr now rid = None"
  using assms result_meta_scrub [of ms]
  by (simp add: build_signed_response_def wrap_result_def response_envelope_ser index_response)

section \<open>An instance\<close>

definition sample_inner :: json where
  "sample_inner = Obj [(lit ''id'', Number (NInt 1)), (lit ''result'', Obj [])]"

definition sample_inner_bytes :: bytes where
  "sample_inner_bytes = lit ''{\"id\":1,\"result\":{}}''"

definition sample_proxy :: "in_memory_replay_cache proxy" where
  "sample_proxy = fst (proxy_new sample_ext (hs_signing_key sample_host) (hs_signer sample_host) (hs_key_id sample_host)
     sample_resolve (lit ''did:s'') 30 (\<lambda>_. sample_inner_bytes))"

lemma sample_inner_reads: "from_slice sample_ext sample_inner_bytes = Some sample_inner"
proof -
  have "canonicalize_json_value sample_inner = Ok sample_inner_bytes" unfolding sample_inner_def sample_inner_bytes_def by (simp add: eval_simps)
  moreover have "json_wf sample_inner" unfolding sample_inner_def by simp (simp add: lit_def)
  ultimately show ?thesis using canonical_bytes_read [OF sample_ext_documented(4)] by blast
qed

lemma sample_inner_signable: "signable_inner sample_inner"
  unfolding signable_inner_def sample_inner_def by (simp add: MAX_PARSE_DEPTH_def MAX_SAFE_INTEGER_def result_meta_def)

lemma sample_admitted: "\<exists>raw vr c'. admitted sample_ext sample_proxy (replay_new 30) raw 1100 None None vr c'"
proof -
  from sample_accepted obtain raw vr c' where
    "verify_request_dispatch sample_ext sample_resolve check_and_insert (replay_new 30) sample_config 1100
     Draft01AndDraft02 raw = (Ok vr, c')" by blast
  then have "admitted sample_ext sample_proxy (replay_new 30) raw 1100 None None vr c'"
    by (simp add: admitted_def sample_proxy_def proxy_new_def sample_config_def lb_verified_identity_def check_transport_binding_def)
  then show ?thesis by blast
qed

section \<open>Properties\<close>

text \<open>
  C3: complete mediation: a call of the sidecar sends the inner server exactly one message when the
  request is admitted (accepted by the dispatcher, allowed by the policy, bound to its channel) and
  the forwarded form can be built, and sends it nothing in every other case.
\<close>

theorem inner_reached_exactly:
  "(dispatched (fst (snd (handle_with_transport x p c raw now identity header))) = [fwd] \<longleftrightarrow>
     (\<exists>vr c'. admitted x p c raw now identity header vr c' \<and> build_forwarded_request x p raw vr now = Some (Ok fwd))) \<and>
   length (dispatched (fst (snd (handle_with_transport x p c raw now identity header)))) \<le> 1"
proof -
  obtain r evs c' where h: "handle_with_transport x p c raw now identity header = (r, evs, c')" by (metis surj_pair)
  have adm: "dispatched evs = (case build_forwarded_request x p raw vr now of Some (Inr fwd) \<Rightarrow> [fwd] | _ \<Rightarrow> [])"
    if "admitted x p c raw now identity header vr c''" for vr c''
  proof -
    have "snd (bind_and_dispatch x p raw vr now identity header) = evs"
      using handle_admitted [OF that] h by (auto split: prod.splits)
    then show ?thesis
      using that bind_and_dispatch_dispatched [of x p raw vr now identity header] dispatch_and_sign_dispatched [of x p raw vr now]
      by (auto simp: admitted_def)
  qed
  show ?thesis
  proof (cases "\<exists>vr c''. admitted x p c raw now identity header vr c''")
    case True
    then obtain vr c'' where vr: "admitted x p c raw now identity header vr c''" by blast
    have "(\<exists>vr c'. admitted x p c raw now identity header vr c' \<and> build_forwarded_request x p raw vr now = Some (Ok fwd)) \<longleftrightarrow>
        build_forwarded_request x p raw vr now = Some (Ok fwd)" using vr by (metis admitted_unique)
    then show ?thesis unfolding h fst_conv snd_conv adm [OF vr] by (simp split: option.split sum.split)
  next
    case False
    then have "dispatched evs = []" using handle_refused [OF h] by blast
    then show ?thesis unfolding h using False by simp
  qed
qed






end
