(* ===== verification/Exchange.thy ===== *)
theory Exchange
  imports Sidecar_Gate
begin

text \<open>
  The two ends together: a host session (\<open>mcps-host\<close>) signs a request, the sidecar (\<open>mcps-proxy\<close>)
  handles the bytes, and the session verifies and unwraps what comes back.
\<close>

section \<open>One exchange\<close>

lemma session_signed:
  assumes x: "base64_documented x" "ed25519_documented x" "serde_documented x" "serde_prints x"
    and s: "session_sign_request x drawn now s rid meth params obo aud ah = (Ok raw, s')"
    and ok: "signable (ss_signer s) rid meth params [obo, aud, ah, next_nonce x drawn,
      unix_to_rfc3339_utc now, unix_to_rfc3339_utc (now + ss_lifetime s)]"
  shows "\<exists>msg hash. open_message x raw = Ok msg \<and> json_get msg (lit ''id'') = Some rid \<and>
    read_request_envelope_version msg = Ok VERSION_DRAFT_01 \<and> request_hash x msg = Ok hash \<and>
    map_of (ss_pending s') (id_key x rid) = Some \<lparr>pr_request_hash = hash, pr_expires_at_unix = now + ss_lifetime s\<rparr>"
proof -
  from s obtain e msg hash where h: "checked_add now (ss_lifetime s) = Some e"
    "sign_request x (ss_signer s) rid meth params obo aud ah (next_nonce x drawn)
       (unix_to_rfc3339_utc now) (unix_to_rfc3339_utc e) = Ok raw"
    "from_slice x raw = Some msg" "request_hash x msg = Ok hash"
    "s' = s\<lparr>ss_pending := AList.update (id_key x rid) \<lparr>pr_request_hash = hash, pr_expires_at_unix = e\<rparr> (ss_pending s)\<rparr>"
    unfolding session_sign_request_Ok by blast
  have e: "e = now + ss_lifetime s" using h(1) by (auto simp: checked_add_def split: if_split_asm)
  from sign_request_reads [OF x ok] obtain bs signed where r: "sign_request x (ss_signer s) rid meth params obo aud ah (next_nonce x drawn)
       (unix_to_rfc3339_utc now) (unix_to_rfc3339_utc (now + ss_lifetime s)) = Ok bs" "open_message x bs = Ok signed"
    "json_get signed (lit ''id'') = Some rid" "read_request_envelope_version signed = Ok VERSION_DRAFT_01" by blast
  have "bs = raw" "signed = msg" using h(2,3) r(1,2) unfolding e open_message_Ok by auto
  then show ?thesis using r(2-4) h(4,5) e by (simp add: update_conv')
qed

lemma exchange:
  assumes x: "base64_documented x" "sha256_documented x" "ed25519_documented x" "serde_documented x" "serde_prints x"
    and s: "session_sign_request x drawn now s rid meth params obo aud ah = (Ok raw, s')"
    and ok: "signable (ss_signer s) rid meth params [obo, aud, ah, next_nonce x drawn,
      unix_to_rfc3339_utc now, unix_to_rfc3339_utc (now + ss_lifetime s)]"
    and a: "admitted x p c raw now' identity header vr c'"
    and p: "px_sign p = sign_response x sk" "length (sk_seed sk) = 32" "list_all valid_str [px_server_signer p, px_key_id p]"
    and key: "resolve (px_server_signer p) (px_key_id p) = Ok (public_key x sk)"
    and f: "build_forwarded_request x p raw vr now' = Some (Ok fwd)"
    and inner: "from_slice x (px_inner p fwd) = Some inner" "signable_inner inner"
      "\<not> (\<exists>r. json_get inner (lit ''result'') = Some r \<and> looks_wrapped r)"
  shows "\<exists>bs. fst (handle_with_transport x p c raw now' identity header) = Some bs \<and>
    session_verify_and_unwrap x resolve s' bs =
      (Ok \<lparr>vres_verified = \<lparr>vs_server_signer = px_server_signer p, vs_key_id = px_key_id p, vs_request_hash = vr_request_hash vr\<rparr>,
           vres_unwrapped = recovered inner\<rparr>,
       s'\<lparr>ss_pending := AList.delete (id_key x rid) (ss_pending s')\<rparr>)"
proof -
  from session_signed [OF x(1,3-5) s ok] obtain msg hash where m: "open_message x raw = Ok msg" "json_get msg (lit ''id'') = Some rid"
    "read_request_envelope_version msg = Ok VERSION_DRAFT_01" "request_hash x msg = Ok hash"
    "map_of (ss_pending s') (id_key x rid) = Some \<lparr>pr_request_hash = hash, pr_expires_at_unix = now + ss_lifetime s\<rparr>" by blast
  from a have v: "verify_request_dispatch x (px_resolve p) (px_check p) c (px_config p) now' (px_version_policy p) raw = (Ok vr, c')"
    by (simp add: admitted_def)
  have rid: "request_id x raw = rid" using m(1,2) unfolding open_message_Ok by (simp add: request_id_def)
  from dispatch_opens [OF v] obtain msg' pre where "open_message x raw = Ok msg'" "signing_preimage msg' Request = Ok pre"
    "vr_request_hash vr = sha256_hash_id x pre" by blast
  then have hash: "vr_request_hash vr = hash" using m(1,4) by (auto dest: request_hash_id)
  obtain h where d1: "vr_authorization vr = Draft01Hash h"
  proof -
    have "VERSION_DRAFT_01 \<noteq> VERSION_DRAFT_02" by (simp add: const_defs)
    then have "\<not> select_version x (px_version_policy p) raw = Ok VERSION_DRAFT_02"
      using m(1,3) unfolding select_version_Ok open_message_Ok by auto
    then have "verify_request x (px_resolve p) (px_check p) c (px_config p) now' raw = (Ok vr, c')"
      using v unfolding verify_request_dispatch_Ok by blast
    from verify_request_authorization [OF this] that show thesis by blast
  qed
  from response_delivered [where resolve = resolve and now' = now', OF x v p inner(1,2) key] obtain bs signed ms where
    d: "build_signed_response x p (px_inner p fwd) vr now' (request_id x raw) = Some (Ok bs)"
      "client_verifies x resolve vr bs =
        Ok \<lparr>vs_server_signer = px_server_signer p, vs_key_id = px_key_id p, vs_request_hash = vr_request_hash vr\<rparr>"
      "open_message x bs = Ok signed" "json_get signed (lit ''id'') = Some (request_id x raw)"
      "json_get signed (lit ''result'') = Some (Obj ms)" "unwrap_verified_result (Obj ms) = Ok (recovered inner)"
    using inner(3) by blast
  have "response_id x bs = Ok rid" using d(3,4) rid unfolding open_message_Ok by (simp add: response_id_def)
  then have "session_verify_response x resolve s' bs =
      (Ok \<lparr>vs_server_signer = px_server_signer p, vs_key_id = px_key_id p, vs_request_hash = vr_request_hash vr\<rparr>,
       s'\<lparr>ss_pending := AList.delete (id_key x rid) (ss_pending s')\<rparr>)"
    unfolding session_verify_response_Ok using m(5) d(2) by (simp add: client_verifies_def d1 hash)
  then have "session_verify_and_unwrap x resolve s' bs =
      (Ok \<lparr>vres_verified = \<lparr>vs_server_signer = px_server_signer p, vs_key_id = px_key_id p, vs_request_hash = vr_request_hash vr\<rparr>,
           vres_unwrapped = recovered inner\<rparr>,
       s'\<lparr>ss_pending := AList.delete (id_key x rid) (ss_pending s')\<rparr>)"
    using d(3,5,6) unfolding open_message_Ok by (simp add: session_verify_and_unwrap_def)
  with handle_answers [OF a f d(1)] show ?thesis by blast
qed

section \<open>An instance\<close>

definition sample_session :: host_session where
  "sample_session = session_new sample_host 300"

definition sample_drawn :: bytes where
  "sample_drawn = replicate 16 65"

lemma sample_nonce: "valid_str (next_nonce sample_ext sample_drawn)"
  by (simp add: next_nonce_def sample_drawn_def b64url_encode_def sample_ext_def NONCE_BYTES_def valid_str_def is_scalar_def)

lemma sample_session_signable:
  "signable (ss_signer sample_session) (Number (NInt 1)) (lit ''tools/call'') []
     [lit ''did:u'', lit ''did:s'', lit ''sha256:x'', next_nonce sample_ext sample_drawn, unix_to_rfc3339_utc 1000,
      unix_to_rfc3339_utc (1000 + ss_lifetime sample_session)]"
  using sample_nonce sample_signable by (simp add: signable_def sample_session_def session_new_def rfc3339_valid)

lemma sample_session_admitted:
  "\<exists>raw s' vr c'. session_sign_request sample_ext sample_drawn 1000 sample_session (Number (NInt 1)) (lit ''tools/call'') []
       (lit ''did:u'') (lit ''did:s'') (lit ''sha256:x'') = (Ok raw, s') \<and>
     admitted sample_ext sample_proxy (replay_new 30) raw 1100 None None vr c'"
proof -
  let ?n = "next_nonce sample_ext sample_drawn"
  have hs: "ss_signer sample_session = sample_host" "1000 + ss_lifetime sample_session = 1300" "ss_pending sample_session = []"
    by (simp_all add: sample_session_def session_new_def)
  have fresh: "\<exists>c'. check_and_insert (replay_new 30) (hs_signer sample_host) (lit ''did:s'') ?n 1300 = (Ok Fresh, c')"
    by (simp add: check_and_insert_def replay_new_def sample_host_def i64_simps)
  then obtain c' where c: "check_and_insert (replay_new 30) (hs_signer sample_host) (lit ''did:s'') ?n 1300 = (Ok Fresh, c')" by blast
  from host_request_verifies [where x = sample_ext and hs = sample_host and resolve = sample_resolve and check = check_and_insert
    and c = "replay_new 30" and config = sample_config,
    OF sample_documented sample_session_signable [unfolded hs] _ _ _ sample_fresh sample_parses(2) sample_key c]
  obtain raw msg pre vr where b: "sign_request sample_ext sample_host (Number (NInt 1)) (lit ''tools/call'') [] (lit ''did:u'') (lit ''did:s'')
     (lit ''sha256:x'') ?n (unix_to_rfc3339_utc 1000) (unix_to_rfc3339_utc 1300) = Ok raw"
    "from_slice sample_ext raw = Some msg" "signing_preimage msg Request = Ok pre"
    "read_request_envelope_version msg = Ok VERSION_DRAFT_01" "open_message sample_ext raw = Ok msg"
    "verify_request sample_ext sample_resolve check_and_insert (replay_new 30) sample_config 1100 raw = (Ok vr, c')"
    by (auto simp: sample_config_def SHA256_PREFIX_def lit_def)
  have "select_version sample_ext Draft01AndDraft02 raw = Ok VERSION_DRAFT_01" using b(4,5) unfolding select_version_Ok open_message_Ok by auto
  with b(6) have "verify_request_dispatch sample_ext sample_resolve check_and_insert (replay_new 30) sample_config 1100
      Draft01AndDraft02 raw = (Ok vr, c')" unfolding verify_request_dispatch_Ok by blast
  then have "admitted sample_ext sample_proxy (replay_new 30) raw 1100 None None vr c'"
    by (simp add: admitted_def sample_proxy_def proxy_new_def sample_config_def lb_verified_identity_def check_transport_binding_def)
  moreover have "request_hash sample_ext msg = Ok (sha256_hash_id sample_ext pre)" using b(3) by (simp add: request_hash_def request_signing_preimage_def)
  then have "\<exists>s'. session_sign_request sample_ext sample_drawn 1000 sample_session (Number (NInt 1)) (lit ''tools/call'') []
       (lit ''did:u'') (lit ''did:s'') (lit ''sha256:x'') = (Ok raw, s')"
    unfolding session_sign_request_Ok hs using b(1,2) by (simp add: checked_add_def i64_simps hs(2) [simplified])
  ultimately show ?thesis by blast
qed

section \<open>Properties\<close>


text \<open>The proxy's answer in the sample exchange, and the session that accepts it.\<close>

lemma sample_forwarded:
  assumes "admitted sample_ext sample_proxy (replay_new 30) raw 1100 None None vr c'"
  shows "\<exists>fwd. build_forwarded_request sample_ext sample_proxy raw vr 1100 = Some (Ok fwd)"
proof -
  have s: "valid_str (px_server_signer sample_proxy)" by (simp add: sample_proxy_def proxy_new_def sample_host_def)
  have "verify_request_dispatch sample_ext (px_resolve sample_proxy) (px_check sample_proxy) (replay_new 30)
      (px_config sample_proxy) 1100 (px_version_policy sample_proxy) raw = (Ok vr, c')" using assms by (simp add: admitted_def)
  from forwarded_request [OF sample_ext_documented(1,2,4) sample_ext_prints this s, of 1100] show ?thesis by blast
qed

lemma sample_proxy_parts:
  "px_sign sample_proxy = sign_response sample_ext (hs_signing_key sample_host)" "length (sk_seed (hs_signing_key sample_host)) = 32"
  "list_all valid_str [px_server_signer sample_proxy, px_key_id sample_proxy]"
  "sample_resolve (px_server_signer sample_proxy) (px_key_id sample_proxy) = Ok (public_key sample_ext (hs_signing_key sample_host))"
  "from_slice sample_ext (px_inner sample_proxy fwd) = Some sample_inner"
  "\<not> (\<exists>r. json_get sample_inner (lit ''result'') = Some r \<and> looks_wrapped r)"
  "recovered sample_inner = ObjectResult (Obj [])"
  using sample_key sample_inner_reads
  by (simp_all add: sample_proxy_def proxy_new_def sample_host_def)
    (simp_all add: sample_inner_def looks_wrapped_def recovered_def obj_remove_def)


text \<open>
  C29: a session only accepts answers to its own open requests, each at most once: in every run, a
  response that verifies carries the id of a request the session signed, is bound to the hash of
  the bytes it signed, and that request is no longer pending afterwards.
\<close>

theorem session_accepts_own_answers:
  assumes "session_run x hs log s" and "session_verify_response x resolve s resp = (Ok v, s')"
  shows "\<exists>rid bytes msg. response_id x resp = Ok rid \<and> (id_key x rid, bytes) \<in> set log \<and>
    from_slice x bytes = Some msg \<and> request_hash x msg = Ok (vs_request_hash v) \<and>
    stored_request_hash x s rid = Some (vs_request_hash v) \<and> stored_request_hash x s' rid = None"
proof -
  from assms(2) obtain rid p where r: "response_id x resp = Ok rid" "map_of (ss_pending s) (id_key x rid) = Some p"
    "verify_response x resolve (pr_request_hash p) resp = Ok v"
    "s' = s\<lparr>ss_pending := AList.delete (id_key x rid) (ss_pending s)\<rparr>"
    unfolding session_verify_response_Ok by blast
  have "vs_request_hash v = pr_request_hash p" using r(3) by (auto simp: verify_response_def result_simps split: if_split_asm)
  moreover have "\<exists>bytes msg. (id_key x rid, bytes) \<in> set log \<and> from_slice x bytes = Some msg \<and> request_hash x msg = Ok (pr_request_hash p)"
    using session_run_pending_ok [OF assms(1)] map_of_SomeD [OF r(2)] unfolding pending_ok_def by fastforce
  ultimately show ?thesis using r(1,2,4) by (auto simp: stored_request_hash_def delete_conv')
qed

theorem session_accepts_own_answers_witness:
  "\<exists>log s resp v s' rid. session_run sample_ext sample_host log s \<and>
     session_verify_response sample_ext sample_resolve s resp = (Ok v, s') \<and>
     response_id sample_ext resp = Ok rid \<and> stored_request_hash sample_ext s' rid = None"
proof -
  from sample_session_admitted obtain raw s' vr c' where
    s: "session_sign_request sample_ext sample_drawn 1000 sample_session (Number (NInt 1)) (lit ''tools/call'') []
       (lit ''did:u'') (lit ''did:s'') (lit ''sha256:x'') = (Ok raw, s')"
      "admitted sample_ext sample_proxy (replay_new 30) raw 1100 None None vr c'" by blast
  from sample_forwarded [OF s(2)] obtain fwd where f: "build_forwarded_request sample_ext sample_proxy raw vr 1100 = Some (Ok fwd)" by blast
  from exchange [where resolve = sample_resolve, OF sample_ext_documented(1-4) sample_ext_prints s(1) sample_session_signable
      s(2) sample_proxy_parts(1-4) f sample_proxy_parts(5) sample_inner_signable sample_proxy_parts(6)]
  obtain bs r s'' where "session_verify_and_unwrap sample_ext sample_resolve s' bs = (Ok r, s'')" by blast
  then obtain v where v: "session_verify_response sample_ext sample_resolve s' bs = (Ok v, s'')"
    by (auto simp: session_verify_and_unwrap_def split: prod.splits sum.splits)
  have run: "session_run sample_ext sample_host [(id_key sample_ext (Number (NInt 1)), raw)] s'"
    using session_run.signed [OF session_run.start s(1) [unfolded sample_session_def]] .
  from session_accepts_own_answers [OF run v] run v show ?thesis by blast
qed

end
