(* ===== verification/Client_Policy.thy ===== *)
theory Client_Policy
  imports Pipeline "HOL-Library.AList" "HOL-Library.Word"
begin

text \<open>
  The decision parts of the crate \<open>mcps-client-core\<close>: the audience a route is bound to
  (\<open>audience.rs\<close>), what an outcome of an exchange leads to (\<open>enforcement.rs\<close>), its audit record
  (\<open>audit.rs\<close>), the telemetry probe (\<open>probe.rs\<close>), the table of outstanding requests
  (\<open>correlation.rs\<close>) and capability checks with the advisory advert (\<open>discovery.rs\<close>). Hash maps are
  association lists with at most one entry per key.
\<close>

section \<open>Audiences\<close>

record audience_tuple =
  au_scheme :: ustring
  au_host :: ustring
  au_port :: "16 word"
  au_tenant_id :: ustring
  au_route_id :: ustring
  au_realm :: ustring

text \<open>\<open>str::replace\<close> with a character as the pattern.\<close>

definition str_replace :: "uchar \<Rightarrow> ustring \<Rightarrow> ustring \<Rightarrow> ustring" where
  "str_replace c to s = concat (map (\<lambda>d. if d = c then to else [d]) s)"

definition escape_field :: "ustring \<Rightarrow> ustring" where
  "escape_field val = str_replace 61 (lit ''%3D'') (str_replace 59 (lit ''%3B'') (str_replace 37 (lit ''%25'') val))"

definition audience_new ::
    "ustring \<Rightarrow> ustring \<Rightarrow> 16 word \<Rightarrow> ustring \<Rightarrow> ustring \<Rightarrow> ustring \<Rightarrow> audience_tuple mcps_result" where
  "audience_new scheme host port tenant_id route_id realm =
     (if tenant_id = [] \<or> route_id = [] then Err InvalidAudience
      else Ok \<lparr>au_scheme = scheme, au_host = host, au_port = port, au_tenant_id = tenant_id, au_route_id = route_id,
        au_realm = realm\<rparr>)"

definition to_audience_string :: "audience_tuple \<Rightarrow> ustring" where
  "to_audience_string a =
     lit ''mcps-audience:v1:scheme='' @ escape_field (au_scheme a) @ lit '';host='' @ escape_field (au_host a) @
     lit '';port='' @ dec (unat (au_port a)) @ lit '';tenant='' @ escape_field (au_tenant_id a) @
     lit '';route='' @ escape_field (au_route_id a) @ lit '';realm='' @ escape_field (au_realm a)"

record signer_audience_binding =
  sab_expected_server_signer :: ustring
  sab_audience :: audience_tuple

definition audience_string :: "signer_audience_binding \<Rightarrow> ustring" where
  "audience_string b = to_audience_string (sab_audience b)"

record client_transport_identity =
  cti_verified_host :: ustring
  cti_verified_identity :: "ustring option"

record signer_audience_policy =
  sap_bindings :: "(ustring \<times> signer_audience_binding) list"

definition audience_policy_new :: signer_audience_policy where
  "audience_policy_new = \<lparr>sap_bindings = []\<rparr>"

definition bind_route :: "signer_audience_binding \<Rightarrow> signer_audience_policy \<Rightarrow> signer_audience_policy" where
  "bind_route b p = p\<lparr>sap_bindings := AList.update (au_route_id (sab_audience b)) b (sap_bindings p)\<rparr>"

definition resolve_signer_audience ::
    "signer_audience_policy \<Rightarrow> client_transport_identity \<Rightarrow> ustring \<Rightarrow> signer_audience_binding mcps_result" where
  "resolve_signer_audience policy transport route_id =
     and_then (ok_or InvalidAudience (map_of (sap_bindings policy) route_id)) (\<lambda>binding.
       if au_host (sab_audience binding) \<noteq> cti_verified_host transport then Err TransportBindingFailed
       else Ok binding)"

definition enforce_request_audience :: "ustring \<Rightarrow> audience_tuple \<Rightarrow> unit mcps_result" where
  "enforce_request_audience request_audience expected =
     (if request_audience = to_audience_string expected then Ok () else Err InvalidAudience)"

section \<open>Enforcement\<close>

datatype enforcement_mode = RequireMcps | AllowLegacyExplicit

datatype absence_reason = TransportFailurePreEvidence | PlainUnsigned | ExplicitUnsupportedHint

datatype evidence_outcome = Verified verified_response | Absent absence_reason | Invalid mcps_error

datatype enforcement_decision = AcceptMcps | FallBackToLegacy absence_reason | FailClosed mcps_error

fun absence_fail_closed_code :: "absence_reason \<Rightarrow> mcps_error" where
  "absence_fail_closed_code PlainUnsigned = MissingEnvelope"
| "absence_fail_closed_code TransportFailurePreEvidence = DowngradeForbidden"
| "absence_fail_closed_code ExplicitUnsupportedHint = DowngradeForbidden"

definition classify_response_result :: "verified_response mcps_result \<Rightarrow> evidence_outcome" where
  "classify_response_result result =
     (case result of
        Inr verified \<Rightarrow> Verified verified
      | Inl e \<Rightarrow> if e = MissingEnvelope then Absent PlainUnsigned else Invalid e)"

fun decide :: "enforcement_mode \<Rightarrow> bool \<Rightarrow> evidence_outcome \<Rightarrow> enforcement_decision" where
  "decide mode route_legacy_allowed (Verified v) = AcceptMcps"
| "decide mode route_legacy_allowed (Invalid err) = FailClosed err"
| "decide RequireMcps route_legacy_allowed (Absent reason) = FailClosed (absence_fail_closed_code reason)"
| "decide AllowLegacyExplicit route_legacy_allowed (Absent reason) =
     (if route_legacy_allowed then FallBackToLegacy reason else FailClosed (absence_fail_closed_code reason))"

section \<open>Audit\<close>

datatype client_path = McpsVerified | LegacyExplicit

datatype client_outcome = OutcomeAccepted | OutcomeFellBackToLegacy | OutcomeRejected

record client_audit_event =
  cae_path :: client_path
  cae_outcome :: client_outcome
  cae_reason :: "ustring option"
  cae_legacy_reason :: "absence_reason option"

definition accepted_mcps :: client_audit_event where
  "accepted_mcps = \<lparr>cae_path = McpsVerified, cae_outcome = OutcomeAccepted, cae_reason = None, cae_legacy_reason = None\<rparr>"

definition fell_back_to_legacy :: "absence_reason \<Rightarrow> client_audit_event" where
  "fell_back_to_legacy reason =
     \<lparr>cae_path = LegacyExplicit, cae_outcome = OutcomeFellBackToLegacy, cae_reason = None, cae_legacy_reason = Some reason\<rparr>"

definition client_rejected :: "mcps_error \<Rightarrow> client_audit_event" where
  "client_rejected e =
     \<lparr>cae_path = McpsVerified, cae_outcome = OutcomeRejected, cae_reason = Some (wire_code e), cae_legacy_reason = None\<rparr>"

fun audit_for_decision :: "enforcement_decision \<Rightarrow> client_audit_event" where
  "audit_for_decision AcceptMcps = accepted_mcps"
| "audit_for_decision (FallBackToLegacy reason) = fell_back_to_legacy reason"
| "audit_for_decision (FailClosed e) = client_rejected e"

section \<open>The probe\<close>

datatype support_observation = SupportsMcps | NoMcpsEvidence

record opportunistic_probe =
  op_observations :: "(ustring \<times> support_observation) list"

definition probe_new :: opportunistic_probe where
  "probe_new = \<lparr>op_observations = []\<rparr>"

definition probe_record :: "ustring \<Rightarrow> evidence_outcome \<Rightarrow> opportunistic_probe \<Rightarrow> opportunistic_probe" where
  "probe_record server outcome p =
     p\<lparr>op_observations := AList.update server (case outcome of Verified _ \<Rightarrow> SupportsMcps | _ \<Rightarrow> NoMcpsEvidence) (op_observations p)\<rparr>"

definition observation :: "opportunistic_probe \<Rightarrow> ustring \<Rightarrow> support_observation option" where
  "observation p server = map_of (op_observations p) server"

definition supports_mcps :: "opportunistic_probe \<Rightarrow> ustring \<Rightarrow> bool" where
  "supports_mcps p server \<longleftrightarrow> observation p server = Some SupportsMcps"

definition observed_count :: "opportunistic_probe \<Rightarrow> nat" where
  "observed_count p = length (op_observations p)"

section \<open>Outstanding requests\<close>

record client_pending =
  cp_correlation_id :: ustring
  cp_request_hash :: ustring
  cp_nonce :: ustring
  cp_issued_at_unix :: int
  cp_deadline_unix :: int
  cp_route_id :: ustring
  cp_audience :: ustring
  cp_expected_server_signers :: "ustring list"
  cp_version :: ustring
  cp_canonicalization_id :: ustring
  cp_authz_digest :: ustring

datatype correlation_error = DuplicateCorrelationId | NonceReuse | Uncorrelatable | EntryExpired

fun to_mcps_error :: "correlation_error \<Rightarrow> mcps_error" where
  "to_mcps_error DuplicateCorrelationId = ReplayDetected"
| "to_mcps_error NonceReuse = ReplayDetected"
| "to_mcps_error Uncorrelatable = ResponseHashMismatch"
| "to_mcps_error EntryExpired = ExpiredRequest"

record correlation_store =
  cs_pending :: "(ustring \<times> client_pending) list"
  cs_nonce_window :: "(ustring \<times> int) list"

definition correlation_new :: correlation_store where
  "correlation_new = \<lparr>cs_pending = [], cs_nonce_window = []\<rparr>"

definition outstanding :: "correlation_store \<Rightarrow> nat" where
  "outstanding s = length (cs_pending s)"

definition correlation_register ::
    "client_pending \<Rightarrow> int \<Rightarrow> correlation_store \<Rightarrow> (correlation_error + unit) \<times> correlation_store" where
  "correlation_register request now_unix s =
     (if map_of (cs_pending s) (cp_correlation_id request) \<noteq> None then (Err DuplicateCorrelationId, s)
      else if (case map_of (cs_nonce_window s) (cp_nonce request) of
                 Some retained_until \<Rightarrow> retained_until > now_unix | None \<Rightarrow> False)
      then (Err NonceReuse, s)
      else (Ok (), s\<lparr>cs_nonce_window := AList.update (cp_nonce request) (cp_deadline_unix request) (cs_nonce_window s),
              cs_pending := AList.update (cp_correlation_id request) request (cs_pending s)\<rparr>))"

definition take_for_response ::
    "ustring \<Rightarrow> int \<Rightarrow> correlation_store \<Rightarrow> (correlation_error + client_pending) \<times> correlation_store" where
  "take_for_response correlation_id now_unix s =
     (case map_of (cs_pending s) correlation_id of
        None \<Rightarrow> (Err Uncorrelatable, s)
      | Some entry \<Rightarrow>
          (if now_unix > cp_deadline_unix entry then Err EntryExpired else Ok entry,
           s\<lparr>cs_pending := AList.delete correlation_id (cs_pending s)\<rparr>))"

definition correlation_cancel :: "ustring \<Rightarrow> correlation_store \<Rightarrow> client_pending option \<times> correlation_store" where
  "correlation_cancel correlation_id s =
     (map_of (cs_pending s) correlation_id, s\<lparr>cs_pending := AList.delete correlation_id (cs_pending s)\<rparr>)"

definition sweep_expired :: "int \<Rightarrow> correlation_store \<Rightarrow> nat \<times> correlation_store" where
  "sweep_expired now_unix s =
     (let pending = filter (\<lambda>(_, entry). cp_deadline_unix entry \<ge> now_unix) (cs_pending s) in
      (length (cs_pending s) - length pending,
       s\<lparr>cs_pending := pending,
         cs_nonce_window := filter (\<lambda>(_, retained_until). retained_until \<ge> now_unix) (cs_nonce_window s)\<rparr>))"

section \<open>Discovery\<close>

record proven_support =
  ps_server_signer :: ustring

definition from_verified_response :: "verified_response \<Rightarrow> proven_support" where
  "from_verified_response verified = \<lparr>ps_server_signer = vs_server_signer verified\<rparr>"

record legacy_advert =
  la_versions :: "ustring list"
  la_canonicalization_ids :: "ustring list"

definition string_array :: "json option \<Rightarrow> ustring list" where
  "string_array val =
     (case Option.bind val as_array of
        Some items \<Rightarrow> List.map_filter as_str items
      | None \<Rightarrow> [])"

definition parse_legacy_advert :: "json \<Rightarrow> legacy_advert option" where
  "parse_legacy_advert capabilities =
     Option.bind (json_get capabilities (lit ''experimental'')) (\<lambda>experimental.
     Option.bind (json_get experimental EXTENSION_ID) (\<lambda>advert.
     map_option (\<lambda>ms. \<lparr>la_versions = string_array (obj_get (lit ''versions'') ms),
         la_canonicalization_ids = string_array (obj_get (lit ''canonicalization_ids'') ms)\<rparr>) (as_object advert)))"

text \<open>The cache adds the time to live with plain \<open>+\<close>; \<open>None\<close> where the sum leaves the range of \<open>i64\<close>.\<close>

record advert_cache =
  ac_ttl_secs :: int
  ac_entries :: "(ustring \<times> legacy_advert \<times> int) list"

definition advert_cache_new :: "int \<Rightarrow> advert_cache" where
  "advert_cache_new ttl_secs = \<lparr>ac_ttl_secs = ttl_secs, ac_entries = []\<rparr>"

definition advert_insert :: "ustring \<Rightarrow> legacy_advert \<Rightarrow> int \<Rightarrow> advert_cache \<Rightarrow> advert_cache option" where
  "advert_insert key advert now_unix c =
     (if is_i64 (now_unix + ac_ttl_secs c)
      then Some (c\<lparr>ac_entries := AList.update key (advert, now_unix + ac_ttl_secs c) (ac_entries c)\<rparr>) else None)"

definition advert_get :: "ustring \<Rightarrow> int \<Rightarrow> advert_cache \<Rightarrow> legacy_advert option" where
  "advert_get key now_unix c =
     Option.bind (map_of (ac_entries c) key) (\<lambda>(advert, expiry). if expiry > now_unix then Some advert else None)"

definition advert_evict :: "ustring \<Rightarrow> advert_cache \<Rightarrow> advert_cache" where
  "advert_evict key c = c\<lparr>ac_entries := AList.delete key (ac_entries c)\<rparr>"

definition advert_evict_expired :: "int \<Rightarrow> advert_cache \<Rightarrow> advert_cache" where
  "advert_evict_expired now_unix c = c\<lparr>ac_entries := filter (\<lambda>(_, _, expiry). expiry > now_unix) (ac_entries c)\<rparr>"

record exchange_capability =
  ec_version :: ustring
  ec_canonicalization_id :: "ustring option"

record capability_policy =
  cpol_required_min_version :: ustring
  cpol_supported_versions :: "ustring list"

definition draft02_only :: capability_policy where
  "draft02_only = \<lparr>cpol_required_min_version = VERSION_DRAFT_02, cpol_supported_versions = [VERSION_DRAFT_02]\<rparr>"

datatype capability_verdict = SatisfiesPolicy | WeakerThanPolicy | StrongerSupported | SelfContradictory

definition version_rank :: "ustring \<Rightarrow> nat" where
  "version_rank version = (if version = VERSION_DRAFT_01 then 1 else if version = VERSION_DRAFT_02 then 2 else 0)"

definition self_contradictory :: "exchange_capability \<Rightarrow> bool" where
  "self_contradictory exchange \<longleftrightarrow>
     (if ec_version exchange = VERSION_DRAFT_02 then
        (case ec_canonicalization_id exchange of
           Some cid \<Rightarrow> cid \<notin> set DRAFT_02_CANONICALIZATION_ALLOWLIST
         | None \<Rightarrow> True)
      else ec_version exchange = VERSION_DRAFT_01 \<and> ec_canonicalization_id exchange \<noteq> None)"

definition evaluate_capability :: "exchange_capability \<Rightarrow> capability_policy \<Rightarrow> capability_verdict" where
  "evaluate_capability exchange policy =
     (if self_contradictory exchange then SelfContradictory
      else
        let exchange_rank = version_rank (ec_version exchange);
            required_rank = version_rank (cpol_required_min_version policy) in
        if exchange_rank = 0 \<or> ec_version exchange \<notin> set (cpol_supported_versions policy) then WeakerThanPolicy
        else if exchange_rank < required_rank then WeakerThanPolicy
        else if exchange_rank > required_rank then StrongerSupported
        else SatisfiesPolicy)"

definition advert_mismatch :: "legacy_advert \<Rightarrow> exchange_capability \<Rightarrow> bool" where
  "advert_mismatch advert exchange \<longleftrightarrow> la_versions advert \<noteq> [] \<and> ec_version exchange \<notin> set (la_versions advert)"

section \<open>Audience strings\<close>

definition escape_char :: "uchar \<Rightarrow> ustring" where
  "escape_char c = (if c = 37 then lit ''%25'' else if c = 59 then lit ''%3B'' else if c = 61 then lit ''%3D'' else [c])"

lemma escape_field_chars: "escape_field s = concat (map escape_char s)"
  by (induction s) (auto simp: escape_field_def str_replace_def escape_char_def lit_def)

lemma escape_char_prefix_free: "escape_char c @ us = escape_char d @ vs \<Longrightarrow> c = d"
  by (auto simp: escape_char_def lit_def split: if_split_asm)

lemma escape_field_inj: "escape_field s = escape_field t \<longleftrightarrow> s = t"
proof
  show "escape_field s = escape_field t \<Longrightarrow> s = t"
    unfolding escape_field_chars
  proof (induction s arbitrary: t)
    case Nil
    then show ?case by (cases t) (auto simp: escape_char_def lit_def split: if_split_asm)
  next
    case (Cons c s)
    then obtain d t' where t: "t = d # t'" by (cases t) (auto simp: escape_char_def lit_def split: if_split_asm)
    with Cons.prems have "c = d" by (auto dest: escape_char_prefix_free)
    with Cons t show ?case by simp
  qed
qed simp

lemma escape_field_no_semicolon: "59 \<notin> set (escape_field s)"
  by (auto simp: escape_field_chars escape_char_def lit_def split: if_split_asm)

lemma semicolon_unique:
  assumes "xs @ 59 # us = ys @ 59 # vs" "59 \<notin> set xs" "59 \<notin> set ys"
  shows "xs = ys \<and> us = vs"
  using assms
proof (induction xs arbitrary: ys)
  case Nil
  then show ?case by (cases ys) auto
next
  case (Cons a xs)
  then show ?case by (cases ys) auto
qed

lemma dec_no_semicolon: "59 \<notin> set (dec n)"
  using dec_digits by (force simp: is_digit_def)

section \<open>Runs of the table\<close>

datatype corr_event = CRegister client_pending int | CTake ustring int | CCancel ustring | CSweep int

fun run_corr :: "corr_event \<Rightarrow> correlation_store \<Rightarrow> correlation_store" where
  "run_corr (CRegister r t) s = snd (correlation_register r t s)"
| "run_corr (CTake k t) s = snd (take_for_response k t s)"
| "run_corr (CCancel k) s = snd (correlation_cancel k s)"
| "run_corr (CSweep t) s = snd (sweep_expired t s)"

fun corr_by :: "int \<Rightarrow> corr_event \<Rightarrow> bool" where
  "corr_by now (CRegister r t) \<longleftrightarrow> t \<le> now"
| "corr_by now (CTake k t) \<longleftrightarrow> t \<le> now"
| "corr_by now (CCancel k) \<longleftrightarrow> True"
| "corr_by now (CSweep t) \<longleftrightarrow> t \<le> now"

lemma map_of_filter_kept: "map_of xs k = Some v \<Longrightarrow> P (k, v) \<Longrightarrow> map_of (filter P xs) k = Some v"
  by (induction xs) (auto split: if_split_asm)

lemma run_corr_keeps_nonce:
  assumes "map_of (cs_nonce_window s) n = Some d" "now < d" "corr_by now e"
  shows "map_of (cs_nonce_window (run_corr e s)) n = Some d"
proof (cases e)
  case (CRegister r t)
  then show ?thesis using assms by (auto simp: correlation_register_def update_conv')
next
  case (CTake k t)
  then show ?thesis using assms(1) by (auto simp: take_for_response_def split: option.split)
next
  case (CCancel k)
  then show ?thesis using assms(1) by (simp add: correlation_cancel_def)
next
  case (CSweep t)
  then show ?thesis using assms by (auto simp: sweep_expired_def Let_def intro: map_of_filter_kept)
qed

lemma runs_corr_keep_nonce:
  "map_of (cs_nonce_window s) n = Some d \<Longrightarrow> now < d \<Longrightarrow> list_all (corr_by now) evs \<Longrightarrow>
     map_of (cs_nonce_window (fold run_corr evs s)) n = Some d"
  by (induction evs arbitrary: s) (simp_all add: run_corr_keeps_nonce)

text \<open>What the enforcement table accepts, and when it falls back.\<close>

lemma decide_classified:
  "decide mode allowed (classify_response_result r) =
     (case r of
        Inr v \<Rightarrow> AcceptMcps
      | Inl e \<Rightarrow> if e = MissingEnvelope \<and> mode = AllowLegacyExplicit \<and> allowed then FallBackToLegacy PlainUnsigned else FailClosed e)"
  by (cases mode) (auto simp: classify_response_result_def split: sum.split)

section \<open>Properties\<close>

text \<open>
  C34: an audience string identifies its tuple: two tuples with the same canonical string agree in
  scheme, host, port, tenant, route and realm, whatever characters the fields contain.
\<close>

theorem audience_string_identifies: "to_audience_string a = to_audience_string b \<longleftrightarrow> a = b"
proof
  assume eq: "to_audience_string a = to_audience_string b"
  note sep = semicolon_unique [OF _ escape_field_no_semicolon escape_field_no_semicolon]
  from eq have "escape_field (au_scheme a) = escape_field (au_scheme b)"
    and 1: "escape_field (au_host a) @ lit '';port='' @ dec (unat (au_port a)) @ lit '';tenant='' @ escape_field (au_tenant_id a) @
     lit '';route='' @ escape_field (au_route_id a) @ lit '';realm='' @ escape_field (au_realm a) =
     escape_field (au_host b) @ lit '';port='' @ dec (unat (au_port b)) @ lit '';tenant='' @ escape_field (au_tenant_id b) @
     lit '';route='' @ escape_field (au_route_id b) @ lit '';realm='' @ escape_field (au_realm b)"
    using sep [of "au_scheme a" _ "au_scheme b"] by (auto simp: to_audience_string_def lit_def)
  moreover from 1 have "escape_field (au_host a) = escape_field (au_host b)"
    and 2: "dec (unat (au_port a)) @ lit '';tenant='' @ escape_field (au_tenant_id a) @
     lit '';route='' @ escape_field (au_route_id a) @ lit '';realm='' @ escape_field (au_realm a) =
     dec (unat (au_port b)) @ lit '';tenant='' @ escape_field (au_tenant_id b) @
     lit '';route='' @ escape_field (au_route_id b) @ lit '';realm='' @ escape_field (au_realm b)"
    using sep [of "au_host a" _ "au_host b"] by (auto simp: lit_def)
  moreover from 2 have "unat (au_port a) = unat (au_port b)"
    and 3: "escape_field (au_tenant_id a) @ lit '';route='' @ escape_field (au_route_id a) @ lit '';realm='' @ escape_field (au_realm a) =
     escape_field (au_tenant_id b) @ lit '';route='' @ escape_field (au_route_id b) @ lit '';realm='' @ escape_field (au_realm b)"
    using semicolon_unique [OF _ dec_no_semicolon dec_no_semicolon, of "unat (au_port a)" _ "unat (au_port b)"] by (auto simp: lit_def)
  moreover from 3 have "escape_field (au_tenant_id a) = escape_field (au_tenant_id b)"
    and 4: "escape_field (au_route_id a) @ lit '';realm='' @ escape_field (au_realm a) =
     escape_field (au_route_id b) @ lit '';realm='' @ escape_field (au_realm b)"
    using sep [of "au_tenant_id a" _ "au_tenant_id b"] by (auto simp: lit_def)
  moreover from 4 have "escape_field (au_route_id a) = escape_field (au_route_id b)" "escape_field (au_realm a) = escape_field (au_realm b)"
    using sep [of "au_route_id a" _ "au_route_id b"] by (auto simp: lit_def)
  ultimately show "a = b" by (cases a, cases b) (simp add: escape_field_inj word_unat_eq_iff)
qed simp


text \<open>
  C35: a nonce is not reused in its window: once a request is registered, no request with the same
  nonce is registered before its deadline, whatever registrations, answers, cancellations and
  sweeps happen in between.
\<close>

theorem nonce_not_reused:
  assumes "correlation_register r t s = (Ok (), s')" and "list_all (corr_by now) evs" and "now < cp_deadline_unix r"
    and "cp_nonce r' = cp_nonce r"
  shows "fst (correlation_register r' now (fold run_corr evs s')) \<noteq> Ok ()"
proof -
  have "map_of (cs_nonce_window s') (cp_nonce r) = Some (cp_deadline_unix r)"
    using assms(1) by (auto simp: correlation_register_def update_conv' split: if_split_asm)
  from runs_corr_keep_nonce [OF this assms(3,2)] show ?thesis
    using assms(3,4) by (simp add: correlation_register_def)
qed

text \<open>A request and the table after it was registered and answered.\<close>

definition sample_pending :: client_pending where
  "sample_pending = \<lparr>cp_correlation_id = lit ''1'', cp_request_hash = lit ''sha256:h'', cp_nonce = lit ''n'', cp_issued_at_unix = 1000,
     cp_deadline_unix = 1300, cp_route_id = lit ''r'', cp_audience = lit ''a'', cp_expected_server_signers = [lit ''did:s''],
     cp_version = VERSION_DRAFT_02, cp_canonicalization_id = CANONICALIZATION_ID_INT53_V1, cp_authz_digest = lit ''d''\<rparr>"

theorem nonce_not_reused_witness:
  "fst (correlation_register (sample_pending\<lparr>cp_correlation_id := lit ''2''\<rparr>) 1299
     (fold run_corr [CTake (lit ''1'') 1100, CSweep 1200] (snd (correlation_register sample_pending 1000 correlation_new)))) \<noteq> Ok ()"
  by (rule nonce_not_reused [where t = 1000 and s = correlation_new and r = sample_pending])
    (simp_all add: correlation_register_def correlation_new_def sample_pending_def)

text \<open>
  capabilities are never downgraded: a verified exchange is accepted exactly when its version
  and canonicalization id fit together, the client supports the version, and it is at least the
  required one. No advert takes part in the verdict.
\<close>

theorem capability_accepted_exactly:
  "evaluate_capability exchange policy \<in> {SatisfiesPolicy, StrongerSupported} \<longleftrightarrow>
     ec_version exchange \<in> set (cpol_supported_versions policy) \<and>
     version_rank (cpol_required_min_version policy) \<le> version_rank (ec_version exchange) \<and>
     (ec_version exchange = VERSION_DRAFT_01 \<and> ec_canonicalization_id exchange = None \<or>
      ec_version exchange = VERSION_DRAFT_02 \<and> ec_canonicalization_id exchange = Some CANONICALIZATION_ID_INT53_V1)"
proof -
  have "VERSION_DRAFT_01 \<noteq> VERSION_DRAFT_02" by (simp add: const_defs)
  then show ?thesis
    by (auto simp: evaluate_capability_def self_contradictory_def version_rank_def Let_def
        DRAFT_02_CANONICALIZATION_ALLOWLIST_def split: option.splits)
qed

end
