(* ===== verification/Client_Request.thy ===== *)
theory Client_Request
  imports Host
begin

text \<open>
  The evidence parts of the crate \<open>mcps-client-core\<close>: authorization bindings and their providers
  (\<open>authz.rs\<close>), construction of a signed draft-02 request (\<open>request.rs\<close>), signers and the custody
  policy (\<open>signer.rs\<close>), and verification of the answer (\<open>response.rs\<close>). A provider, a reference
  resolver and a signer are functions the application supplies.
\<close>

section \<open>Authorization bindings\<close>

datatype binding_type_tag = TagOpaqueBytes | TagAuthzSystemReference

fun binding_tag :: "authorization_binding \<Rightarrow> binding_type_tag" where
  "binding_tag (OpaqueBytes alg v) = TagOpaqueBytes"
| "binding_tag (AuthzSystemReference sys scheme ref alg v) = TagAuthzSystemReference"

record authorization_binding_policy =
  abp_allowed_types :: "binding_type_tag list"

definition both_base_forms :: authorization_binding_policy where
  "both_base_forms = \<lparr>abp_allowed_types = [TagOpaqueBytes, TagAuthzSystemReference]\<rparr>"

definition permits_tag :: "authorization_binding_policy \<Rightarrow> binding_type_tag \<Rightarrow> bool" where
  "permits_tag policy tag \<longleftrightarrow> tag \<in> set (abp_allowed_types policy)"

record binding_request_context =
  brc_audience :: ustring
  brc_route_id :: ustring
  brc_method :: "ustring option"
  brc_tool_id :: "ustring option"
  brc_deadline_unix :: int

type_synonym binding_provider = "binding_request_context \<Rightarrow> authorization_binding mcps_result"

definition resolve_authorization_binding ::
    "binding_provider \<Rightarrow> authorization_binding_policy \<Rightarrow> binding_request_context \<Rightarrow> authorization_binding mcps_result" where
  "resolve_authorization_binding provider policy ctx =
     and_then (provider ctx) (\<lambda>binding.
       if \<not> permits_tag policy (binding_tag binding) then Err AuthorizationBindingTypeUnsupported else Ok binding)"

text \<open>The prefix is always there, so the code's \<open>expect\<close> does not fire.\<close>

definition opaque_digest_value :: "ext \<Rightarrow> bytes \<Rightarrow> ustring" where
  "opaque_digest_value x artifact_bytes =
     (case strip_prefix SHA256_PREFIX (sha256_hash_id x artifact_bytes) of Some s \<Rightarrow> s | None \<Rightarrow> [])"

definition opaque_bytes_provide :: "ext \<Rightarrow> bytes \<Rightarrow> binding_provider" where
  "opaque_bytes_provide x artifact_bytes ctx = Ok (OpaqueBytes DIGEST_ALG_SHA256 (opaque_digest_value x artifact_bytes))"

record authz_reference =
  ar_authorization_system_id :: ustring
  ar_reference_scheme_id :: ustring
  ar_reference_value :: ustring
  ar_digest_value :: ustring

type_synonym client_reference_resolver = "binding_request_context \<Rightarrow> authz_reference mcps_result"

definition authz_system_reference_provide :: "client_reference_resolver option \<Rightarrow> binding_provider" where
  "authz_system_reference_provide resolver ctx =
     and_then (ok_or AuthorizationBindingMissing resolver) (\<lambda>resolve.
     and_then (resolve ctx) (\<lambda>reference.
       Ok (AuthzSystemReference (ar_authorization_system_id reference) (ar_reference_scheme_id reference)
         (ar_reference_value reference) DIGEST_ALG_SHA256 (ar_digest_value reference))))"

definition structured_object_provide :: binding_provider where
  "structured_object_provide ctx = Err AuthorizationBindingProfileRequired"

section \<open>Signed requests\<close>

record request_signing_inputs =
  rsi_signer :: ustring
  rsi_key_id :: ustring
  rsi_on_behalf_of :: ustring
  rsi_audience :: ustring
  rsi_authorization_binding :: authorization_binding
  rsi_nonce :: ustring
  rsi_issued_at :: ustring
  rsi_expires_at :: ustring
  rsi_canonicalization_id :: ustring

definition with_default_canonicalization ::
    "ustring \<Rightarrow> ustring \<Rightarrow> ustring \<Rightarrow> ustring \<Rightarrow> authorization_binding \<Rightarrow> ustring \<Rightarrow> ustring \<Rightarrow> ustring \<Rightarrow> request_signing_inputs" where
  "with_default_canonicalization signer key_id on_behalf_of audience authorization_binding nonce issued_at expires_at =
     \<lparr>rsi_signer = signer, rsi_key_id = key_id, rsi_on_behalf_of = on_behalf_of, rsi_audience = audience,
      rsi_authorization_binding = authorization_binding, rsi_nonce = nonce, rsi_issued_at = issued_at,
      rsi_expires_at = expires_at, rsi_canonicalization_id = DRAFT_02_CANONICALIZATION_ALLOWLIST ! 0\<rparr>"

record signed_request =
  sr_wire_bytes :: bytes
  sr_request_hash :: ustring
  sr_object :: json

definition client_check_canonicalization_id :: "ustring \<Rightarrow> unit mcps_result" where
  "client_check_canonicalization_id cid =
     (if cid = [] then Err CanonicalizationIdMissing
      else if cid \<in> set DRAFT_02_CANONICALIZATION_ALLOWLIST then Ok () else Err CanonicalizationIdNotAllowed)"

definition client_envelope :: "request_signing_inputs \<Rightarrow> json" where
  "client_envelope inputs =
     json_object [(lit ''version'', Str VERSION_DRAFT_02), (lit ''canonicalization_id'', Str (rsi_canonicalization_id inputs)),
       (lit ''signer'', Str (rsi_signer inputs)), (lit ''on_behalf_of'', Str (rsi_on_behalf_of inputs)),
       (lit ''audience'', Str (rsi_audience inputs)),
       (lit ''authorization_binding'', Obj (binding_members (rsi_authorization_binding inputs))),
       (lit ''nonce'', Str (rsi_nonce inputs)), (lit ''issued_at'', Str (rsi_issued_at inputs)),
       (lit ''expires_at'', Str (rsi_expires_at inputs)),
       (lit ''signature'', json_object [(lit ''alg'', Str SIG_ALG_ED25519), (lit ''key_id'', Str (rsi_key_id inputs))])]"

definition build_signed_request_with ::
    "ext \<Rightarrow> json \<Rightarrow> ustring \<Rightarrow> members \<Rightarrow> request_signing_inputs \<Rightarrow> (bytes \<Rightarrow> ustring mcps_result) \<Rightarrow> signed_request mcps_result" where
  "build_signed_request_with x rid method params inputs sign_fn =
     and_then (client_check_canonicalization_id (rsi_canonicalization_id inputs)) (\<lambda>_.
     let request = request_object rid method (merge_meta params REQUEST_META_KEY (client_envelope inputs)) in
     and_then (request_signing_preimage request) (\<lambda>preimage.
     and_then (sign_fn preimage) (\<lambda>signature.
     let signed = update_path (signature_path Request) (json_insert (lit ''value'') (Str signature)) request in
     and_then (request_hash x signed) (\<lambda>h.
     and_then (ok_or CanonicalizationFailed (to_vec x signed)) (\<lambda>wire_bytes.
       Ok \<lparr>sr_wire_bytes = wire_bytes, sr_request_hash = h, sr_object = signed\<rparr>)))))"

definition build_signed_request ::
    "ext \<Rightarrow> json \<Rightarrow> ustring \<Rightarrow> members \<Rightarrow> request_signing_inputs \<Rightarrow> signing_key \<Rightarrow> signed_request mcps_result" where
  "build_signed_request x rid method params inputs key =
     build_signed_request_with x rid method params inputs (\<lambda>preimage. Ok (sign x key preimage))"

definition build_signed_tool_call ::
    "ext \<Rightarrow> json \<Rightarrow> ustring \<Rightarrow> json \<Rightarrow> request_signing_inputs \<Rightarrow> signing_key \<Rightarrow> signed_request mcps_result" where
  "build_signed_tool_call x rid tool_name arguments inputs key =
     build_signed_request x rid (lit ''tools/call'') (tool_call_params tool_name arguments) inputs key"

section \<open>Signers\<close>

datatype custody_class = NonExporting | SoftwareHeldPrivate | DevFileUnprotected

definition acceptable_for_production :: "custody_class \<Rightarrow> bool" where
  "acceptable_for_production c \<longleftrightarrow> c \<noteq> DevFileUnprotected"

definition is_non_exporting :: "custody_class \<Rightarrow> bool" where
  "is_non_exporting c \<longleftrightarrow> c = NonExporting"

record client_signer =
  csg_signer_id :: ustring
  csg_key_id :: ustring
  csg_custody :: custody_class
  csg_sign_preimage :: "bytes \<Rightarrow> ustring mcps_result"

datatype environment = Production | DevTest

record signer_policy =
  sp_expected_signer :: ustring
  sp_revoked_key_ids :: "ustring set"
  sp_environment :: environment
  sp_require_mcps :: bool
  sp_require_non_exporting :: bool

definition signer_policy_new :: "ustring \<Rightarrow> environment \<Rightarrow> bool \<Rightarrow> signer_policy" where
  "signer_policy_new expected_signer env require_mcps =
     \<lparr>sp_expected_signer = expected_signer, sp_revoked_key_ids = {}, sp_environment = env, sp_require_mcps = require_mcps,
      sp_require_non_exporting = False\<rparr>"

definition revoke_key_id :: "ustring \<Rightarrow> signer_policy \<Rightarrow> signer_policy" where
  "revoke_key_id key_id p = p\<lparr>sp_revoked_key_ids := insert key_id (sp_revoked_key_ids p)\<rparr>"

definition require_non_exporting :: "signer_policy \<Rightarrow> signer_policy" where
  "require_non_exporting p = p\<lparr>sp_require_non_exporting := True\<rparr>"

definition authorize_signer :: "signer_policy \<Rightarrow> client_signer \<Rightarrow> unit mcps_result" where
  "authorize_signer policy signer =
     (if csg_signer_id signer \<noteq> sp_expected_signer policy then Err ActorBindingFailed
      else if csg_key_id signer \<in> sp_revoked_key_ids policy then Err ActorBindingFailed
      else if sp_require_non_exporting policy \<and> \<not> is_non_exporting (csg_custody signer) then Err ActorBindingFailed
      else if sp_require_mcps policy \<and> sp_environment policy = Production \<and> \<not> acceptable_for_production (csg_custody signer)
      then Err ActorBindingFailed
      else Ok ())"

definition build_signed_request_with_signer ::
    "ext \<Rightarrow> json \<Rightarrow> ustring \<Rightarrow> members \<Rightarrow> request_signing_inputs \<Rightarrow> client_signer \<Rightarrow> signer_policy \<Rightarrow> signed_request mcps_result" where
  "build_signed_request_with_signer x rid method params inputs signer policy =
     and_then (authorize_signer policy signer) (\<lambda>_.
       build_signed_request_with x rid method params
         (inputs\<lparr>rsi_signer := csg_signer_id signer, rsi_key_id := csg_key_id signer\<rparr>) (csg_sign_preimage signer))"

definition software_signer :: "ext \<Rightarrow> signing_key \<Rightarrow> ustring \<Rightarrow> ustring \<Rightarrow> client_signer" where
  "software_signer x key signer_id key_id =
     \<lparr>csg_signer_id = signer_id, csg_key_id = key_id, csg_custody = SoftwareHeldPrivate,
      csg_sign_preimage = (\<lambda>preimage. Ok (sign x key preimage))\<rparr>"

definition dev_file_signer :: "ext \<Rightarrow> signing_key \<Rightarrow> ustring \<Rightarrow> ustring \<Rightarrow> client_signer" where
  "dev_file_signer x key signer_id key_id =
     \<lparr>csg_signer_id = signer_id, csg_key_id = key_id, csg_custody = DevFileUnprotected,
      csg_sign_preimage = (\<lambda>preimage. Ok (sign x key preimage))\<rparr>"

section \<open>Responses\<close>

record response_expectation =
  rx_expected_request_hash :: ustring
  rx_expected_canonicalization_id :: ustring
  rx_expected_server_signer :: "ustring option"

definition expectation_new :: "ustring \<Rightarrow> ustring \<Rightarrow> response_expectation" where
  "expectation_new expected_request_hash expected_canonicalization_id =
     \<lparr>rx_expected_request_hash = expected_request_hash, rx_expected_canonicalization_id = expected_canonicalization_id,
      rx_expected_server_signer = None\<rparr>"

definition with_expected_server_signer :: "ustring \<Rightarrow> response_expectation \<Rightarrow> response_expectation" where
  "with_expected_server_signer signer e = e\<lparr>rx_expected_server_signer := Some signer\<rparr>"

definition verify_signed_response :: "ext \<Rightarrow> resolve_fn \<Rightarrow> response_expectation \<Rightarrow> bytes \<Rightarrow> verified_response mcps_result" where
  "verify_signed_response x resolve expectation raw_bytes =
     and_then (verify_response_draft02 x resolve (rx_expected_request_hash expectation)
         (rx_expected_canonicalization_id expectation) raw_bytes) (\<lambda>verified.
       case rx_expected_server_signer expectation of
         Some expected \<Rightarrow> if vs_server_signer verified \<noteq> expected then Err ActorBindingFailed else Ok verified
       | None \<Rightarrow> Ok verified)"

section \<open>What the client writes\<close>

definition client_env :: "request_signing_inputs \<Rightarrow> ustring option \<Rightarrow> draft02_request_envelope" where
  "client_env inputs sig =
     \<lparr>d2_version = VERSION_DRAFT_02, d2_canonicalization_id = rsi_canonicalization_id inputs, d2_signer = rsi_signer inputs,
      d2_on_behalf_of = rsi_on_behalf_of inputs, d2_audience = rsi_audience inputs,
      d2_authorization_binding = rsi_authorization_binding inputs, d2_nonce = rsi_nonce inputs,
      d2_issued_at = rsi_issued_at inputs, d2_expires_at = rsi_expires_at inputs,
      d2_signature = \<lparr>sb_alg = SIG_ALG_ED25519, sb_key_id = rsi_key_id inputs, sb_value = sig\<rparr>\<rparr>"

lemma client_envelope_ser: "client_envelope inputs = ser_draft02_request_envelope (client_env inputs None)"
  by (simp add: client_envelope_def ser_draft02_request_envelope_def draft02_members_def client_env_def
      ser_signature_block_def json_object_def lit_def)

lemma insert_value_client:
  "update_path [lit ''signature''] (json_insert (lit ''value'') (Str v)) (ser_draft02_request_envelope (client_env inputs None)) =
   ser_draft02_request_envelope (client_env inputs (Some v))"
  by (simp add: ser_draft02_request_envelope_def draft02_members_def client_env_def ser_signature_block_def obj_update_def lit_def)

text \<open>A binding the profile admits: the right digest algorithm and no empty field.\<close>

definition binding_ok :: "authorization_binding \<Rightarrow> bool" where
  "binding_ok b \<longleftrightarrow> json_wf (Obj (binding_members b)) \<and>
     (case b of
        OpaqueBytes alg v \<Rightarrow> alg = DIGEST_ALG_SHA256 \<and> v \<noteq> []
      | AuthzSystemReference sys scheme ref alg v \<Rightarrow>
          alg = DIGEST_ALG_SHA256 \<and> sys \<noteq> [] \<and> scheme \<noteq> [] \<and> ref \<noteq> [] \<and> v \<noteq> [])"

lemma binding_ok_checks:
  "binding_ok b \<Longrightarrow> json_get raw (lit ''authorization_binding'') = Some (Obj (binding_members b)) \<Longrightarrow> check_authorization_binding raw = Ok ()"
  unfolding check_authorization_binding_Ok
  by (cases b) (simp_all add: binding_ok_def binding_members_def get_str_def required_binding_fields_def REFERENCE_ONLY_def
      obj_contains_def const_defs)

definition client_signable :: "signing_key \<Rightarrow> json \<Rightarrow> ustring \<Rightarrow> members \<Rightarrow> request_signing_inputs \<Rightarrow> bool" where
  "client_signable key rid method params inputs \<longleftrightarrow>
     length (sk_seed key) = 32 \<and> rid \<noteq> Null \<and> json_wf rid \<and> safe_json rid 1 \<and>
     json_wf (Obj params) \<and> safe_json (Obj params) 1 \<and> binding_ok (rsi_authorization_binding inputs) \<and>
     rsi_canonicalization_id inputs = CANONICALIZATION_ID_INT53_V1 \<and>
     list_all valid_str [method, rsi_signer inputs, rsi_key_id inputs, rsi_on_behalf_of inputs, rsi_audience inputs,
       rsi_nonce inputs, rsi_issued_at inputs, rsi_expires_at inputs]"

lemma client_envelope_wf:
  assumes "client_signable key rid method params inputs"
  shows "json_wf (client_envelope inputs)" "safe_json (client_envelope inputs) 3"
proof -
  have b: "json_wf (Obj (binding_members (rsi_authorization_binding inputs)))"
    using assms by (simp add: client_signable_def binding_ok_def del: json_wf.simps)
  then show "json_wf (client_envelope inputs)"
    using assms unfolding client_signable_def client_envelope_ser ser_draft02_request_envelope_def
    by (simp add: draft02_members_def client_env_def ser_signature_block_def const_defs) (simp add: lit_def)
  have "list_all (\<lambda>(k, v). safe_json v 5) (binding_members b)" for b
    using binding_members_str [of _ _ b] by (fastforce simp: list_all_iff)
  then show "safe_json (client_envelope inputs) 3"
    unfolding client_envelope_ser ser_draft02_request_envelope_def
    by (simp add: draft02_members_def client_env_def ser_signature_block_def MAX_PARSE_DEPTH_def)
qed

lemma client_request_reads:
  assumes x: "base64_documented x" "ed25519_documented x" "serde_documented x" "serde_prints x"
    and ok: "client_signable key rid meth params inputs"
  shows "\<exists>r pre. build_signed_request_with x rid meth params inputs (\<lambda>preimage. Ok (sign x key preimage)) = Ok r \<and>
    open_message x (sr_wire_bytes r) = Ok (sr_object r) \<and> json_get (sr_object r) (lit ''id'') = Some rid \<and>
    signing_preimage (sr_object r) Request = Ok pre \<and> sr_request_hash r = sha256_hash_id x pre \<and>
    read_request_envelope_version (sr_object r) = Ok VERSION_DRAFT_02 \<and>
    extract_draft02_request_envelope (sr_object r) = Ok (client_env inputs (Some (sign x key pre))) \<and>
    (\<forall>e. verify_ed25519_with x pre (sign x key pre) (public_key x key) e = Ok ())"
proof -
  let ?env = "client_envelope inputs"
  let ?params = "merge_meta params REQUEST_META_KEY ?env"
  let ?o = "request_object rid meth ?params" and ?p = "[lit ''params'', lit ''_meta'', REQUEST_META_KEY]"
  note env = client_envelope_wf [OF ok]
  have wf: "json_wf ?o"
    using ok env(1) by (intro request_object_wf merge_meta_wf) (simp_all add: client_signable_def REQUEST_META_KEY_def)
  have safe: "safe_json ?o 0"
    using ok env(2) by (intro request_object_safe merge_meta_safe) (simp_all add: client_signable_def MAX_PARSE_DEPTH_def numeral_3_eq_3)
  have p: "json_path ?o ?p = Some ?env"
    using merge_meta_path [of params REQUEST_META_KEY ?env] by (simp add: request_object_members)
  have sp: "signature_path Request = ?p @ [lit ''signature'']" by (simp add: signature_path_def)
  have "\<exists>ms. json_path ?env [lit ''signature''] = Some (Obj ms)"
    by (simp add: client_envelope_ser ser_draft02_request_envelope_def draft02_members_def ser_signature_block_def)
  then obtain ms where ms: "json_path ?o (signature_path Request) = Some (Obj ms)"
    unfolding sp json_path_append p by auto
  from signed_in_place [OF x _ wf safe ms] ok obtain pre signed bs cs where
    s: "sign_in_place x key Request ?o = Ok signed"
      "signed = update_path (signature_path Request) (json_insert (lit ''value'') (Str (sign x key pre))) ?o"
      "signing_preimage signed Request = Ok pre" "to_vec x signed = Some bs" "from_slice x bs = Some signed"
      "canonicalize bs = Ok cs" "\<forall>e. verify_ed25519_with x pre (sign x key pre) (public_key x key) e = Ok ()"
    unfolding client_signable_def by blast
  let ?r = "\<lparr>sr_wire_bytes = bs, sr_request_hash = sha256_hash_id x pre, sr_object = signed\<rparr>"
  have pre: "signing_preimage ?o Request = Ok pre" using s(2,3) preimage_insert_signature [of Request _ ?o] by simp
  have env': "json_path signed ?p = Some (ser_draft02_request_envelope (client_env inputs (Some (sign x key pre))))"
    using json_path_update [of ?p _ ?o "[]"] p insert_value_client
    unfolding s(2) sp update_path_append by (simp add: client_envelope_ser)
  then have "read_request_envelope_version signed = Ok VERSION_DRAFT_02"
    unfolding read_request_envelope_version_def env' by (simp add: ser_draft02_request_envelope_def draft02_members_def client_env_def)
  moreover have "json_get (ser_draft02_request_envelope (client_env inputs sig)) (lit ''authorization_binding'') =
      Some (Obj (binding_members (rsi_authorization_binding inputs)))" for sig
    by (simp add: ser_draft02_request_envelope_def draft02_members_def client_env_def)
  then have "extract_draft02_request_envelope signed = Ok (client_env inputs (Some (sign x key pre)))"
    unfolding extract_draft02_request_envelope_Ok using env' ok binding_ok_checks
    by (auto simp: de_draft02_request_envelope_ser client_signable_def) (auto simp: client_env_def)
  moreover have "open_message x bs = Ok signed"
    using ok s(5,6) unfolding open_message_Ok s(2)
    by (auto simp: request_object_members is_array_def signature_path_def client_signable_def)
  moreover have "json_get signed (lit ''id'') = Some rid"
    unfolding s(2) by (simp add: request_object_members signature_path_def)
  moreover have "build_signed_request_with x rid meth params inputs (\<lambda>preimage. Ok (sign x key preimage)) = Ok ?r"
    using ok s(2-4) pre by (simp add: build_signed_request_with_def client_check_canonicalization_id_def client_signable_def
        DRAFT_02_CANONICALIZATION_ALLOWLIST_def CANONICALIZATION_ID_INT53_V1_def Let_def request_signing_preimage_def request_hash_def)
  ultimately show ?thesis using s(3,7) by (intro exI [of _ ?r] exI [of _ pre]) simp
qed

definition client_verdict :: "request_signing_inputs \<Rightarrow> ustring \<Rightarrow> verified_request" where
  "client_verdict inputs h =
     \<lparr>vr_signer = rsi_signer inputs, vr_key_id = rsi_key_id inputs, vr_on_behalf_of = rsi_on_behalf_of inputs,
      vr_audience = rsi_audience inputs, vr_authorization = Draft02Binding (rsi_authorization_binding inputs),
      vr_request_hash = h, vr_nonce = rsi_nonce inputs, vr_issued_at = rsi_issued_at inputs,
      vr_expires_at = rsi_expires_at inputs, vr_canonicalization_id = Some (rsi_canonicalization_id inputs)\<rparr>"

lemma client_request_verifies:
  assumes x: "base64_documented x" "ed25519_documented x" "serde_documented x" "serde_prints x"
    and ok: "client_signable key rid meth params inputs"
    and fields: "rsi_on_behalf_of inputs \<noteq> []" "rsi_audience inputs = expected_audience config"
    and fresh: "check_freshness (rsi_issued_at inputs) (rsi_expires_at inputs) now (skew_secs config) = Ok ()"
      "parse_rfc3339_utc (rsi_expires_at inputs) = Ok e"
    and key: "resolve (rsi_signer inputs) (rsi_key_id inputs) = Ok (public_key x key)"
    and cache: "check c (rsi_signer inputs) (rsi_audience inputs) (rsi_nonce inputs) e = (Ok Fresh, c')"
  shows "\<exists>r. build_signed_request_with x rid meth params inputs (\<lambda>preimage. Ok (sign x key preimage)) = Ok r \<and>
    open_message x (sr_wire_bytes r) = Ok (sr_object r) \<and> json_get (sr_object r) (lit ''id'') = Some rid \<and>
    read_request_envelope_version (sr_object r) = Ok VERSION_DRAFT_02 \<and>
    verify_request_draft02 x resolve check c config now (sr_wire_bytes r) = (Ok (client_verdict inputs (sr_request_hash r)), c')"
proof -
  from client_request_reads [OF x ok] obtain r pre where
    s: "build_signed_request_with x rid meth params inputs (\<lambda>preimage. Ok (sign x key preimage)) = Ok r"
      "open_message x (sr_wire_bytes r) = Ok (sr_object r)" "json_get (sr_object r) (lit ''id'') = Some rid"
      "signing_preimage (sr_object r) Request = Ok pre" "sr_request_hash r = sha256_hash_id x pre"
      "read_request_envelope_version (sr_object r) = Ok VERSION_DRAFT_02"
      "extract_draft02_request_envelope (sr_object r) = Ok (client_env inputs (Some (sign x key pre)))"
      "\<forall>e. verify_ed25519_with x pre (sign x key pre) (public_key x key) e = Ok ()" by blast
  let ?env = "client_env inputs (Some (sign x key pre))"
  have "authenticate_request x resolve config now (sr_object r) (d2_signer ?env) (d2_audience ?env)
      (d2_issued_at ?env) (d2_expires_at ?env) (d2_signature ?env) = Ok e"
    unfolding authenticate_request_Ok using fields(2) fresh key s(4,8) by (simp add: client_env_def verify_ed25519_def)
  then have "request_checks_draft02 x resolve config now (sr_wire_bytes r) = Ok (sr_object r, ?env, e)"
    unfolding request_checks_draft02_Ok using s(2,7) fields(1) by (simp add: client_env_def)
  then have "verify_request_draft02 x resolve check c config now (sr_wire_bytes r) = (Ok (client_verdict inputs (sr_request_hash r)), c')"
    unfolding verify_request_draft02_Ok using cache s(4,5)
    by (auto simp: client_env_def client_verdict_def request_hash_def request_signing_preimage_def)
  with s show ?thesis by blast
qed

lemma opaque_binding_ok:
  assumes "base64_documented x" "sha256_documented x"
  shows "binding_ok (OpaqueBytes DIGEST_ALG_SHA256 (opaque_digest_value x artifact))"
proof -
  have v: "opaque_digest_value x artifact = b64url_encode x (sha256 x artifact)"
    by (simp add: opaque_digest_value_def sha256_hash_id_def strip_prefix_append)
  have "b64url_encode x (sha256 x artifact) \<noteq> []"
  proof
    assume "b64url_encode x (sha256 x artifact) = []"
    then have "base64_decode x [] = Some (sha256 x artifact)"
      using assms by (auto simp: base64_documented_def sha256_documented_def b64url_encode_def) (metis)
    then show False using assms unfolding base64_documented_def sha256_documented_def by fastforce
  qed
  moreover have "valid_str (b64url_encode x (sha256 x artifact))"
    using assms by (simp add: base64_documented_def sha256_documented_def b64url_encode_def)
  ultimately show ?thesis by (simp add: binding_ok_def v binding_members_def const_defs) (simp add: lit_def)
qed

section \<open>An instance\<close>

definition sample_inputs :: "ustring \<Rightarrow> request_signing_inputs" where
  "sample_inputs audience = with_default_canonicalization (hs_signer sample_host) (hs_key_id sample_host) (lit ''did:u'') audience
     (OpaqueBytes DIGEST_ALG_SHA256 (opaque_digest_value sample_ext [1])) (lit ''n'') (unix_to_rfc3339_utc 1000) (unix_to_rfc3339_utc 1300)"

definition sample_signer :: client_signer where
  "sample_signer = software_signer sample_ext (hs_signing_key sample_host) (hs_signer sample_host) (hs_key_id sample_host)"

definition sample_policy :: signer_policy where
  "sample_policy = signer_policy_new (hs_signer sample_host) Production True"

lemma sample_authorized: "authorize_signer sample_policy sample_signer = Ok ()"
  by (simp add: authorize_signer_def sample_policy_def signer_policy_new_def sample_signer_def software_signer_def acceptable_for_production_def)

lemma sample_inputs_parts:
  "rsi_on_behalf_of (sample_inputs a) \<noteq> []" "rsi_audience (sample_inputs a) = a" "rsi_issued_at (sample_inputs a) = unix_to_rfc3339_utc 1000"
  "rsi_expires_at (sample_inputs a) = unix_to_rfc3339_utc 1300" "rsi_nonce (sample_inputs a) = lit ''n''"
  "rsi_signer (sample_inputs a) = hs_signer sample_host" "rsi_key_id (sample_inputs a) = hs_key_id sample_host"
  "rsi_canonicalization_id (sample_inputs a) = CANONICALIZATION_ID_INT53_V1"
  by (simp_all add: sample_inputs_def with_default_canonicalization_def DRAFT_02_CANONICALIZATION_ALLOWLIST_def lit_def)

lemma sample_client_signable:
  assumes "valid_str a" "json_wf (Obj params)" "safe_json (Obj params) 1"
  shows "client_signable (hs_signing_key sample_host) (Number (NInt 1)) (lit ''tools/call'') params (sample_inputs a)"
proof -
  have "binding_ok (rsi_authorization_binding (sample_inputs a))"
    unfolding sample_inputs_def with_default_canonicalization_def
    using opaque_binding_ok [OF sample_ext_documented(1,2)] by simp
  then show ?thesis using assms sample_signable unfolding client_signable_def sample_inputs_parts
    by (simp add: signable_def sample_inputs_def with_default_canonicalization_def MAX_SAFE_INTEGER_def rfc3339_valid
        del: json_wf.simps(2) safe_json.simps(3))
qed

section \<open>Properties\<close>

text \<open>
  what a client signs is accepted: a draft-02 request for inputs of the safe domain, made
  through a signer the custody policy authorizes, is accepted by a verifier that trusts the key, is
  the audience, sees it in its window and has not seen the nonce, and the verdict carries the hash
  the client keeps, the signer's identity and the binding the provider gave.
\<close>

theorem client_request_accepted:
  assumes "base64_documented x" and "ed25519_documented x" and "serde_documented x" and "serde_prints x"
    and "inputs' = inputs\<lparr>rsi_signer := sid, rsi_key_id := kid\<rparr>" and "client_signable key rid meth params inputs'"
    and "authorize_signer policy (software_signer x key sid kid) = Ok ()"
    and "rsi_on_behalf_of inputs \<noteq> []" and "rsi_audience inputs = expected_audience config"
    and "check_freshness (rsi_issued_at inputs) (rsi_expires_at inputs) now (skew_secs config) = Ok ()"
    and "parse_rfc3339_utc (rsi_expires_at inputs) = Ok e" and "resolve sid kid = Ok (public_key x key)"
    and "check c sid (rsi_audience inputs) (rsi_nonce inputs) e = (Ok Fresh, c')"
  shows "\<exists>r. build_signed_request_with_signer x rid meth params inputs (software_signer x key sid kid) policy = Ok r \<and>
    verify_request_draft02 x resolve check c config now (sr_wire_bytes r) =
      (Ok \<lparr>vr_signer = sid, vr_key_id = kid, vr_on_behalf_of = rsi_on_behalf_of inputs, vr_audience = rsi_audience inputs,
         vr_authorization = Draft02Binding (rsi_authorization_binding inputs), vr_request_hash = sr_request_hash r,
         vr_nonce = rsi_nonce inputs, vr_issued_at = rsi_issued_at inputs, vr_expires_at = rsi_expires_at inputs,
         vr_canonicalization_id = Some (rsi_canonicalization_id inputs)\<rparr>, c')"
  using client_request_verifies [where resolve = resolve and check = check and c = c and c' = c' and config = config and now = now and e = e,
      OF assms(1-4,6)] assms(5,7-13)
  by (auto simp: build_signed_request_with_signer_def software_signer_def client_verdict_def)


theorem client_request_accepted_witness:
  "\<exists>r vr c'. build_signed_request_with_signer sample_ext (Number (NInt 1)) (lit ''tools/call'') [] (sample_inputs (lit ''did:s''))
      (software_signer sample_ext (hs_signing_key sample_host) (hs_signer sample_host) (hs_key_id sample_host)) sample_policy = Ok r \<and>
    verify_request_draft02 sample_ext sample_resolve check_and_insert (replay_new 30) sample_config 1100 (sr_wire_bytes r) = (Ok vr, c')"
proof -
  let ?i = "sample_inputs (lit ''did:s'')"
  have i: "?i\<lparr>rsi_signer := hs_signer sample_host, rsi_key_id := hs_key_id sample_host\<rparr> = ?i"
    by (simp add: sample_inputs_def with_default_canonicalization_def)
  have s: "client_signable (hs_signing_key sample_host) (Number (NInt 1)) (lit ''tools/call'') [] ?i"
    by (rule sample_client_signable) (simp_all add: MAX_PARSE_DEPTH_def)
  have aud: "rsi_audience ?i = expected_audience sample_config" by (simp add: sample_inputs_parts sample_config_def)
  show ?thesis
    using client_request_accepted [where resolve = sample_resolve and check = check_and_insert and c = "replay_new 30",
        OF sample_documented i [symmetric] s sample_authorized [unfolded sample_signer_def] sample_inputs_parts(1) aud,
        unfolded sample_inputs_parts, OF sample_fresh sample_parses(2) sample_key sample_admits] by blast
qed

end
