(* ===== verification/Client_Proxy.thy ===== *)
theory Client_Proxy
  imports Exchange Client_Policy Client_Request
begin

text \<open>
  The crate \<open>mcps-client-proxy\<close>: the local adapter that speaks plain MCP to its client and MCP-S
  to the remote side (\<open>proxy.rs\<close>, \<open>route.rs\<close>, \<open>transport.rs\<close>). A call returns its result, the
  table of outstanding requests after it, and the messages it sent. The remote leg is a function of
  the bytes sent.
\<close>

section \<open>Routes and errors\<close>

record transport_error =
  te_detail :: ustring

type_synonym remote_transport = "bytes \<Rightarrow> transport_error + bytes"

datatype proxy_error = UnknownRoute ustring | MalformedRequest | TransportFailed transport_error | FailedClosed mcps_error

fun proxy_error_wire_code :: "proxy_error \<Rightarrow> ustring option" where
  "proxy_error_wire_code (FailedClosed e) = Some (wire_code e)"
| "proxy_error_wire_code _ = None"

record route =
  rt_route_id :: ustring
  rt_enforcement_mode :: enforcement_mode
  rt_legacy_allowed :: bool
  rt_signer_audience :: signer_audience_binding
  rt_authz_policy :: authorization_binding_policy
  rt_authz_provider :: binding_provider

record route_registry =
  rr_routes :: "(ustring \<times> route) list"

definition registry_new :: route_registry where
  "registry_new = \<lparr>rr_routes = []\<rparr>"

definition registry_register :: "route \<Rightarrow> route_registry \<Rightarrow> route_registry" where
  "registry_register r reg = reg\<lparr>rr_routes := AList.update (rt_route_id r) r (rr_routes reg)\<rparr>"

definition registry_get :: "route_registry \<Rightarrow> ustring \<Rightarrow> route option" where
  "registry_get reg route_id = map_of (rr_routes reg) route_id"

section \<open>The proxy\<close>

record call_params =
  cl_on_behalf_of :: ustring
  cl_nonce :: ustring
  cl_issued_at :: ustring
  cl_expires_at :: ustring
  cl_now_unix :: int
  cl_deadline_unix :: int

record proxy_response =
  prs_plain_response :: json
  prs_audit :: client_audit_event
  prs_path :: client_path

record client_proxy =
  cpx_registry :: route_registry
  cpx_signer :: client_signer
  cpx_signer_policy :: signer_policy
  cpx_trust_resolver :: resolve_fn
  cpx_transport :: remote_transport
  cpx_correlation :: correlation_store

definition client_proxy_new ::
    "route_registry \<Rightarrow> client_signer \<Rightarrow> signer_policy \<Rightarrow> resolve_fn \<Rightarrow> remote_transport \<Rightarrow> client_proxy" where
  "client_proxy_new registry signer signer_policy trust_resolver transport =
     \<lparr>cpx_registry = registry, cpx_signer = signer, cpx_signer_policy = signer_policy, cpx_trust_resolver = trust_resolver,
      cpx_transport = transport, cpx_correlation = correlation_new\<rparr>"

fun binding_digest :: "authorization_binding \<Rightarrow> ustring" where
  "binding_digest (OpaqueBytes alg digest_value) = digest_value"
| "binding_digest (AuthzSystemReference sys scheme ref alg digest_value) = digest_value"

definition plain_response_from_verified :: "ext \<Rightarrow> json \<Rightarrow> bytes \<Rightarrow> json mcps_result" where
  "plain_response_from_verified x rid response_bytes =
     and_then (ok_or CanonicalizationFailed (from_slice x response_bytes)) (\<lambda>object.
     and_then (ok_or CanonicalizationFailed (json_get object (lit ''result''))) (\<lambda>result.
     and_then (unwrap_verified_result result) (\<lambda>unwrapped.
       Ok (json_object [(lit ''jsonrpc'', Str (lit ''2.0'')), (lit ''id'', rid), (lit ''result'', into_value unwrapped)]))))"

text \<open>The plain request, read without any MCP-S field: id, method and parameters.\<close>

definition plain_id :: "json \<Rightarrow> json" where
  "plain_id plain_request = (case json_get plain_request (lit ''id'') of Some v \<Rightarrow> v | None \<Rightarrow> Null)"

definition plain_params :: "json \<Rightarrow> members" where
  "plain_params plain_request =
     (case Option.bind (json_get plain_request (lit ''params'')) as_object of Some m \<Rightarrow> m | None \<Rightarrow> [])"

text \<open>From the route and the plain request to the binding and the signed request.\<close>

definition sign_outbound ::
    "ext \<Rightarrow> client_proxy \<Rightarrow> route \<Rightarrow> ustring \<Rightarrow> json \<Rightarrow> ustring \<Rightarrow> call_params \<Rightarrow> (authorization_binding \<times> signed_request) mcps_result" where
  "sign_outbound x p route route_id plain_request meth params =
     (let audience = audience_string (rt_signer_audience route);
          ctx = \<lparr>brc_audience = audience, brc_route_id = route_id, brc_method = Some meth,
            brc_tool_id = Option.bind (obj_get (lit ''name'') (plain_params plain_request)) as_str,
            brc_deadline_unix = cl_deadline_unix params\<rparr> in
      and_then (resolve_authorization_binding (rt_authz_provider route) (rt_authz_policy route) ctx) (\<lambda>binding.
      and_then (build_signed_request_with_signer x (plain_id plain_request) meth (plain_params plain_request)
          (with_default_canonicalization (csg_signer_id (cpx_signer p)) (csg_key_id (cpx_signer p)) (cl_on_behalf_of params)
             audience binding (cl_nonce params) (cl_issued_at params) (cl_expires_at params))
          (cpx_signer p) (cpx_signer_policy p)) (\<lambda>sreq.
        Ok (binding, sreq))))"

definition pending_entry :: "ustring \<Rightarrow> route \<Rightarrow> ustring \<Rightarrow> call_params \<Rightarrow> authorization_binding \<Rightarrow> signed_request \<Rightarrow> client_pending" where
  "pending_entry correlation_id route route_id params binding sreq =
     \<lparr>cp_correlation_id = correlation_id, cp_request_hash = sr_request_hash sreq, cp_nonce = cl_nonce params,
      cp_issued_at_unix = cl_now_unix params, cp_deadline_unix = cl_deadline_unix params, cp_route_id = route_id,
      cp_audience = audience_string (rt_signer_audience route),
      cp_expected_server_signers = [sab_expected_server_signer (rt_signer_audience route)], cp_version = VERSION_DRAFT_02,
      cp_canonicalization_id = CANONICALIZATION_ID_INT53_V1, cp_authz_digest = binding_digest binding\<rparr>"

definition verify_answer :: "ext \<Rightarrow> client_proxy \<Rightarrow> route \<Rightarrow> signed_request \<Rightarrow> bytes \<Rightarrow> verified_response mcps_result" where
  "verify_answer x p route sreq response_bytes =
     verify_signed_response x (cpx_trust_resolver p)
       (with_expected_server_signer (sab_expected_server_signer (rt_signer_audience route))
          (expectation_new (sr_request_hash sreq) CANONICALIZATION_ID_INT53_V1)) response_bytes"

definition deliver :: "ext \<Rightarrow> route \<Rightarrow> json \<Rightarrow> bytes \<Rightarrow> evidence_outcome \<Rightarrow> proxy_error + proxy_response" where
  "deliver x route rid response_bytes outcome =
     (let decision = decide (rt_enforcement_mode route) (rt_legacy_allowed route) outcome;
          audit = audit_for_decision decision in
      case decision of
        AcceptMcps \<Rightarrow>
          and_then (map_err FailedClosed (plain_response_from_verified x rid response_bytes)) (\<lambda>plain.
            Ok \<lparr>prs_plain_response = plain, prs_audit = audit, prs_path = McpsVerified\<rparr>)
      | FallBackToLegacy _ \<Rightarrow>
          and_then (ok_or MalformedRequest (from_slice x response_bytes)) (\<lambda>plain.
            Ok \<lparr>prs_plain_response = plain, prs_audit = audit, prs_path = LegacyExplicit\<rparr>)
      | FailClosed err \<Rightarrow> Err (FailedClosed err))"

definition exchange_signed ::
    "ext \<Rightarrow> client_proxy \<Rightarrow> route \<Rightarrow> json \<Rightarrow> ustring \<Rightarrow> call_params \<Rightarrow> signed_request \<Rightarrow> correlation_store \<Rightarrow>
     (proxy_error + proxy_response) \<times> correlation_store" where
  "exchange_signed x p route rid correlation_id params sreq c =
     (case cpx_transport p (sr_wire_bytes sreq) of
        Inl transport_err \<Rightarrow>
          (case decide (rt_enforcement_mode route) (rt_legacy_allowed route) (Absent TransportFailurePreEvidence) of
             FailClosed err \<Rightarrow> Err (FailedClosed err)
           | _ \<Rightarrow> Err (TransportFailed transport_err), snd (correlation_cancel correlation_id c))
      | Inr response_bytes \<Rightarrow>
          (let outcome = classify_response_result (verify_answer x p route sreq response_bytes) in
           case take_for_response correlation_id (cl_now_unix params) c of
             (Inl e, c') \<Rightarrow> (Err (FailedClosed (to_mcps_error e)), c')
           | (Inr _, c') \<Rightarrow> (deliver x route rid response_bytes outcome, c')))"

definition client_handle ::
    "ext \<Rightarrow> client_proxy \<Rightarrow> ustring \<Rightarrow> json \<Rightarrow> call_params \<Rightarrow>
     (proxy_error + proxy_response) \<times> correlation_store \<times> bytes list" where
  "client_handle x p route_id plain_request params =
     (case registry_get (cpx_registry p) route_id of
        None \<Rightarrow> (Err (UnknownRoute route_id), cpx_correlation p, [])
      | Some route \<Rightarrow>
          (case Option.bind (json_get plain_request (lit ''method'')) as_str of
             None \<Rightarrow> (Err MalformedRequest, cpx_correlation p, [])
           | Some meth \<Rightarrow>
               (case sign_outbound x p route route_id plain_request meth params of
                  Inl e \<Rightarrow> (Err (FailedClosed e), cpx_correlation p, [])
                | Inr (binding, sreq) \<Rightarrow>
                    (let correlation_id = id_key x (plain_id plain_request) in
                     case correlation_register (pending_entry correlation_id route route_id params binding sreq)
                         (cl_now_unix params) (cpx_correlation p) of
                       (Inl e, c) \<Rightarrow> (Err (FailedClosed (to_mcps_error e)), c, [])
                     | (Inr _, c) \<Rightarrow>
                         (case exchange_signed x p route (plain_id plain_request) correlation_id params sreq c of
                            (r, c') \<Rightarrow> (r, c', [sr_wire_bytes sreq]))))))"

section \<open>What a call leaves behind\<close>

lemma delete_update_absent: "map_of al k = None \<Longrightarrow> AList.delete k (AList.update k v al) = al"
  by (induction al) (auto simp: AList.delete_eq split: if_split_asm)

lemma register_Ok:
  "correlation_register r now c = (Ok (), c') \<Longrightarrow> map_of (cs_pending c) (cp_correlation_id r) = None \<and>
     cs_pending c' = AList.update (cp_correlation_id r) r (cs_pending c)"
  by (auto simp: correlation_register_def split: if_split_asm)

lemma register_Err: "correlation_register r now c = (Inl e, c') \<Longrightarrow> c' = c"
  by (auto simp: correlation_register_def split: if_split_asm)

lemma exchange_pending:
  "cs_pending (snd (exchange_signed x p route rid k params sreq c)) = AList.delete k (cs_pending c)"
  by (auto simp: exchange_signed_def correlation_cancel_def take_for_response_def Let_def map_of_eq_None_iff delete_notin_dom
      split: sum.split option.split prod.split)

lemma client_handle_cases:
  obtains (refused) e where "client_handle x p route_id plain params = (Err e, cpx_correlation p, [])"
  | (sent) r c' raw where "client_handle x p route_id plain params = (r, c', [raw])" "cs_pending c' = cs_pending (cpx_correlation p)"
proof (cases "registry_get (cpx_registry p) route_id")
  case None
  then show thesis by (intro refused) (simp add: client_handle_def)
next
  case route: (Some route)
  show thesis
  proof (cases "Option.bind (json_get plain (lit ''method'')) as_str")
    case None
    then show thesis using route by (intro refused) (simp add: client_handle_def)
  next
    case meth: (Some meth)
    show thesis
    proof (cases "sign_outbound x p route route_id plain meth params")
      case (Inl e)
      then show thesis using route meth by (intro refused) (simp add: client_handle_def)
    next
      case (Inr bs)
      then obtain binding sreq where so: "sign_outbound x p route route_id plain meth params = Inr (binding, sreq)" by (cases bs) simp
      let ?k = "id_key x (plain_id plain)"
      let ?e = "pending_entry ?k route route_id params binding sreq"
      obtain r c where reg: "correlation_register ?e (cl_now_unix params) (cpx_correlation p) = (r, c)" by fastforce
      show thesis
      proof (cases r)
        case (Inl e)
        then show thesis using route meth so reg register_Err [of ?e]
          by (intro refused) (simp add: client_handle_def Let_def)
      next
        case (Inr u)
        obtain r' c' where ex: "exchange_signed x p route (plain_id plain) ?k params sreq c = (r', c')" by fastforce
        have "cs_pending c' = cs_pending (cpx_correlation p)"
          using register_Ok [of ?e "cl_now_unix params" "cpx_correlation p" c] reg Inr exchange_pending [of x p route "plain_id plain" ?k params sreq c] ex
          by (simp add: pending_entry_def delete_update_absent)
        then show thesis using route meth so reg Inr ex by (intro sent [of r' c' "sr_wire_bytes sreq"]) (simp_all add: client_handle_def Let_def)
      qed
    qed
  qed
qed

lemma client_handle_Ok:
  assumes "client_handle x p route_id plain params = (Ok resp, c', sent)"
  shows "\<exists>route meth binding sreq bytes. registry_get (cpx_registry p) route_id = Some route \<and>
    sign_outbound x p route route_id plain meth params = Ok (binding, sreq) \<and> sent = [sr_wire_bytes sreq] \<and>
    cpx_transport p (sr_wire_bytes sreq) = Ok bytes \<and>
    deliver x route (plain_id plain) bytes (classify_response_result (verify_answer x p route sreq bytes)) = Ok resp"
proof -
  from assms obtain route meth binding sreq where
    r: "registry_get (cpx_registry p) route_id = Some route" "sign_outbound x p route route_id plain meth params = Ok (binding, sreq)"
      "Option.bind (json_get plain (lit ''method'')) as_str = Some meth"
    unfolding client_handle_def by (auto split: option.split_asm sum.split_asm)
  with assms obtain c where e: "exchange_signed x p route (plain_id plain) (id_key x (plain_id plain)) params sreq c = (Ok resp, c')"
    "sent = [sr_wire_bytes sreq]"
    unfolding client_handle_def by (auto simp: Let_def split: sum.split_asm prod.split_asm)
  then obtain bytes where t: "cpx_transport p (sr_wire_bytes sreq) = Ok bytes"
    unfolding exchange_signed_def by (auto split: sum.split_asm enforcement_decision.split_asm)
  with e(1) have "deliver x route (plain_id plain) bytes (classify_response_result (verify_answer x p route sreq bytes)) = Ok resp"
    unfolding exchange_signed_def by (auto simp: Let_def split: sum.split_asm prod.split_asm)
  with r e(2) t show ?thesis by blast
qed

lemma deliver_Ok:
  "deliver x route rid bytes (classify_response_result v) = Ok resp \<longleftrightarrow>
     (\<exists>w plain. v = Ok w \<and> plain_response_from_verified x rid bytes = Ok plain \<and>
        resp = \<lparr>prs_plain_response = plain, prs_audit = accepted_mcps, prs_path = McpsVerified\<rparr>) \<or>
     (\<exists>plain. v = Err MissingEnvelope \<and> rt_enforcement_mode route = AllowLegacyExplicit \<and> rt_legacy_allowed route \<and>
        from_slice x bytes = Some plain \<and>
        resp = \<lparr>prs_plain_response = plain, prs_audit = fell_back_to_legacy PlainUnsigned, prs_path = LegacyExplicit\<rparr>)"
  unfolding deliver_def decide_classified Let_def
  by (cases v) (auto simp: result_simps split: if_split_asm)

lemma verify_answer_Ok:
  assumes "verify_answer x p route sreq bytes = Ok v"
  shows "vs_server_signer v = sab_expected_server_signer (rt_signer_audience route)" "vs_request_hash v = sr_request_hash sreq"
  using assms
  by (auto simp: verify_answer_def verify_signed_response_def with_expected_server_signer_def expectation_new_def
      verify_response_draft02_def result_simps split: if_split_asm)

section \<open>One exchange with a sidecar\<close>

definition over_sidecar :: "(bytes \<Rightarrow> bytes option) \<Rightarrow> remote_transport" where
  "over_sidecar f raw = (case f raw of Some bs \<Rightarrow> Ok bs | None \<Rightarrow> Err \<lparr>te_detail = lit ''closed''\<rparr>)"

lemma client_exchange:
  assumes x: "base64_documented x" "sha256_documented x" "ed25519_documented x" "serde_documented x" "serde_prints x"
    and out: "registry_get (cpx_registry p) route_id = Some route" "json_get plain (lit ''method'') = Some (Str meth)"
      "sign_outbound x p route route_id plain meth params = Ok (binding, sreq)"
    and signer: "cpx_signer p = software_signer x key sid kid"
    and ok: "client_signable key (plain_id plain) meth (plain_params plain)
      (with_default_canonicalization sid kid (cl_on_behalf_of params) (audience_string (rt_signer_audience route)) binding
        (cl_nonce params) (cl_issued_at params) (cl_expires_at params))"
    and corr: "map_of (cs_pending (cpx_correlation p)) (id_key x (plain_id plain)) = None"
      "map_of (cs_nonce_window (cpx_correlation p)) (cl_nonce params) = None" "cl_now_unix params \<le> cl_deadline_unix params"
    and link: "cpx_transport p = over_sidecar (\<lambda>raw. fst (handle_with_transport x sp c raw now identity header))"
      "admitted x sp c (sr_wire_bytes sreq) now identity header vr c'"
    and sp: "px_sign sp = sign_response x sk" "length (sk_seed sk) = 32" "list_all valid_str [px_server_signer sp, px_key_id sp]"
      "sab_expected_server_signer (rt_signer_audience route) = px_server_signer sp"
      "cpx_trust_resolver p (px_server_signer sp) (px_key_id sp) = Ok (public_key x sk)"
    and inner: "build_forwarded_request x sp (sr_wire_bytes sreq) vr now = Some (Ok fwd)" "from_slice x (px_inner sp fwd) = Some inner"
      "signable_inner inner" "\<not> (\<exists>r. json_get inner (lit ''result'') = Some r \<and> looks_wrapped r)"
  shows "fst (client_handle x p route_id plain params) =
    Ok \<lparr>prs_plain_response = json_object [(lit ''jsonrpc'', Str (lit ''2.0'')), (lit ''id'', plain_id plain),
          (lit ''result'', into_value (recovered inner))],
        prs_audit = accepted_mcps, prs_path = McpsVerified\<rparr>"
proof -
  let ?i = "with_default_canonicalization sid kid (cl_on_behalf_of params) (audience_string (rt_signer_audience route)) binding
        (cl_nonce params) (cl_issued_at params) (cl_expires_at params)"
  have i: "?i\<lparr>rsi_signer := sid, rsi_key_id := kid\<rparr> = ?i" by (simp add: with_default_canonicalization_def)
  have b: "build_signed_request_with x (plain_id plain) meth (plain_params plain) ?i (\<lambda>preimage. Ok (sign x key preimage)) = Ok sreq"
    using out(3) unfolding sign_outbound_def Let_def build_signed_request_with_signer_def signer
    by (auto simp: result_simps software_signer_def i)
  from client_request_reads [OF x(1,3-5) ok] b obtain pre where
    r: "open_message x (sr_wire_bytes sreq) = Ok (sr_object sreq)" "signing_preimage (sr_object sreq) Request = Ok pre"
      "sr_request_hash sreq = sha256_hash_id x pre" "read_request_envelope_version (sr_object sreq) = Ok VERSION_DRAFT_02" by auto
  from link(2) have v: "verify_request_dispatch x (px_resolve sp) (px_check sp) c (px_config sp) now (px_version_policy sp) (sr_wire_bytes sreq) = (Ok vr, c')"
    by (simp add: admitted_def)
  from dispatch_opens [OF v] r(1-3) have hash: "vr_request_hash vr = sr_request_hash sreq" by auto
  obtain bd where d2: "vr_authorization vr = Draft02Binding bd"
  proof -
    have "VERSION_DRAFT_01 \<noteq> VERSION_DRAFT_02" by (simp add: const_defs)
    then have "\<not> select_version x (px_version_policy sp) (sr_wire_bytes sreq) = Ok VERSION_DRAFT_01"
      using r(1,4) unfolding select_version_Ok open_message_Ok by auto
    then have "verify_request_draft02 x (px_resolve sp) (px_check sp) c (px_config sp) now (sr_wire_bytes sreq) = (Ok vr, c')"
      using v unfolding verify_request_dispatch_Ok by blast
    from verify_request_draft02_authorization [OF this] that show thesis by blast
  qed
  from response_delivered [where resolve = "cpx_trust_resolver p" and now' = now, OF x v sp(1-3) inner(2,3) sp(5)] obtain bs msg ms where
    d: "build_signed_response x sp (px_inner sp fwd) vr now (request_id x (sr_wire_bytes sreq)) = Some (Ok bs)"
      "client_verifies x (cpx_trust_resolver p) vr bs =
        Ok \<lparr>vs_server_signer = px_server_signer sp, vs_key_id = px_key_id sp, vs_request_hash = vr_request_hash vr\<rparr>"
      "open_message x bs = Ok msg" "json_get msg (lit ''result'') = Some (Obj ms)" "unwrap_verified_result (Obj ms) = Ok (recovered inner)"
    using inner(4) by blast
  have t: "cpx_transport p (sr_wire_bytes sreq) = Ok bs"
    using handle_answers [OF link(2) inner(1) d(1)] by (simp add: link(1) over_sidecar_def)
  have "verify_answer x p route sreq bs = Ok \<lparr>vs_server_signer = px_server_signer sp, vs_key_id = px_key_id sp, vs_request_hash = vr_request_hash vr\<rparr>"
    using d(2) d2 by (simp add: client_verifies_def hash verify_answer_def verify_signed_response_def with_expected_server_signer_def
        expectation_new_def sp(4))
  moreover have "plain_response_from_verified x (plain_id plain) bs = Ok (json_object [(lit ''jsonrpc'', Str (lit ''2.0'')),
      (lit ''id'', plain_id plain), (lit ''result'', into_value (recovered inner))])"
    using d(3-5) unfolding open_message_Ok by (simp add: plain_response_from_verified_def)
  ultimately have "deliver x route (plain_id plain) bs (classify_response_result (verify_answer x p route sreq bs)) =
     Ok \<lparr>prs_plain_response = json_object [(lit ''jsonrpc'', Str (lit ''2.0'')), (lit ''id'', plain_id plain),
          (lit ''result'', into_value (recovered inner))],
        prs_audit = accepted_mcps, prs_path = McpsVerified\<rparr>"
    unfolding deliver_Ok by blast
  then show ?thesis using out corr t
    by (simp add: client_handle_def Let_def correlation_register_def pending_entry_def exchange_signed_def take_for_response_def update_conv')
qed

text \<open>An error of the inner server is recovered as such, and handed to the local client as a success: the
  plain response carries it under \<open>result\<close> and has no \<open>error\<close>.\<close>

lemma inner_error_delivered_as_result:
  assumes "from_slice x bytes = Some object" "json_get object (lit ''result'') = Some result"
    and "unwrap_verified_result result = Ok (InnerError e)"
  shows "\<exists>plain. plain_response_from_verified x rid bytes = Ok plain \<and> json_get plain (lit ''result'') = Some e \<and>
    json_get plain (lit ''error'') = None"
  using assms by (simp add: plain_response_from_verified_def json_object_def)

section \<open>An instance\<close>

definition sample_tuple :: audience_tuple where
  "sample_tuple = \<lparr>au_scheme = lit ''https'', au_host = lit ''h'', au_port = 443, au_tenant_id = lit ''t'', au_route_id = lit ''r'',
     au_realm = lit ''m''\<rparr>"

definition sample_route :: route where
  "sample_route = \<lparr>rt_route_id = lit ''r'', rt_enforcement_mode = RequireMcps, rt_legacy_allowed = False,
     rt_signer_audience = \<lparr>sab_expected_server_signer = hs_signer sample_host, sab_audience = sample_tuple\<rparr>,
     rt_authz_policy = both_base_forms, rt_authz_provider = opaque_bytes_provide sample_ext [1]\<rparr>"

definition sample_plain :: json where
  "sample_plain = Obj [(lit ''jsonrpc'', Str (lit ''2.0'')), (lit ''id'', Number (NInt 1)), (lit ''method'', Str (lit ''tools/call''))]"

definition sample_call :: call_params where
  "sample_call = \<lparr>cl_on_behalf_of = lit ''did:u'', cl_nonce = lit ''n'', cl_issued_at = unix_to_rfc3339_utc 1000,
     cl_expires_at = unix_to_rfc3339_utc 1300, cl_now_unix = 1000, cl_deadline_unix = 1300\<rparr>"

text \<open>The sidecar of the route: the sample proxy under the route's audience, and a client proxy that talks to it.\<close>

definition sample_sidecar :: "in_memory_replay_cache proxy" where
  "sample_sidecar = fst (proxy_new sample_ext (hs_signing_key sample_host) (hs_signer sample_host) (hs_key_id sample_host)
     sample_resolve (to_audience_string sample_tuple) 30 (\<lambda>_. sample_inner_bytes))"

definition sample_client :: client_proxy where
  "sample_client = client_proxy_new (registry_register sample_route registry_new) sample_signer sample_policy sample_resolve
     (over_sidecar (\<lambda>raw. fst (handle_with_transport sample_ext sample_sidecar (replay_new 30) raw 1100 None None)))"

lemma sample_binding:
  "resolve_authorization_binding (rt_authz_provider sample_route) (rt_authz_policy sample_route) ctx =
     Ok (OpaqueBytes DIGEST_ALG_SHA256 (opaque_digest_value sample_ext [1]))"
  by (simp add: sample_route_def resolve_authorization_binding_def opaque_bytes_provide_def both_base_forms_def permits_tag_def)

lemma sample_route_parts:
  "audience_string (rt_signer_audience sample_route) = to_audience_string sample_tuple"
  "sab_expected_server_signer (rt_signer_audience sample_route) = hs_signer sample_host"
  "registry_get (cpx_registry sample_client) (lit ''r'') = Some sample_route" "cpx_signer sample_client = sample_signer"
  "cpx_signer_policy sample_client = sample_policy" "cpx_trust_resolver sample_client = sample_resolve"
  "cpx_correlation sample_client = correlation_new" "json_get sample_plain (lit ''method'') = Some (Str (lit ''tools/call''))"
  "plain_id sample_plain = Number (NInt 1)" "plain_params sample_plain = []"
  by (simp_all add: sample_route_def audience_string_def sample_client_def client_proxy_new_def registry_get_def registry_register_def
      registry_new_def sample_plain_def plain_id_def plain_params_def)

lemma sample_tuple_valid: "valid_str (to_audience_string sample_tuple)"
  by (simp add: to_audience_string_def sample_tuple_def escape_field_def str_replace_def lit_def valid_str_def is_scalar_def eval_simps)

lemma sample_outbound:
  "\<exists>sreq vr c'. sign_outbound sample_ext sample_client sample_route (lit ''r'') sample_plain (lit ''tools/call'') sample_call =
       Ok (OpaqueBytes DIGEST_ALG_SHA256 (opaque_digest_value sample_ext [1]), sreq) \<and>
     admitted sample_ext sample_sidecar (replay_new 30) (sr_wire_bytes sreq) 1100 None None vr c'"
proof -
  let ?a = "to_audience_string sample_tuple" and ?s = "hs_signer sample_host"
  let ?i = "sample_inputs ?a" and ?config = "\<lparr>expected_audience = ?a, skew_secs = 30\<rparr>"
  have ok: "client_signable (hs_signing_key sample_host) (Number (NInt 1)) (lit ''tools/call'') [] ?i"
    using sample_tuple_valid by (rule sample_client_signable) (simp_all add: MAX_PARSE_DEPTH_def)
  obtain c' where c: "check_and_insert (replay_new 30) ?s ?a (lit ''n'') 1300 = (Ok Fresh, c')"
    by (simp add: check_and_insert_def replay_new_def i64_simps)
  have f: "check_freshness (unix_to_rfc3339_utc 1000) (unix_to_rfc3339_utc 1300) 1100 (skew_secs ?config) = Ok ()"
    using sample_fresh by (simp add: sample_config_def)
  from client_request_verifies [where resolve = sample_resolve and check = check_and_insert and c = "replay_new 30" and config = ?config,
    OF sample_documented ok, unfolded sample_inputs_parts, OF _ _ f sample_parses(2) sample_key c]
  obtain r where r: "build_signed_request_with sample_ext (Number (NInt 1)) (lit ''tools/call'') [] ?i
      (\<lambda>preimage. Ok (sign sample_ext (hs_signing_key sample_host) preimage)) = Ok r"
    "open_message sample_ext (sr_wire_bytes r) = Ok (sr_object r)" "read_request_envelope_version (sr_object r) = Ok VERSION_DRAFT_02"
    "verify_request_draft02 sample_ext sample_resolve check_and_insert (replay_new 30) ?config 1100 (sr_wire_bytes r) =
       (Ok (client_verdict ?i (sr_request_hash r)), c')" by (auto simp: sample_inputs_parts)
  have "select_version sample_ext Draft01AndDraft02 (sr_wire_bytes r) = Ok VERSION_DRAFT_02"
    using r(2,3) unfolding select_version_Ok open_message_Ok by auto
  with r(4) have "verify_request_dispatch sample_ext sample_resolve check_and_insert (replay_new 30) ?config 1100
      Draft01AndDraft02 (sr_wire_bytes r) = (Ok (client_verdict ?i (sr_request_hash r)), c')"
    unfolding verify_request_dispatch_Ok by blast
  then have "admitted sample_ext sample_sidecar (replay_new 30) (sr_wire_bytes r) 1100 None None (client_verdict ?i (sr_request_hash r)) c'"
    by (simp add: admitted_def sample_sidecar_def proxy_new_def lb_verified_identity_def check_transport_binding_def)
  moreover have "sign_outbound sample_ext sample_client sample_route (lit ''r'') sample_plain (lit ''tools/call'') sample_call =
       Ok (OpaqueBytes DIGEST_ALG_SHA256 (opaque_digest_value sample_ext [1]), r)"
    using r(1) sample_authorized sample_binding
    by (simp add: sign_outbound_def sample_route_parts build_signed_request_with_signer_def sample_signer_def software_signer_def
        sample_inputs_def sample_call_def with_default_canonicalization_def)
  ultimately show ?thesis by blast
qed

lemma sample_sidecar_parts:
  "px_sign sample_sidecar = sign_response sample_ext (hs_signing_key sample_host)"
  "px_server_signer sample_sidecar = hs_signer sample_host" "px_key_id sample_sidecar = hs_key_id sample_host"
  "px_inner sample_sidecar fwd = sample_inner_bytes"
  by (simp_all add: sample_sidecar_def proxy_new_def)

lemma sample_sidecar_forwards:
  assumes "admitted sample_ext sample_sidecar (replay_new 30) raw 1100 None None vr c'"
  shows "\<exists>fwd. build_forwarded_request sample_ext sample_sidecar raw vr 1100 = Some (Ok fwd)"
proof -
  have s: "valid_str (px_server_signer sample_sidecar)" by (simp add: sample_sidecar_parts sample_host_def)
  have "verify_request_dispatch sample_ext (px_resolve sample_sidecar) (px_check sample_sidecar) (replay_new 30)
      (px_config sample_sidecar) 1100 (px_version_policy sample_sidecar) raw = (Ok vr, c')" using assms by (simp add: admitted_def)
  from forwarded_request [OF sample_ext_documented(1,2,4) sample_ext_prints this s, of 1100] show ?thesis by blast
qed

lemma sample_signed_inputs:
  "with_default_canonicalization (hs_signer sample_host) (hs_key_id sample_host) (cl_on_behalf_of sample_call)
     (audience_string (rt_signer_audience sample_route)) (OpaqueBytes DIGEST_ALG_SHA256 (opaque_digest_value sample_ext [1]))
     (cl_nonce sample_call) (cl_issued_at sample_call) (cl_expires_at sample_call) = sample_inputs (to_audience_string sample_tuple)"
  by (simp add: sample_route_parts sample_inputs_def sample_call_def)

lemma sample_call_signable:
  "client_signable (hs_signing_key sample_host) (plain_id sample_plain) (lit ''tools/call'') (plain_params sample_plain)
     (sample_inputs (to_audience_string sample_tuple))"
  unfolding sample_route_parts using sample_tuple_valid by (rule sample_client_signable) (simp_all add: MAX_PARSE_DEPTH_def)

lemma sample_link:
  "cpx_transport sample_client = over_sidecar (\<lambda>raw. fst (handle_with_transport sample_ext sample_sidecar (replay_new 30) raw 1100 None None))"
  "sab_expected_server_signer (rt_signer_audience sample_route) = px_server_signer sample_sidecar"
  "cpx_trust_resolver sample_client (px_server_signer sample_sidecar) (px_key_id sample_sidecar) = Ok (public_key sample_ext (hs_signing_key sample_host))"
  "list_all valid_str [px_server_signer sample_sidecar, px_key_id sample_sidecar]"
  "from_slice sample_ext (px_inner sample_sidecar fwd) = Some sample_inner"
  "map_of (cs_pending (cpx_correlation sample_client)) k = None" "map_of (cs_nonce_window (cpx_correlation sample_client)) k = None"
  "cl_now_unix sample_call \<le> cl_deadline_unix sample_call"
  using sample_key sample_inner_reads sample_proxy_parts(3)
  by (simp_all add: sample_route_parts sample_sidecar_parts correlation_new_def sample_call_def)
    (simp_all add: sample_client_def client_proxy_new_def sample_host_def)

lemmas sample_client_facts = sample_ext_documented(1-4) sample_ext_prints sample_route_parts(3,8)

section \<open>Properties\<close>

text \<open>
  C7: what the local client gets is earned: a call that returns a response sent one message, the
  signed request of a configured route, and the response is either the unwrapped result of an
  answer that verified under the signer pinned for the route and is bound to that request's hash,
  or, on a route that is explicitly open to legacy servers, the answer of a server that attached no
  evidence at all; the audit record tells the two apart. Bad evidence never yields a response.
\<close>

theorem client_answer_is_earned:
  assumes "client_handle x p route_id plain params = (Ok resp, c', sent)"
  shows "\<exists>route meth binding sreq bytes. registry_get (cpx_registry p) route_id = Some route \<and>
    sign_outbound x p route route_id plain meth params = Ok (binding, sreq) \<and> sent = [sr_wire_bytes sreq] \<and>
    cpx_transport p (sr_wire_bytes sreq) = Ok bytes \<and>
    (prs_path resp = McpsVerified \<and> prs_audit resp = accepted_mcps \<and>
       (\<exists>v. verify_answer x p route sreq bytes = Ok v \<and>
          vs_server_signer v = sab_expected_server_signer (rt_signer_audience route) \<and> vs_request_hash v = sr_request_hash sreq) \<and>
       plain_response_from_verified x (plain_id plain) bytes = Ok (prs_plain_response resp) \<or>
     prs_path resp = LegacyExplicit \<and> prs_audit resp = fell_back_to_legacy PlainUnsigned \<and>
       rt_enforcement_mode route = AllowLegacyExplicit \<and> rt_legacy_allowed route \<and>
       verify_answer x p route sreq bytes = Err MissingEnvelope \<and> from_slice x bytes = Some (prs_plain_response resp))"
proof -
  from client_handle_Ok [OF assms] obtain route meth binding sreq bytes where
    h: "registry_get (cpx_registry p) route_id = Some route" "sign_outbound x p route route_id plain meth params = Ok (binding, sreq)"
      "sent = [sr_wire_bytes sreq]" "cpx_transport p (sr_wire_bytes sreq) = Ok bytes"
      "deliver x route (plain_id plain) bytes (classify_response_result (verify_answer x p route sreq bytes)) = Ok resp" by blast
  have "prs_path resp = McpsVerified \<and> prs_audit resp = accepted_mcps \<and>
      (\<exists>v. verify_answer x p route sreq bytes = Ok v \<and>
         vs_server_signer v = sab_expected_server_signer (rt_signer_audience route) \<and> vs_request_hash v = sr_request_hash sreq) \<and>
      plain_response_from_verified x (plain_id plain) bytes = Ok (prs_plain_response resp) \<or>
    prs_path resp = LegacyExplicit \<and> prs_audit resp = fell_back_to_legacy PlainUnsigned \<and>
      rt_enforcement_mode route = AllowLegacyExplicit \<and> rt_legacy_allowed route \<and>
      verify_answer x p route sreq bytes = Err MissingEnvelope \<and> from_slice x bytes = Some (prs_plain_response resp)"
    using h(5) verify_answer_Ok [of x p route sreq bytes] unfolding deliver_Ok by auto
  with h(1-4) show ?thesis by blast
qed

theorem client_answer_is_earned_witness:
  "\<exists>resp c' sent. client_handle sample_ext sample_client (lit ''r'') sample_plain sample_call = (Ok resp, c', sent) \<and> length sent = 1"
proof -
  from sample_outbound obtain sreq vr c' where
    s: "sign_outbound sample_ext sample_client sample_route (lit ''r'') sample_plain (lit ''tools/call'') sample_call =
       Ok (OpaqueBytes DIGEST_ALG_SHA256 (opaque_digest_value sample_ext [1]), sreq)"
      "admitted sample_ext sample_sidecar (replay_new 30) (sr_wire_bytes sreq) 1100 None None vr c'" by blast
  from sample_sidecar_forwards [OF s(2)] obtain fwd where
    f: "build_forwarded_request sample_ext sample_sidecar (sr_wire_bytes sreq) vr 1100 = Some (Ok fwd)" by blast
  from client_exchange [OF sample_client_facts s(1) sample_route_parts(4) [unfolded sample_signer_def]
      sample_call_signable [folded sample_signed_inputs] sample_link(6-8,1) s(2) sample_sidecar_parts(1) sample_proxy_parts(2)
      sample_link(4,2,3) f sample_link(5) sample_inner_signable sample_proxy_parts(6)]
  obtain resp c' sent where "client_handle sample_ext sample_client (lit ''r'') sample_plain sample_call = (Ok resp, c', sent)"
    by (metis prod.collapse)
  with client_answer_is_earned [OF this] show ?thesis by auto
qed

text \<open>
  C33: a call leaves nothing pending: whatever the outcome, the outstanding requests after a call are
  the ones before it, and a call sends exactly one message or leaves the whole table as it was.
\<close>

theorem client_handle_pending:
  "cs_pending (fst (snd (client_handle x p route_id plain params))) = cs_pending (cpx_correlation p) \<and>
   (length (snd (snd (client_handle x p route_id plain params))) = 1 \<or>
    client_handle x p route_id plain params = (fst (client_handle x p route_id plain params), cpx_correlation p, []))"
  by (rule client_handle_cases [of x p route_id plain params]) auto



end
