(* ===== verification/Shared_Replay.thy ===== *)
theory Shared_Replay
  imports Replay "HOL-Library.AList"
begin

text \<open>
  \<open>mcps-proxy/src/shared_replay.rs\<close>: the replay cache over a shared store. The trait
  \<open>AtomicReplayStore\<close> is the locale \<open>atomic_store\<close>; over any store that meets it the cache
  meets the contract of a replay store, and so does the in-memory reference store. What the
  environment decides during an insert (here: whether the mutex is poisoned) is the argument
  \<open>i\<close>. The map of the reference store is an association list with distinct keys.
\<close>

section \<open>The shared cache\<close>

datatype replay_store_error = StoreUnavailable ustring

primrec store_to_cache_error :: "replay_store_error \<Rightarrow> replay_cache_error" where
  "store_to_cache_error (StoreUnavailable details) = ReplayUnavailable details"

definition is_stale_pre_store :: "int \<Rightarrow> int \<Rightarrow> bool" where
  "is_stale_pre_store retain_until_unix now_unix \<longleftrightarrow> saturating_sub retain_until_unix now_unix \<le> 0"

text \<open>\<open>insert_if_absent\<close> of a store: key, retain-until and the vestigial clock argument.\<close>

type_synonym ('i, 's) insert_fn =
  "'i \<Rightarrow> 's \<Rightarrow> ustring \<Rightarrow> int \<Rightarrow> int \<Rightarrow> (replay_store_error + replay_decision) \<times> 's"

record 's shared_replay_cache =
  sc_store :: 's
  sc_skew :: int

definition shared_new :: "'s \<Rightarrow> int \<Rightarrow> 's shared_replay_cache" where
  "shared_new store skew = \<lparr>sc_store = store, sc_skew = skew\<rparr>"

definition key_preimage :: "ustring \<Rightarrow> ustring \<Rightarrow> ustring \<Rightarrow> ustring" where
  "key_preimage signer audience nonce =
     prefixed_field signer @ [124] @ prefixed_field audience @ [124] @ prefixed_field nonce"

definition composite_key :: "ext \<Rightarrow> ustring \<Rightarrow> ustring \<Rightarrow> ustring \<Rightarrow> ustring" where
  "composite_key x signer audience nonce = sha256_hash_id x (utf8 (key_preimage signer audience nonce))"

definition shared_check_and_insert ::
    "ext \<Rightarrow> ('i, 's) insert_fn \<Rightarrow> 'i \<Rightarrow> 's shared_replay_cache \<Rightarrow> ustring \<Rightarrow> ustring \<Rightarrow> ustring \<Rightarrow> int \<Rightarrow>
     replay_verdict \<times> 's shared_replay_cache" where
  "shared_check_and_insert x put i c signer audience nonce expires_at_unix =
     (let key = composite_key x signer audience nonce;
          retain_until = saturating_add expires_at_unix (sc_skew c);
          (r, store) = put i (sc_store c) key retain_until 0
      in (map_err store_to_cache_error r, c\<lparr>sc_store := store\<rparr>))"

section \<open>The in-memory reference store\<close>

record in_memory_atomic_store =
  as_seen :: "(ustring \<times> int) list"
  as_max_entries :: nat

definition MAX_ATOMIC_STORE_ENTRIES :: nat where
  "MAX_ATOMIC_STORE_ENTRIES = 1000000"

definition atomic_new :: in_memory_atomic_store where
  "atomic_new = \<lparr>as_seen = [], as_max_entries = MAX_ATOMIC_STORE_ENTRIES\<rparr>"

definition atomic_prune :: "bool \<Rightarrow> int \<Rightarrow> in_memory_atomic_store \<Rightarrow> in_memory_atomic_store" where
  "atomic_prune poisoned now_unix st =
     (if poisoned then st else st\<lparr>as_seen := filter (\<lambda>(_, retain_until). retain_until \<ge> now_unix) (as_seen st)\<rparr>)"

definition atomic_len :: "bool \<Rightarrow> in_memory_atomic_store \<Rightarrow> nat" where
  "atomic_len poisoned st = (if poisoned then 0 else length (as_seen st))"

definition insert_if_absent :: "(bool, in_memory_atomic_store) insert_fn" where
  "insert_if_absent poisoned st key expires_at_unix now_unix =
     (if is_stale_pre_store expires_at_unix now_unix then (Err (StoreUnavailable (lit ''stale'')), st)
      else if poisoned then (Err (StoreUnavailable (lit ''poisoned'')), st)
      else if map_of (as_seen st) key \<noteq> None then (Ok Replay, st)
      else if length (as_seen st) \<ge> as_max_entries st then (Err (StoreUnavailable (lit ''capacity'')), st)
      else (Ok Fresh, st\<lparr>as_seen := AList.update key expires_at_unix (as_seen st)\<rparr>))"

definition atomic_durability_class :: "in_memory_atomic_store \<Rightarrow> replay_durability_class" where
  "atomic_durability_class st = SingleProcessReference"

text \<open>The class of the cache is that of its store.\<close>

definition shared_durability_class ::
    "('s \<Rightarrow> replay_durability_class) \<Rightarrow> 's shared_replay_cache \<Rightarrow> replay_durability_class" where
  "shared_durability_class durability c = durability (sc_store c)"

section \<open>Composite keys\<close>

lemma key_preimage_inj [simp]:
  "key_preimage s a n = key_preimage s' a' n' \<longleftrightarrow> s = s' \<and> a = a' \<and> n = n'"
proof
  assume eq: "key_preimage s a n = key_preimage s' a' n'"
  have "s = s'" and r: "[124] @ prefixed_field a @ [124] @ prefixed_field n =
      [124] @ prefixed_field a' @ [124] @ prefixed_field n'"
    using prefixed_field_unique [OF eq [unfolded key_preimage_def]] by simp_all
  from r have "prefixed_field a @ [124] @ prefixed_field n = prefixed_field a' @ [124] @ prefixed_field n'" by simp
  from prefixed_field_unique [OF this] have "a = a'" "prefixed_field n = prefixed_field n'" by simp_all
  moreover have "n = n'" using prefixed_field_unique [of n "[]" n' "[]"] \<open>prefixed_field n = prefixed_field n'\<close> by simp
  ultimately show "s = s' \<and> a = a' \<and> n = n'" using \<open>s = s'\<close> by simp
qed simp

section \<open>The contract of an atomic store\<close>

datatype 'i store_event = Insert 'i ustring int | Evict int

fun run_store_event :: "('i, 's) insert_fn \<Rightarrow> (int \<Rightarrow> 's \<Rightarrow> 's) \<Rightarrow> 'i store_event \<Rightarrow> 's \<Rightarrow> 's" where
  "run_store_event put evict (Insert i key retain_until) st = snd (put i st key retain_until 0)"
| "run_store_event put evict (Evict now) st = evict now st"

fun evicts_by :: "int \<Rightarrow> 'i store_event \<Rightarrow> bool" where
  "evicts_by t (Insert i key retain_until) \<longleftrightarrow> True"
| "evicts_by t (Evict now) \<longleftrightarrow> now \<le> t"

lemma saturating_add_le_max: "saturating_add a b \<le> i64_max"
  by (simp add: i64_simps)

lemma evicts_by_mono: "evicts_by t ev \<Longrightarrow> t \<le> t' \<Longrightarrow> evicts_by t' ev"
  by (cases ev) auto

locale atomic_store =
  fixes x :: ext
    and put :: "('i, 's) insert_fn"
    and evict :: "int \<Rightarrow> 's \<Rightarrow> 's"
    and held :: "'s \<Rightarrow> ustring \<rightharpoonup> int"
  assumes insert_absent: "put i st key d t = (Ok Fresh, st') \<Longrightarrow> held st key = None"
    and insert_holds: "put i st key d t = (Ok Fresh, st') \<Longrightarrow> d \<le> i64_max \<Longrightarrow> \<exists>e. held st' key = Some e \<and> d \<le> e"
    and insert_keeps: "put i st key d t = (r, st') \<Longrightarrow> held st k = Some e \<Longrightarrow> held st' k = Some e"
    and evict_keeps: "held st k = Some e \<Longrightarrow> now \<le> e \<Longrightarrow> held (evict now st) k = Some e"
begin

lemma store_event_keeps:
  "held st k = Some e \<Longrightarrow> evicts_by e ev \<Longrightarrow> held (run_store_event put evict ev st) k = Some e"
  by (cases ev) (auto intro: evict_keeps insert_keeps [OF surjective_pairing])

lemma store_run_keeps:
  "held st k = Some e \<Longrightarrow> list_all (evicts_by e) evs \<Longrightarrow> held (fold (run_store_event put evict) evs st) k = Some e"
  by (induction evs arbitrary: st) (auto intro: store_event_keeps)

lemma shared_check_fresh:
  "shared_check_and_insert x put i c s a n e = (Ok Fresh, c') \<longleftrightarrow>
     (\<exists>st. put i (sc_store c) (composite_key x s a n) (saturating_add e (sc_skew c)) 0 = (Ok Fresh, st) \<and>
        c' = c\<lparr>sc_store := st\<rparr>)"
  by (auto simp: shared_check_and_insert_def Let_def map_err_eq_Inr split: prod.split)

text \<open>Two nodes over one store, with skews of their own and any operations of other nodes between.\<close>

lemma nodes_admit_once:
  assumes "shared_check_and_insert x put i c s a n e = (Ok Fresh, c')"
    and "list_all (evicts_by (saturating_add e (sc_skew c))) evs"
  shows "fst (shared_check_and_insert x put j
    (shared_new (fold (run_store_event put evict) evs (sc_store c')) skew') s a n e') \<noteq> Ok Fresh"
proof
  let ?st = "fold (run_store_event put evict) evs (sc_store c')" and ?k = "composite_key x s a n"
  assume "fst (shared_check_and_insert x put j (shared_new ?st skew') s a n e') = Ok Fresh"
  then obtain c'' where "shared_check_and_insert x put j (shared_new ?st skew') s a n e' = (Ok Fresh, c'')"
    by (metis prod.collapse)
  then have "held ?st ?k = None"
    by (auto simp: shared_check_fresh shared_new_def dest: insert_absent)
  moreover obtain d where d: "held (sc_store c') ?k = Some d" "saturating_add e (sc_skew c) \<le> d"
    using assms(1) by (auto simp: shared_check_fresh dest: insert_holds [OF _ saturating_add_le_max])
  have "list_all (evicts_by d) evs" using assms(2) evicts_by_mono [OF _ d(2)] by (auto simp: list_all_iff)
  then have "held ?st ?k = Some d" by (rule store_run_keeps [OF d(1)])
  ultimately show False by simp
qed

end

text \<open>The shared cache over an atomic store is a replay store.\<close>

sublocale atomic_store \<subseteq> shared: replay_store "shared_check_and_insert x put"
  "\<lambda>now c. c\<lparr>sc_store := evict now (sc_store c)\<rparr>" "\<lambda>_. None" sc_skew
  "\<lambda>c (s, a, n). held (sc_store c) (composite_key x s a n)"
proof
  show "(case (s, a, n) of (s, a, n) \<Rightarrow> held (sc_store c) (composite_key x s a n)) = None"
    if "shared_check_and_insert x put i c s a n e = (Ok Fresh, c')" for i c s a n e c'
    using that by (auto simp: shared_check_fresh dest: insert_absent)
  show "\<exists>d. (case (s, a, n) of (s, a, n) \<Rightarrow> held (sc_store c') (composite_key x s a n)) = Some d \<and> saturating_add e (sc_skew c) \<le> d"
    if "shared_check_and_insert x put i c s a n e = (Ok Fresh, c')" for i c s a n e c'
    using that by (auto simp: shared_check_fresh dest: insert_holds [OF _ saturating_add_le_max])
  show "(case t of (s, a, n) \<Rightarrow> held (sc_store c') (composite_key x s a n)) = Some d"
    if "shared_check_and_insert x put i c s a n e = (r, c')"
      "(case t of (s, a, n) \<Rightarrow> held (sc_store c) (composite_key x s a n)) = Some d"
    for i c s a n e r c' t d
    using that by (auto simp: shared_check_and_insert_def Let_def split: prod.splits intro: insert_keeps)
  show "(case t of (s, a, n) \<Rightarrow> held (sc_store (c\<lparr>sc_store := evict now (sc_store c)\<rparr>)) (composite_key x s a n)) = Some d"
    if "(case t of (s, a, n) \<Rightarrow> held (sc_store c) (composite_key x s a n)) = Some d" "now \<le> d" for c t d now
    using that by (auto split: prod.splits intro: evict_keeps)
qed

section \<open>The reference store meets the contract\<close>

lemma map_of_filter_deadline:
  "map_of al k = Some e \<Longrightarrow> now \<le> e \<Longrightarrow> map_of (filter (\<lambda>(_, d). d \<ge> now) al) k = Some e"
  by (induction al) (auto split: if_split_asm)

lemma insert_if_absent_cases:
  assumes "insert_if_absent p st key d t = (r, st')"
  shows "st' = st \<and> r \<noteq> Ok Fresh \<or>
    r = Ok Fresh \<and> map_of (as_seen st) key = None \<and> length (as_seen st) < as_max_entries st \<and>
    st' = st\<lparr>as_seen := AList.update key d (as_seen st)\<rparr>"
  using assms by (auto simp: insert_if_absent_def split: if_split_asm)

interpretation mem_atomic: atomic_store x insert_if_absent "atomic_prune p" "\<lambda>st. map_of (as_seen st)" for x p
proof
  show "map_of (as_seen st) key = None" if "insert_if_absent i st key d t = (Ok Fresh, st')" for i st key d t st'
    using insert_if_absent_cases [OF that] by simp
  show "\<exists>e. map_of (as_seen st') key = Some e \<and> d \<le> e" if "insert_if_absent i st key d t = (Ok Fresh, st')" for i st key d t st'
    using insert_if_absent_cases [OF that] by (auto simp: update_conv')
  show "map_of (as_seen st') k = Some e"
    if "insert_if_absent i st key d t = (r, st')" "map_of (as_seen st) k = Some e" for i st key d t r st' k e
    using insert_if_absent_cases [OF that(1)] that(2) by (auto simp: update_conv')
  show "map_of (as_seen (atomic_prune p now st)) k = Some e"
    if "map_of (as_seen st) k = Some e" "now \<le> e" for st k e now
    using map_of_filter_deadline [OF that] that(1) by (simp add: atomic_prune_def)
qed

text \<open>The reference store never outgrows its ceiling, and holds a key once.\<close>

definition atomic_ok :: "in_memory_atomic_store \<Rightarrow> bool" where
  "atomic_ok st \<longleftrightarrow> distinct (map fst (as_seen st)) \<and> length (as_seen st) \<le> as_max_entries st"

lemma length_update_absent: "map_of al k = None \<Longrightarrow> length (AList.update k v al) = Suc (length al)"
  by (induction al) auto

lemma insert_atomic_ok: "atomic_ok st \<Longrightarrow> insert_if_absent p st key d t = (r, st') \<Longrightarrow>
    atomic_ok st' \<and> as_max_entries st' = as_max_entries st"
  using insert_if_absent_cases [of p st key d t r st']
  by (auto simp: atomic_ok_def length_update_absent distinct_update)

lemma prune_atomic_ok: "atomic_ok st \<Longrightarrow> atomic_ok (atomic_prune p now st) \<and> as_max_entries (atomic_prune p now st) = as_max_entries st"
  by (auto simp: atomic_ok_def atomic_prune_def intro: distinct_map_filter order_trans [OF length_filter_le])

lemma run_atomic_ok:
  "atomic_ok st \<Longrightarrow> atomic_ok (fold (run_store_event insert_if_absent (atomic_prune p)) evs st) \<and>
     as_max_entries (fold (run_store_event insert_if_absent (atomic_prune p)) evs st) = as_max_entries st"
proof (induction evs arbitrary: st)
  case (Cons ev evs)
  have "atomic_ok (run_store_event insert_if_absent (atomic_prune p) ev st) \<and>
      as_max_entries (run_store_event insert_if_absent (atomic_prune p) ev st) = as_max_entries st"
    by (cases ev) (simp_all add: prune_atomic_ok [OF Cons.prems] insert_atomic_ok [OF Cons.prems surjective_pairing])
  then show ?case using Cons.IH by simp
qed simp

section \<open>Properties\<close>

text \<open>
  a nonce admitted on one node is refused on every node that shares the store: after one
  cache over the in-memory store admitted a triple, any other cache over the same store, with
  whatever skew and expiry, does not admit it, after any operations of any nodes, as long as the
  explicit prunes ran at or before the first request's expiry plus the first node's skew.
\<close>

theorem nodes_share_replay_state:
  assumes "shared_check_and_insert x insert_if_absent poisoned c signer audience nonce expires = (Ok Fresh, c')"
    and "list_all (evicts_by (saturating_add expires (sc_skew c))) evs"
  shows "fst (shared_check_and_insert x insert_if_absent poisoned'
    (shared_new (fold (run_store_event insert_if_absent (atomic_prune p)) evs (sc_store c')) skew')
    signer audience nonce expires') \<noteq> Ok Fresh"
  using mem_atomic.nodes_admit_once [OF assms] .

theorem nodes_share_replay_state_witness:
  "fst (shared_check_and_insert sample_ext insert_if_absent False
    (shared_new (sc_store (snd (shared_check_and_insert sample_ext insert_if_absent False (shared_new atomic_new 30)
       (lit ''s'') (lit ''a'') (lit ''n'') 100))) 5) (lit ''s'') (lit ''a'') (lit ''n'') 900) \<noteq> Ok Fresh"
proof -
  have "fst (shared_check_and_insert sample_ext insert_if_absent False (shared_new atomic_new 30)
      (lit ''s'') (lit ''a'') (lit ''n'') 100) = Ok Fresh"
    by (simp add: shared_check_and_insert_def shared_new_def insert_if_absent_def is_stale_pre_store_def
        atomic_new_def MAX_ATOMIC_STORE_ENTRIES_def i64_simps)
  then have "shared_check_and_insert sample_ext insert_if_absent False (shared_new atomic_new 30)
      (lit ''s'') (lit ''a'') (lit ''n'') 100 = (Ok Fresh, snd (shared_check_and_insert sample_ext insert_if_absent False
      (shared_new atomic_new 30) (lit ''s'') (lit ''a'') (lit ''n'') 100))" by (metis prod.collapse)
  from nodes_share_replay_state [OF this, of "[]" False False 5 900] show ?thesis by simp
qed

text \<open>
  the in-memory shared store is bounded: from an empty store, whatever inserts and prunes run,
  it holds at most a million entries and each key at most once; beyond the ceiling it fails
  closed instead of growing.
\<close>

theorem atomic_store_bounded:
  "length (as_seen (fold (run_store_event insert_if_absent (atomic_prune p)) evs atomic_new)) \<le> MAX_ATOMIC_STORE_ENTRIES \<and>
   distinct (map fst (as_seen (fold (run_store_event insert_if_absent (atomic_prune p)) evs atomic_new)))"
  using run_atomic_ok [of atomic_new p evs] by (simp add: atomic_ok_def) (simp add: atomic_new_def)

text \<open>
  distinct triples never share a key preimage: the string that is hashed into the store key
  determines signer, audience and nonce, whatever delimiters they contain, and so do its bytes.
\<close>

theorem key_preimage_identifies_triple:
  assumes "valid_str signer" and "valid_str audience" and "valid_str nonce"
    and "valid_str signer'" and "valid_str audience'" and "valid_str nonce'"
  shows "utf8 (key_preimage signer audience nonce) = utf8 (key_preimage signer' audience' nonce') \<longleftrightarrow>
    signer = signer' \<and> audience = audience' \<and> nonce = nonce'"
proof -
  have "valid_str (key_preimage s a n)" if "valid_str s" "valid_str a" "valid_str n" for s a n
    using that by (simp add: key_preimage_def prefixed_field_def is_scalar_def)
  then show ?thesis using assms utf8_inj key_preimage_inj by metis
qed

theorem key_preimage_identifies_triple_witness:
  "utf8 (key_preimage (lit ''a'') (lit ''bc'') (lit ''n'')) \<noteq> utf8 (key_preimage (lit ''ab'') (lit ''c'') (lit ''n''))"
  by (subst key_preimage_identifies_triple) simp_all

end
