(* ===== verification/Durable_Replay.thy ===== *)
theory Durable_Replay
  imports Replay "HOL-Library.Product_Lexorder"
begin

text \<open>
  \<open>mcps-proxy/src/durable_replay.rs\<close>: the file-backed replay cache. The file is a component of
  the state (\<open>None\<close> when it does not exist). What the environment decides during an operation is
  an argument: the reading of the cache's clock and how far the write to disk gets. The map is
  the sorted association list a \<open>BTreeMap\<close> iterates.
\<close>

section \<open>Sorted maps\<close>

fun btree_insert :: "'k :: linorder \<Rightarrow> 'v \<Rightarrow> ('k \<times> 'v) list \<Rightarrow> ('k \<times> 'v) list" where
  "btree_insert k v [] = [(k, v)]"
| "btree_insert k v ((k', v') # m) =
     (if k = k' then (k, v) # m
      else if k < k' then (k, v) # (k', v') # m
      else (k', v') # btree_insert k v m)"

definition btree_remove :: "'k \<Rightarrow> ('k \<times> 'v) list \<Rightarrow> ('k \<times> 'v) list" where
  "btree_remove k m = filter (\<lambda>(k', v). k' \<noteq> k) m"

lemma map_of_btree_insert [simp]: "map_of (btree_insert k v m) = (map_of m)(k \<mapsto> v)"
  by (induction k v m rule: btree_insert.induct) (auto simp: fun_eq_iff)

lemma map_of_btree_remove [simp]: "map_of (btree_remove k m) = (map_of m)(k := None)"
  by (induction m) (auto simp: btree_remove_def fun_eq_iff)

lemma btree_insert_keys: "fst ` set (btree_insert k v m) = Set.insert k (fst ` set m)"
  by (induction k v m rule: btree_insert.induct) auto

lemma btree_insert_sorted: "sorted_wrt (<) (map fst m) \<Longrightarrow> sorted_wrt (<) (map fst (btree_insert k v m))"
proof (induction k v m rule: btree_insert.induct)
  case (2 k v k' v' m)
  have "set (map fst (btree_insert k v m)) = Set.insert k (set (map fst m))" using btree_insert_keys [of k v m] by simp
  then show ?case using 2 by auto
qed simp

lemma btree_insert_last: "\<forall>k' \<in> fst ` set m. k' < k \<Longrightarrow> btree_insert k v m = m @ [(k, v)]"
  by (induction k v m rule: btree_insert.induct) auto

lemma sorted_filter_keys: "sorted_wrt (<) (map fst m) \<Longrightarrow> sorted_wrt (<) (map fst (filter P m))"
  by (induction m) auto

section \<open>The file format\<close>

type_synonym entries = "(triple \<times> int) list"

datatype io_outcome = Written | FailedBeforeRename | FailedAfterRename

definition entry_json :: "triple \<times> int \<Rightarrow> json" where
  "entry_json = (\<lambda>((signer, audience, nonce), retain_until).
     json_object [(lit ''signer'', Str signer), (lit ''audience'', Str audience), (lit ''nonce'', Str nonce),
       (lit ''retain_until'', Number (NInt retain_until))])"

text \<open>The temporary file is flushed, renamed over the path, and the directory is flushed; an
  error in the last step leaves the new content in place.\<close>

definition persist :: "ext \<Rightarrow> io_outcome \<Rightarrow> entries \<Rightarrow> bytes option \<Rightarrow> (ustring + unit) \<times> bytes option" where
  "persist x outcome m disk =
     (case to_vec x (Arr (map entry_json m)) of
        None \<Rightarrow> (Err (lit ''serialize''), disk)
      | Some bs \<Rightarrow>
          (case outcome of
             Written \<Rightarrow> (Ok (), Some bs)
           | FailedBeforeRename \<Rightarrow> (Err (lit ''io''), disk)
           | FailedAfterRename \<Rightarrow> (Err (lit ''io''), Some bs)))"

fun json_as_i64 :: "json \<Rightarrow> int option" where
  "json_as_i64 (Number n) = as_i64 n"
| "json_as_i64 _ = None"

definition read_entry :: "json \<Rightarrow> (triple \<times> int) option" where
  "read_entry entry =
     (case (Option.bind (json_get entry (lit ''signer'')) as_str, Option.bind (json_get entry (lit ''audience'')) as_str,
            Option.bind (json_get entry (lit ''nonce'')) as_str,
            Option.bind (json_get entry (lit ''retain_until'')) json_as_i64) of
        (Some s, Some a, Some n, Some r) \<Rightarrow> Some ((s, a, n), r)
      | _ \<Rightarrow> None)"

fun load_entries :: "json list \<Rightarrow> entries \<Rightarrow> ustring + entries" where
  "load_entries [] m = Ok m"
| "load_entries (entry # array) m =
     (case read_entry entry of
        Some (k, r) \<Rightarrow> load_entries array (btree_insert k r m)
      | None \<Rightarrow> Err (lit ''malformed replay cache entry''))"

definition load :: "ext \<Rightarrow> bytes \<Rightarrow> ustring + entries" where
  "load x bs =
     and_then (ok_or (lit ''json'') (from_slice x bs)) (\<lambda>value.
     and_then (ok_or (lit ''replay cache is not a JSON array'') (as_array value)) (\<lambda>array.
       load_entries array []))"

section \<open>The cache\<close>

record durable_replay_cache =
  dr_disk :: "bytes option"
  dr_skew :: int
  dr_entries :: entries
  dr_inserts_since_prune :: nat
  dr_max_entries :: nat

definition PRUNE_EVERY_N_INSERTS :: nat where
  "PRUNE_EVERY_N_INSERTS = 64"

definition MAX_ENTRIES :: nat where
  "MAX_ENTRIES = 1000000"

definition durable_open :: "ext \<Rightarrow> bytes option \<Rightarrow> int \<Rightarrow> ustring + durable_replay_cache" where
  "durable_open x disk skew =
     and_then (case disk of Some bs \<Rightarrow> load x bs | None \<Rightarrow> Ok []) (\<lambda>m.
       Ok \<lparr>dr_disk = disk, dr_skew = skew, dr_entries = m, dr_inserts_since_prune = 0, dr_max_entries = MAX_ENTRIES\<rparr>)"

definition keep_until :: "int \<Rightarrow> entries \<Rightarrow> entries" where
  "keep_until now m = filter (\<lambda>(_, retain_until). retain_until \<ge> now) m"

definition durable_prune :: "ext \<Rightarrow> io_outcome \<Rightarrow> int \<Rightarrow> durable_replay_cache \<Rightarrow> (ustring + unit) \<times> durable_replay_cache" where
  "durable_prune x outcome now_unix c =
     (let m = keep_until now_unix (dr_entries c); (r, disk) = persist x outcome m (dr_disk c)
      in (r, c\<lparr>dr_entries := m, dr_disk := disk\<rparr>))"

definition durable_len :: "durable_replay_cache \<Rightarrow> nat" where
  "durable_len c = length (dr_entries c)"

definition opportunistic_prune :: "int \<Rightarrow> durable_replay_cache \<Rightarrow> durable_replay_cache" where
  "opportunistic_prune now c =
     (let n = (if dr_inserts_since_prune c < 2 ^ 64 - 1 then dr_inserts_since_prune c + 1 else dr_inserts_since_prune c) in
      if n \<ge> PRUNE_EVERY_N_INSERTS
      then c\<lparr>dr_inserts_since_prune := 0, dr_entries := keep_until now (dr_entries c)\<rparr>
      else c\<lparr>dr_inserts_since_prune := n\<rparr>)"

definition durable_check_and_insert ::
    "ext \<Rightarrow> int \<times> io_outcome \<Rightarrow> durable_replay_cache \<Rightarrow> ustring \<Rightarrow> ustring \<Rightarrow> ustring \<Rightarrow> int \<Rightarrow>
     replay_verdict \<times> durable_replay_cache" where
  "durable_check_and_insert x i c signer audience nonce expires_at_unix =
     (let key = (signer, audience, nonce) in
      if map_of (dr_entries c) key \<noteq> None then (Ok Replay, c)
      else let c1 = opportunistic_prune (fst i) c in
        if length (dr_entries c1) \<ge> dr_max_entries c1 then (Err (ReplayUnavailable (lit ''capacity'')), c1)
        else let retain_until = saturating_add expires_at_unix (dr_skew c1);
                 m = btree_insert key retain_until (dr_entries c1);
                 (r, disk) = persist x (snd i) m (dr_disk c1)
             in case r of
                  Inl e \<Rightarrow> (Err (ReplayUnavailable (lit ''persist failed'')),
                    c1\<lparr>dr_entries := btree_remove key m, dr_disk := disk\<rparr>)
                | Inr _ \<Rightarrow> (Ok Fresh, c1\<lparr>dr_entries := m, dr_disk := disk\<rparr>))"

definition durable_durability_class :: "durable_replay_cache \<Rightarrow> replay_durability_class" where
  "durable_durability_class c = Durable"

section \<open>The contract of a replay store\<close>

lemma keep_until_Some: "map_of m k = Some d \<Longrightarrow> now \<le> d \<Longrightarrow> map_of (keep_until now m) k = Some d"
  unfolding keep_until_def by (induction m) (auto split: if_split_asm)

lemma keep_until_sub: "set (keep_until now m) \<subseteq> set m"
  by (auto simp: keep_until_def)

lemma opportunistic_prune_fields [simp]:
  "dr_disk (opportunistic_prune now c) = dr_disk c" "dr_skew (opportunistic_prune now c) = dr_skew c"
  "dr_max_entries (opportunistic_prune now c) = dr_max_entries c"
  by (simp_all add: opportunistic_prune_def Let_def)

lemma opportunistic_prune_entries:
  "dr_entries (opportunistic_prune now c) = dr_entries c \<or>
   dr_entries (opportunistic_prune now c) = keep_until now (dr_entries c)"
  by (simp add: opportunistic_prune_def Let_def)

lemma durable_check_cases:
  assumes "durable_check_and_insert x i c s a n e = (r, c')"
  obtains (replay) d where "r = Ok Replay" "c' = c" "map_of (dr_entries c) (s, a, n) = Some d"
  | (full) "\<exists>m. r = Err m" "map_of (dr_entries c) (s, a, n) = None" "c' = opportunistic_prune (fst i) c"
  | (failed) disk where "\<exists>m. r = Err m" "map_of (dr_entries c) (s, a, n) = None"
      "fst (persist x (snd i) (btree_insert (s, a, n) (saturating_add e (dr_skew c)) (dr_entries (opportunistic_prune (fst i) c))) (dr_disk c)) \<noteq> Ok ()"
      "disk = snd (persist x (snd i) (btree_insert (s, a, n) (saturating_add e (dr_skew c)) (dr_entries (opportunistic_prune (fst i) c))) (dr_disk c))"
      "c' = (opportunistic_prune (fst i) c)\<lparr>dr_entries := btree_remove (s, a, n)
        (btree_insert (s, a, n) (saturating_add e (dr_skew c)) (dr_entries (opportunistic_prune (fst i) c))), dr_disk := disk\<rparr>"
  | (fresh) disk where "r = Ok Fresh" "map_of (dr_entries c) (s, a, n) = None"
      "persist x (snd i) (btree_insert (s, a, n) (saturating_add e (dr_skew c)) (dr_entries (opportunistic_prune (fst i) c))) (dr_disk c) = (Ok (), disk)"
      "c' = (opportunistic_prune (fst i) c)\<lparr>dr_entries := btree_insert (s, a, n) (saturating_add e (dr_skew c))
        (dr_entries (opportunistic_prune (fst i) c)), dr_disk := disk\<rparr>"
  using assms
  by (fastforce simp: durable_check_and_insert_def Let_def split: if_split_asm prod.split_asm sum.split_asm)

lemma opportunistic_prune_keeps:
  "map_of (dr_entries c) k = Some d \<Longrightarrow> now \<le> d \<Longrightarrow> map_of (dr_entries (opportunistic_prune now c)) k = Some d"
  using opportunistic_prune_entries [of now c] keep_until_Some [of "dr_entries c" k d now] by auto

lemma durable_fresh_entry:
  "durable_check_and_insert x i c s a n e = (Ok Fresh, c') \<Longrightarrow> map_of (dr_entries c') (s, a, n) = Some (saturating_add e (dr_skew c))"
  by (erule durable_check_cases) auto

interpretation durable: replay_store "durable_check_and_insert x" "\<lambda>now c. snd (durable_prune x outcome now c)"
  "\<lambda>i. Some (fst i)" dr_skew "\<lambda>c. map_of (dr_entries c)" for x outcome
proof
  show "map_of (dr_entries c) (s, a, n) = None" if "durable_check_and_insert x i c s a n e = (Ok Fresh, c')" for i c s a n e c'
    using that by (cases rule: durable_check_cases) auto
  show "\<exists>d. map_of (dr_entries c') (s, a, n) = Some d \<and> saturating_add e (dr_skew c) \<le> d"
    if "durable_check_and_insert x i c s a n e = (Ok Fresh, c')" for i c s a n e c'
    using durable_fresh_entry [OF that] by simp
  show "map_of (dr_entries c') t = Some d"
    if "durable_check_and_insert x i c s a n e = (r, c')" "map_of (dr_entries c) t = Some d"
      "\<And>now. Some (fst i) = Some now \<Longrightarrow> now \<le> d" for i c s a n e r c' t d
    using that(1)
  proof (cases rule: durable_check_cases)
    case replay
    then show ?thesis using that(2) by simp
  next
    case full
    then show ?thesis using that(2,3) by (simp add: opportunistic_prune_keeps)
  next
    case (failed disk)
    then have "t \<noteq> (s, a, n)" using that(2) by auto
    then show ?thesis using failed that(2,3) by (simp add: opportunistic_prune_keeps)
  next
    case (fresh disk)
    then have "t \<noteq> (s, a, n)" using that(2) by auto
    then show ?thesis using fresh that(2,3) by (simp add: opportunistic_prune_keeps)
  qed
  show "map_of (dr_entries (snd (durable_prune x outcome now c))) t = Some d"
    if "map_of (dr_entries c) t = Some d" "now \<le> d" for c t d now
    using keep_until_Some [OF that] by (simp add: durable_prune_def Let_def split: prod.split)
qed

section \<open>Reading the file back\<close>

text \<open>The entries the file can hold: sorted, with valid strings and deadlines in the safe range.\<close>

definition entry_ok :: "triple \<times> int \<Rightarrow> bool" where
  "entry_ok = (\<lambda>((s, a, n), d). valid_str s \<and> valid_str a \<and> valid_str n \<and> \<bar>d\<bar> \<le> MAX_SAFE_INTEGER)"

definition entries_ok :: "entries \<Rightarrow> bool" where
  "entries_ok m \<longleftrightarrow> sorted_wrt (<) (map fst m) \<and> list_all entry_ok m"

lemma entry_json_members:
  "entry_json ((s, a, n), d) =
     Obj [(lit ''audience'', Str a), (lit ''nonce'', Str n), (lit ''retain_until'', Number (NInt d)), (lit ''signer'', Str s)]"
  by (simp add: entry_json_def json_object_def lit_def)

lemma entry_json_ok: "entry_ok m \<Longrightarrow> json_wf (entry_json m) \<and> safe_json (entry_json m) 1"
  by (cases m) (auto simp: entry_json_members entry_ok_def MAX_PARSE_DEPTH_def, auto simp: lit_def)

lemma read_entry_json: "entry_ok (k, d) \<Longrightarrow> read_entry (entry_json (k, d)) = Some (k, d)"
  by (cases k) (auto simp: read_entry_def entry_json_members entry_ok_def MAX_SAFE_INTEGER_def i64_simps)

lemma load_entries_json:
  "sorted_wrt (<) (map fst (m0 @ m)) \<Longrightarrow> list_all entry_ok m \<Longrightarrow> load_entries (map entry_json m) m0 = Ok (m0 @ m)"
proof (induction m arbitrary: m0)
  case (Cons e m)
  obtain k d where e: "e = (k, d)" by (cases e)
  have "btree_insert k d m0 = m0 @ [(k, d)]"
    using Cons.prems(1) by (intro btree_insert_last) (auto simp: e sorted_wrt_append)
  moreover have "load_entries (map entry_json m) (m0 @ [(k, d)]) = Ok ((m0 @ [(k, d)]) @ m)"
    using Cons.prems by (intro Cons.IH) (simp_all add: e)
  ultimately show ?case using Cons.prems(2) by (simp add: e read_entry_json)
qed simp

lemma printed_entries_load:
  assumes "serde_documented x" "serde_prints x" "entries_ok m"
  shows "\<exists>bs. to_vec x (Arr (map entry_json m)) = Some bs \<and> load x bs = Ok m"
proof -
  have "json_wf (Arr (map entry_json m))" "safe_json (Arr (map entry_json m)) 0"
    using assms(3) entry_json_ok by (auto simp: entries_ok_def list_all_iff MAX_PARSE_DEPTH_def)
  from printed_value_reads [OF assms(1,2) this] obtain bs where
    "to_vec x (Arr (map entry_json m)) = Some bs" "from_slice x bs = Some (Arr (map entry_json m))" by blast
  moreover have "load_entries (map entry_json m) [] = Ok m"
    using load_entries_json [of "[]" m] assms(3) by (simp add: entries_ok_def)
  ultimately show ?thesis by (simp add: load_def)
qed

section \<open>Crash consistency\<close>

definition disk_entries :: "ext \<Rightarrow> bytes option \<Rightarrow> ustring + entries" where
  "disk_entries x disk = (case disk of Some bs \<Rightarrow> load x bs | None \<Rightarrow> Ok [])"

text \<open>What is in memory is on disk, and the disk can be read.\<close>

definition durable_ok :: "ext \<Rightarrow> durable_replay_cache \<Rightarrow> bool" where
  "durable_ok x c \<longleftrightarrow> entries_ok (dr_entries c) \<and>
     (\<exists>m. disk_entries x (dr_disk c) = Ok m \<and> entries_ok m \<and> map_of (dr_entries c) \<subseteq>\<^sub>m map_of m)"

lemma persist_disk:
  assumes "serde_documented x" "serde_prints x" "entries_ok m"
  shows "snd (persist x out m disk) = disk \<and> out = FailedBeforeRename \<or>
    disk_entries x (snd (persist x out m disk)) = Ok m"
proof -
  obtain bs where "to_vec x (Arr (map entry_json m)) = Some bs" "load x bs = Ok m"
    using printed_entries_load [OF assms] by blast
  then show ?thesis by (cases out) (simp_all add: persist_def disk_entries_def)
qed

lemma entries_ok_keep: "entries_ok m \<Longrightarrow> entries_ok (keep_until now m)"
  by (auto simp: entries_ok_def keep_until_def list_all_iff intro: sorted_filter_keys)

lemma entries_ok_remove: "entries_ok m \<Longrightarrow> entries_ok (btree_remove k m)"
  by (auto simp: entries_ok_def btree_remove_def list_all_iff intro: sorted_filter_keys)

lemma btree_insert_mem: "m \<in> set (btree_insert k v al) \<Longrightarrow> m = (k, v) \<or> m \<in> set al"
  by (induction k v al rule: btree_insert.induct) (auto split: if_split_asm)

lemma entries_ok_insert: "entries_ok m \<Longrightarrow> entry_ok (k, d) \<Longrightarrow> entries_ok (btree_insert k d m)"
  by (auto simp: entries_ok_def list_all_iff intro: btree_insert_sorted dest!: btree_insert_mem)

lemma map_of_keep_le: "entries_ok m \<Longrightarrow> map_of (keep_until now m) \<subseteq>\<^sub>m map_of m"
proof -
  assume "entries_ok m"
  then have d: "distinct (map fst m)" by (simp add: entries_ok_def strict_sorted_iff)
  show ?thesis
    unfolding map_le_def
  proof
    fix k assume "k \<in> dom (map_of (keep_until now m))"
    then obtain e where e: "map_of (keep_until now m) k = Some e" by blast
    then have "(k, e) \<in> set m" using keep_until_sub [of now m] by (auto dest!: map_of_SomeD)
    then show "map_of (keep_until now m) k = map_of m k" using e d by simp
  qed
qed

lemma opportunistic_ok:
  "entries_ok (dr_entries c) \<Longrightarrow> entries_ok (dr_entries (opportunistic_prune now c)) \<and>
     map_of (dr_entries (opportunistic_prune now c)) \<subseteq>\<^sub>m map_of (dr_entries c)"
  using opportunistic_prune_entries [of now c] entries_ok_keep [of "dr_entries c" now] map_of_keep_le [of "dr_entries c" now] by auto

lemma check_durable_ok:
  assumes x: "serde_documented x" "serde_prints x" and ok: "durable_ok x c"
    and e: "entry_ok ((s, a, n), saturating_add e (dr_skew c))"
    and r: "durable_check_and_insert x i c s a n e = (r, c')"
  shows "durable_ok x c' \<and> dr_skew c' = dr_skew c"
proof -
  let ?c1 = "opportunistic_prune (fst i) c" and ?k = "(s, a, n)" and ?d = "saturating_add e (dr_skew c)"
  let ?m = "btree_insert ?k ?d (dr_entries ?c1)"
  from ok obtain D where D: "disk_entries x (dr_disk c) = Ok D" "entries_ok D" "map_of (dr_entries c) \<subseteq>\<^sub>m map_of D"
    and ent: "entries_ok (dr_entries c)" by (auto simp: durable_ok_def)
  note c1 = opportunistic_ok [OF ent, of "fst i"]
  have le: "map_of (dr_entries ?c1) \<subseteq>\<^sub>m map_of D" using c1 D(3) map_le_trans by blast
  have m: "entries_ok ?m" using c1 e entries_ok_insert by blast
  note disk = persist_disk [OF x m, of "snd i" "dr_disk c"]
  from r show ?thesis
  proof (cases rule: durable_check_cases)
    case replay
    then show ?thesis using ok by simp
  next
    case full
    then show ?thesis using c1 D le by (auto simp: durable_ok_def)
  next
    case (failed dsk)
    have "map_of (dr_entries ?c1) ?k = None"
      using c1 failed(2) unfolding map_le_def by (metis domIff)
    then have rem: "map_of (btree_remove ?k ?m) = map_of (dr_entries ?c1)" by auto
    have "map_of (dr_entries ?c1) \<subseteq>\<^sub>m map_of ?m" using \<open>map_of (dr_entries ?c1) ?k = None\<close> by (auto simp: map_le_def)
    then have "\<exists>m'. disk_entries x dsk = Ok m' \<and> entries_ok m' \<and> map_of (dr_entries ?c1) \<subseteq>\<^sub>m map_of m'"
      using disk D le m failed(4) by auto
    then show ?thesis using failed(5) entries_ok_remove [OF m, of ?k] rem by (simp add: durable_ok_def)
  next
    case (fresh dsk)
    have "disk_entries x dsk = Ok ?m"
      using fresh(3) disk by (auto simp: persist_def split: option.split_asm io_outcome.split_asm)
    then show ?thesis using fresh(4) m by (auto simp: durable_ok_def)
  qed
qed

text \<open>The life of a cache: checks, explicit prunes and restarts, each with what the environment
  decided. A restart loses the memory and reopens the file.\<close>

datatype durable_event =
    Checked int io_outcome ustring ustring ustring int
  | Pruned io_outcome int
  | Restarted

fun durable_step :: "ext \<Rightarrow> durable_event \<Rightarrow> durable_replay_cache \<Rightarrow> durable_replay_cache" where
  "durable_step x (Checked now outcome s a n e) c = snd (durable_check_and_insert x (now, outcome) c s a n e)"
| "durable_step x (Pruned outcome now) c = snd (durable_prune x outcome now c)"
| "durable_step x Restarted c = (case durable_open x (dr_disk c) (dr_skew c) of Inr c' \<Rightarrow> c' | Inl _ \<Rightarrow> c)"

fun event_ok :: "int \<Rightarrow> durable_event \<Rightarrow> bool" where
  "event_ok skew (Checked now outcome s a n e) \<longleftrightarrow> entry_ok ((s, a, n), saturating_add e skew)"
| "event_ok skew _ \<longleftrightarrow> True"

fun event_by :: "int \<Rightarrow> durable_event \<Rightarrow> bool" where
  "event_by t (Checked now outcome s a n e) \<longleftrightarrow> now \<le> t"
| "event_by t (Pruned outcome now) \<longleftrightarrow> now \<le> t"
| "event_by t Restarted \<longleftrightarrow> True"

lemma prune_durable_ok:
  assumes x: "serde_documented x" "serde_prints x" and ok: "durable_ok x c"
  shows "durable_ok x (snd (durable_prune x outcome now c)) \<and> dr_skew (snd (durable_prune x outcome now c)) = dr_skew c"
proof -
  let ?m = "keep_until now (dr_entries c)"
  from ok obtain D where D: "disk_entries x (dr_disk c) = Ok D" "entries_ok D" "map_of (dr_entries c) \<subseteq>\<^sub>m map_of D"
    and ent: "entries_ok (dr_entries c)" by (auto simp: durable_ok_def)
  have m: "entries_ok ?m" using entries_ok_keep [OF ent] .
  have "map_of ?m \<subseteq>\<^sub>m map_of D" using map_of_keep_le [OF ent] D(3) map_le_trans by blast
  then have "\<exists>m'. disk_entries x (snd (persist x outcome ?m (dr_disk c))) = Ok m' \<and> entries_ok m' \<and> map_of ?m \<subseteq>\<^sub>m map_of m'"
    using persist_disk [OF x m, of outcome "dr_disk c"] D m by auto
  then show ?thesis using m by (simp add: durable_prune_def Let_def durable_ok_def split_def)
qed

lemma reopen:
  assumes "durable_ok x c"
  obtains c' where "durable_open x (dr_disk c) (dr_skew c) = Ok c'" "durable_ok x c'" "dr_skew c' = dr_skew c"
    "map_of (dr_entries c) \<subseteq>\<^sub>m map_of (dr_entries c')"
proof -
  from assms obtain D where "disk_entries x (dr_disk c) = Ok D" "entries_ok D" "map_of (dr_entries c) \<subseteq>\<^sub>m map_of D"
    by (auto simp: durable_ok_def)
  then show ?thesis using that by (auto simp: durable_open_def disk_entries_def [symmetric] durable_ok_def)
qed

lemma step_durable_ok:
  assumes "serde_documented x" "serde_prints x" "durable_ok x c" "event_ok (dr_skew c) ev"
  shows "durable_ok x (durable_step x ev c) \<and> dr_skew (durable_step x ev c) = dr_skew c"
proof (cases ev)
  case (Checked now outcome s a n e)
  then show ?thesis using check_durable_ok [OF assms(1-3), of s a n e "(now, outcome)"] assms(4) by (simp add: prod_eq_iff)
next
  case (Pruned outcome now)
  then show ?thesis using prune_durable_ok [OF assms(1-3)] by simp
next
  case Restarted
  from reopen [OF assms(3)] show ?thesis by (metis Restarted durable_step.simps(3) old.sum.simps(6))
qed

lemma step_keeps:
  assumes "durable_ok x c" "map_of (dr_entries c) k = Some d" "event_by d ev"
  shows "map_of (dr_entries (durable_step x ev c)) k = Some d"
proof (cases ev)
  case (Checked now outcome s a n e)
  then show ?thesis
    using durable.check_keeps [of x "(now, outcome)" c s a n e _ _ k d] assms(2,3) by (simp add: prod_eq_iff)
next
  case (Pruned outcome now)
  then show ?thesis using durable.prune_keeps [of c k d now x outcome] assms(2,3) by simp
next
  case Restarted
  from reopen [OF assms(1)] obtain c' where "durable_open x (dr_disk c) (dr_skew c) = Ok c'"
    "map_of (dr_entries c) \<subseteq>\<^sub>m map_of (dr_entries c')" by blast
  then show ?thesis using assms(2) Restarted by (metis domI durable_step.simps(3) map_le_def old.sum.simps(6))
qed

lemma run_durable_ok:
  "serde_documented x \<Longrightarrow> serde_prints x \<Longrightarrow> durable_ok x c \<Longrightarrow> list_all (event_ok (dr_skew c)) evs \<Longrightarrow>
     durable_ok x (fold (durable_step x) evs c) \<and> dr_skew (fold (durable_step x) evs c) = dr_skew c"
proof (induction evs arbitrary: c)
  case (Cons ev evs)
  from Cons.prems have "durable_ok x (durable_step x ev c) \<and> dr_skew (durable_step x ev c) = dr_skew c"
    by (intro step_durable_ok) simp_all
  with Cons.IH [of "durable_step x ev c"] Cons.prems show ?case by simp
qed simp

lemma run_keeps_entry:
  "serde_documented x \<Longrightarrow> serde_prints x \<Longrightarrow> durable_ok x c \<Longrightarrow> list_all (event_ok (dr_skew c)) evs \<Longrightarrow>
     map_of (dr_entries c) k = Some d \<Longrightarrow> list_all (event_by d) evs \<Longrightarrow>
     map_of (dr_entries (fold (durable_step x) evs c)) k = Some d"
proof (induction evs arbitrary: c)
  case (Cons ev evs)
  from Cons.prems have "durable_ok x (durable_step x ev c) \<and> dr_skew (durable_step x ev c) = dr_skew c"
    by (intro step_durable_ok) simp_all
  moreover have "map_of (dr_entries (durable_step x ev c)) k = Some d"
    using Cons.prems by (intro step_keeps) simp_all
  ultimately show ?case using Cons.IH [of "durable_step x ev c"] Cons.prems by simp
qed simp

section \<open>Properties\<close>



end
