(* ===== verification/Trust_Cache.thy ===== *)
theory Trust_Cache
  imports Policy Durable_Replay
begin

text \<open>
  How the proxy keeps trust state: the bounded cache of resolver answers (\<open>trust_cache.rs\<close>), the
  live resolver with its second revocation authority (\<open>live_trust.rs\<close>), the cache with pushed
  invalidations (\<open>push_trust.rs\<close>) and the authorized key set of a fleet
  (\<open>authorized_keyset.rs\<close>), all of the crate \<open>mcps-proxy\<close>. The inner resolver of a cache answers
  from a store that changes over time, so each lookup takes the answers of that moment and the
  reading of the cache's clock as arguments.
\<close>

section \<open>The bounded cache\<close>

definition RECOMMENDED_MAX_T_SECS :: int where
  "RECOMMENDED_MAX_T_SECS = 300"

definition DEFAULT_T_SECS :: int where
  "DEFAULT_T_SECS = 60"

definition DEFAULT_NEGATIVE_TTL_SECS :: int where
  "DEFAULT_NEGATIVE_TTL_SECS = 5"

definition t_exceeds_recommended_max :: "int \<Rightarrow> bool" where
  "t_exceeds_recommended_max t_secs \<longleftrightarrow> t_secs > RECOMMENDED_MAX_T_SECS"

definition strictest_applicable_t :: "int \<Rightarrow> int list \<Rightarrow> int" where
  "strictest_applicable_t default_t_secs class_windows =
     fold (\<lambda>t acc. min acc t) (filter (\<lambda>t. t \<ge> 0) class_windows) (max default_t_secs 0)"

datatype cached_outcome = CachedActive verification_key | CachedRevoked | CachedNotFound | CachedMalformed

primrec to_result :: "cached_outcome \<Rightarrow> trust_resolver_error + verification_key" where
  "to_result (CachedActive key) = Ok key"
| "to_result CachedRevoked = Err Revoked"
| "to_result CachedNotFound = Err NotFound"
| "to_result CachedMalformed = Err MalformedKey"

record cache_entry =
  ce_outcome :: cached_outcome
  ce_expires_at :: int

record bounded_trust_cache =
  btc_t_secs :: int
  btc_negative_ttl_secs :: int
  btc_poisoned :: bool
  btc_cache :: "ustring \<rightharpoonup> cache_entry"

definition btc_new :: "int \<Rightarrow> int \<Rightarrow> bounded_trust_cache" where
  "btc_new t_secs negative_ttl_secs =
     \<lparr>btc_t_secs = max t_secs 0, btc_negative_ttl_secs = max negative_ttl_secs 0, btc_poisoned = False, btc_cache = Map.empty\<rparr>"

definition btc_compose_key :: "ustring \<Rightarrow> ustring \<Rightarrow> ustring" where
  "btc_compose_key signer key_id = prefixed_field signer @ [124] @ prefixed_field key_id"

definition cached :: "bounded_trust_cache \<Rightarrow> ustring \<Rightarrow> int \<Rightarrow> (trust_resolver_error + verification_key) option" where
  "cached c key now =
     (if btc_poisoned c then Some (Err (ResolverUnavailable (lit ''trust cache mutex poisoned: poisoned lock: another task failed inside'')))
      else Option.bind (btc_cache c key) (\<lambda>entry.
        if now < ce_expires_at entry then Some (to_result (ce_outcome entry)) else None))"

definition btc_store :: "ustring \<Rightarrow> cached_outcome \<Rightarrow> int \<Rightarrow> int \<Rightarrow> bounded_trust_cache \<Rightarrow> bounded_trust_cache" where
  "btc_store key outcome now ttl c =
     (if btc_poisoned c then c
      else c\<lparr>btc_cache := (btc_cache c)(key \<mapsto> \<lparr>ce_outcome = outcome, ce_expires_at = saturating_add now ttl\<rparr>)\<rparr>)"

definition btc_prune :: "int \<Rightarrow> bounded_trust_cache \<Rightarrow> bounded_trust_cache" where
  "btc_prune now c =
     (if btc_poisoned c then c
      else c\<lparr>btc_cache := (\<lambda>k. Option.bind (btc_cache c k) (\<lambda>e. if ce_expires_at e > now then Some e else None))\<rparr>)"

definition btc_evict :: "ustring \<Rightarrow> ustring \<Rightarrow> bounded_trust_cache \<Rightarrow> bool \<times> bounded_trust_cache" where
  "btc_evict signer key_id c =
     (let key = btc_compose_key signer key_id in
      if btc_poisoned c then (False, c)
      else (btc_cache c key \<noteq> None, c\<lparr>btc_cache := (btc_cache c)(key := None)\<rparr>))"

text \<open>Step 3 of a lookup: what an answer of the inner resolver is cached as, and for how long.\<close>

definition cache_answer ::
    "ustring \<Rightarrow> trust_resolver_error + verification_key \<Rightarrow> int \<Rightarrow> bounded_trust_cache \<Rightarrow> bounded_trust_cache" where
  "cache_answer key result now c =
     (case result of
        Inr verification_key \<Rightarrow> btc_store key (CachedActive verification_key) now (btc_t_secs c) c
      | Inl Revoked \<Rightarrow> btc_store key CachedRevoked now (btc_t_secs c) c
      | Inl NotFound \<Rightarrow> btc_store key CachedNotFound now (btc_negative_ttl_secs c) c
      | Inl MalformedKey \<Rightarrow> btc_store key CachedMalformed now (btc_negative_ttl_secs c) c
      | Inl (ResolverUnavailable details) \<Rightarrow> c)"

definition btc_resolve ::
    "resolve_fn \<Rightarrow> int \<Rightarrow> bounded_trust_cache \<Rightarrow> ustring \<Rightarrow> ustring \<Rightarrow>
     (trust_resolver_error + verification_key) \<times> bounded_trust_cache" where
  "btc_resolve inner now c signer key_id =
     (let key = btc_compose_key signer key_id in
      case cached c key now of
        Some hit \<Rightarrow> (hit, c)
      | None \<Rightarrow> (let result = inner signer key_id in (result, cache_answer key result now c)))"

section \<open>The live resolver\<close>

record live_trust_resolver =
  ltr_inner :: resolve_fn
  ltr_revocation :: "revocation_fn option"

definition ltr_new :: "resolve_fn \<Rightarrow> live_trust_resolver" where
  "ltr_new inner = \<lparr>ltr_inner = inner, ltr_revocation = None\<rparr>"

definition ltr_with_revocation_source :: "resolve_fn \<Rightarrow> revocation_fn \<Rightarrow> live_trust_resolver" where
  "ltr_with_revocation_source inner revocation = \<lparr>ltr_inner = inner, ltr_revocation = Some revocation\<rparr>"

definition resolve_with_revocation_id ::
    "live_trust_resolver \<Rightarrow> ustring \<Rightarrow> ustring \<Rightarrow> ustring \<Rightarrow> trust_resolver_error + verification_key" where
  "resolve_with_revocation_id r signer key_id revocation_id =
     and_then (ltr_inner r signer key_id) (\<lambda>key.
       case ltr_revocation r of
         None \<Rightarrow> Ok key
       | Some revocation \<Rightarrow>
           (case revocation revocation_id of
              Inr StatusNotRevoked \<Rightarrow> Ok key
            | Inr StatusRevoked \<Rightarrow> Err Revoked
            | Inl (RevocationUnavailable details) \<Rightarrow>
                Err (ResolverUnavailable (lit ''revocation source unavailable: '' @ details))))"

definition live_resolve :: "live_trust_resolver \<Rightarrow> resolve_fn" where
  "live_resolve r signer key_id = ltr_inner r signer key_id"

section \<open>Pushed invalidations\<close>

record invalidation_event =
  ie_signer :: ustring
  ie_key_id :: ustring

record in_memory_invalidation_channel =
  ich_pending :: "invalidation_event list"
  ich_healthy :: bool

definition channel_new :: in_memory_invalidation_channel where
  "channel_new = \<lparr>ich_pending = [], ich_healthy = True\<rparr>"

definition push_revocation ::
    "ustring \<Rightarrow> ustring \<Rightarrow> in_memory_invalidation_channel \<Rightarrow> in_memory_invalidation_channel" where
  "push_revocation signer key_id ch =
     ch\<lparr>ich_pending := ich_pending ch @ [\<lparr>ie_signer = signer, ie_key_id = key_id\<rparr>]\<rparr>"

definition set_healthy :: "bool \<Rightarrow> in_memory_invalidation_channel \<Rightarrow> in_memory_invalidation_channel" where
  "set_healthy healthy ch = ch\<lparr>ich_healthy := healthy\<rparr>"

definition drain_pending :: "in_memory_invalidation_channel \<Rightarrow> invalidation_event list \<times> in_memory_invalidation_channel" where
  "drain_pending ch = (ich_pending ch, ch\<lparr>ich_pending := []\<rparr>)"

text \<open>The cache is generic in the channel, a trait object of which it uses one operation.\<close>

type_synonym 'ch drain_fn = "'ch \<Rightarrow> invalidation_event list \<times> 'ch"

record 'ch push_invalidation_trust_cache =
  pit_cache :: bounded_trust_cache
  pit_channel :: 'ch

definition pit_new :: "int \<Rightarrow> int \<Rightarrow> 'ch \<Rightarrow> 'ch push_invalidation_trust_cache" where
  "pit_new t_secs negative_ttl_secs channel = \<lparr>pit_cache = btc_new t_secs negative_ttl_secs, pit_channel = channel\<rparr>"

primrec evict_all :: "invalidation_event list \<Rightarrow> nat \<Rightarrow> bounded_trust_cache \<Rightarrow> nat \<times> bounded_trust_cache" where
  "evict_all [] evicted c = (evicted, c)"
| "evict_all (event # events) evicted c =
     (case btc_evict (ie_signer event) (ie_key_id event) c of
        (present, c') \<Rightarrow> evict_all events (if present then evicted + 1 else evicted) c')"

definition apply_pending_invalidations ::
    "'ch drain_fn \<Rightarrow> 'ch push_invalidation_trust_cache \<Rightarrow> nat \<times> 'ch push_invalidation_trust_cache" where
  "apply_pending_invalidations drain p =
     (case drain (pit_channel p) of
        (events, ch) \<Rightarrow>
          (case evict_all events 0 (pit_cache p) of (evicted, c) \<Rightarrow> (evicted, \<lparr>pit_cache = c, pit_channel = ch\<rparr>)))"

definition pit_resolve ::
    "'ch drain_fn \<Rightarrow> resolve_fn \<Rightarrow> int \<Rightarrow> 'ch push_invalidation_trust_cache \<Rightarrow> ustring \<Rightarrow> ustring \<Rightarrow>
     (trust_resolver_error + verification_key) \<times> 'ch push_invalidation_trust_cache" where
  "pit_resolve drain inner now p signer key_id =
     (let p' = snd (apply_pending_invalidations drain p) in
      case btc_resolve inner now (pit_cache p') signer key_id of (result, c) \<Rightarrow> (result, p'\<lparr>pit_cache := c\<rparr>))"

section \<open>The authorized key set\<close>

datatype key_status = KeyActive | KeyRevoked | KeyDisabled

record authorized_key_entry =
  ake_key_id :: ustring
  ake_public_key :: verification_key
  ake_issuer :: ustring
  ake_audience :: ustring
  ake_node_label :: ustring
  ake_valid_from :: int
  ake_valid_until :: "int option"
  ake_status :: key_status
  ake_generation :: nat

datatype key_set_error = DuplicateKeyId ustring | SharedKeyNotActive ustring | SharedModeMultipleActive ustring

record authorized_key_set =
  by_key_id :: "(ustring \<times> authorized_key_entry) list"

primrec key_set_entries ::
    "authorized_key_entry list \<Rightarrow> (ustring \<times> authorized_key_entry) list \<Rightarrow> key_set_error + (ustring \<times> authorized_key_entry) list" where
  "key_set_entries [] m = Ok m"
| "key_set_entries (entry # entries) m =
     (if map_of m (ake_key_id entry) \<noteq> None then Err (DuplicateKeyId (ake_key_id entry))
      else key_set_entries entries (btree_insert (ake_key_id entry) entry m))"

definition key_set_new :: "authorized_key_entry list \<Rightarrow> key_set_error + authorized_key_set" where
  "key_set_new entries = and_then (key_set_entries entries []) (\<lambda>m. Ok \<lparr>by_key_id = m\<rparr>)"

definition key_set_lookup :: "authorized_key_set \<Rightarrow> ustring \<Rightarrow> ustring \<Rightarrow> authorized_key_entry option" where
  "key_set_lookup ks audience key_id =
     Option.bind (map_of (by_key_id ks) key_id) (\<lambda>entry. if ake_audience entry = audience then Some entry else None)"

definition active_count_for :: "authorized_key_set \<Rightarrow> ustring \<Rightarrow> nat" where
  "active_count_for ks audience =
     length (filter (\<lambda>entry. ake_audience entry = audience \<and> ake_status entry = KeyActive) (map snd (by_key_id ks)))"

datatype response_signing_identity_mode = PerNodeKeyset | SharedRemoteSigner

record key_set_trust_resolver =
  kst_key_set :: authorized_key_set
  kst_audience :: ustring
  kst_mode :: response_signing_identity_mode
  kst_shared_key_id :: "ustring option"

definition per_node_keyset :: "authorized_key_set \<Rightarrow> ustring \<Rightarrow> key_set_trust_resolver" where
  "per_node_keyset key_set audience =
     \<lparr>kst_key_set = key_set, kst_audience = audience, kst_mode = PerNodeKeyset, kst_shared_key_id = None\<rparr>"

definition shared_remote_signer :: "authorized_key_set \<Rightarrow> ustring \<Rightarrow> ustring \<Rightarrow> key_set_error + key_set_trust_resolver" where
  "shared_remote_signer key_set audience shared_key_id =
     and_then (ok_or (SharedKeyNotActive shared_key_id) (key_set_lookup key_set audience shared_key_id)) (\<lambda>entry.
       if ake_status entry \<noteq> KeyActive then Err (SharedKeyNotActive shared_key_id)
       else if active_count_for key_set audience > 1 then Err (SharedModeMultipleActive audience)
       else Ok \<lparr>kst_key_set = key_set, kst_audience = audience, kst_mode = SharedRemoteSigner, kst_shared_key_id = Some shared_key_id\<rparr>)"

definition key_set_resolve :: "key_set_trust_resolver \<Rightarrow> int \<Rightarrow> resolve_fn" where
  "key_set_resolve r now signer key_id =
     (if signer \<noteq> kst_audience r then Err NotFound
      else case key_set_lookup (kst_key_set r) (kst_audience r) key_id of
        None \<Rightarrow> Err NotFound
      | Some entry \<Rightarrow>
          if kst_mode r = SharedRemoteSigner \<and> kst_shared_key_id r \<noteq> Some key_id then Err NotFound
          else if ake_status entry \<noteq> KeyActive then Err Revoked
          else if now < ake_valid_from entry then Err NotFound
          else (case ake_valid_until entry of
                  Some valid_until \<Rightarrow> if now > valid_until then Err NotFound else Ok (ake_public_key entry)
                | None \<Rightarrow> Ok (ake_public_key entry)))"

section \<open>What a cache serves\<close>

lemma btc_compose_key_inj [simp]: "btc_compose_key s k = btc_compose_key s' k' \<longleftrightarrow> s = s' \<and> k = k'"
  using compose_key_inj [of s k s' k'] by (simp add: btc_compose_key_def compose_key_def)

text \<open>The window of an answer: the time a cache may repeat it, none for an outage.\<close>

fun answer_ttl :: "int \<Rightarrow> int \<Rightarrow> trust_resolver_error + verification_key \<Rightarrow> int option" where
  "answer_ttl t n (Inr key) = Some t"
| "answer_ttl t n (Inl Revoked) = Some t"
| "answer_ttl t n (Inl (ResolverUnavailable d)) = None"
| "answer_ttl t n (Inl e) = Some n"

text \<open>What happens to a cache: lookups against the answers of the moment, prunes, evictions.\<close>

datatype trust_event = Lookup int resolve_fn ustring ustring | PruneTrust int | EvictTrust ustring ustring

primrec trust_step :: "trust_event \<Rightarrow> bounded_trust_cache \<Rightarrow> bounded_trust_cache" where
  "trust_step (Lookup now inner s k) c = snd (btc_resolve inner now c s k)"
| "trust_step (PruneTrust now) c = btc_prune now c"
| "trust_step (EvictTrust s k) c = snd (btc_evict s k c)"

text \<open>Every entry repeats an answer the store gave to a lookup of that pair, until its window closes.\<close>

definition from_lookup :: "trust_event list \<Rightarrow> int \<Rightarrow> int \<Rightarrow> ustring \<Rightarrow> ustring \<Rightarrow> trust_resolver_error + verification_key \<Rightarrow> int \<Rightarrow> bool" where
  "from_lookup evs t n s k r expires \<longleftrightarrow>
     (\<exists>now inner ttl. Lookup now inner s k \<in> set evs \<and> inner s k = r \<and> answer_ttl t n r = Some ttl \<and> expires = saturating_add now ttl)"

definition cache_ok :: "trust_event list \<Rightarrow> int \<Rightarrow> int \<Rightarrow> bounded_trust_cache \<Rightarrow> bool" where
  "cache_ok evs t n c \<longleftrightarrow> \<not> btc_poisoned c \<and> btc_t_secs c = t \<and> btc_negative_ttl_secs c = n \<and>
     (\<forall>s k e. btc_cache c (btc_compose_key s k) = Some e \<longrightarrow> from_lookup evs t n s k (to_result (ce_outcome e)) (ce_expires_at e))"

lemma from_lookup_more: "from_lookup evs t n s k r e \<Longrightarrow> set evs \<subseteq> set evs' \<Longrightarrow> from_lookup evs' t n s k r e"
  unfolding from_lookup_def by blast

lemma cache_answer_ok:
  assumes "cache_ok evs t n c"
  shows "cache_ok (Lookup now inner s k # evs) t n (cache_answer (btc_compose_key s k) (inner s k) now c)"
proof -
  have store: "cache_ok (Lookup now inner s k # evs) t n (btc_store (btc_compose_key s k) out now ttl c)"
    if "to_result out = inner s k" "answer_ttl t n (inner s k) = Some ttl" for out ttl
    using assms that unfolding cache_ok_def btc_store_def
    by (auto simp: from_lookup_def)
  have keep: "cache_ok (Lookup now inner s k # evs) t n c"
    using assms from_lookup_more unfolding cache_ok_def by (metis set_subset_Cons)
  have t: "btc_t_secs c = t" "btc_negative_ttl_secs c = n" using assms by (simp_all add: cache_ok_def)
  show ?thesis
    using store keep by (cases "inner s k") (auto simp: cache_answer_def t split: trust_resolver_error.split)
qed

lemma trust_step_ok:
  assumes "cache_ok evs t n c"
  shows "cache_ok (ev # evs) t n (trust_step ev c)"
proof -
  have keep: "cache_ok (ev # evs) t n c" using assms from_lookup_more unfolding cache_ok_def by (metis set_subset_Cons)
  show ?thesis
  proof (cases ev)
    case (Lookup now inner s k)
    then show ?thesis using keep cache_answer_ok [OF assms] by (auto simp: btc_resolve_def Let_def split: option.split)
  next
    case (PruneTrust now)
    then show ?thesis using keep by (auto simp: cache_ok_def btc_prune_def split: Option.bind_split_asm if_split_asm)
  next
    case (EvictTrust s k)
    then show ?thesis using keep by (auto simp: cache_ok_def btc_evict_def Let_def)
  qed
qed

lemma trust_fold_ok: "cache_ok pre t n c \<Longrightarrow> cache_ok (rev evs @ pre) t n (fold trust_step evs c)"
proof (induction evs arbitrary: pre c)
  case (Cons ev evs)
  from Cons.IH [OF trust_step_ok [OF Cons.prems, of ev]] show ?case by simp
qed simp

lemma trust_cache_ok: "cache_ok (rev evs) (max t 0) (max n 0) (fold trust_step evs (btc_new t n))"
  using trust_fold_ok [of "[]" "max t 0" "max n 0" "btc_new t n" evs] by (simp add: cache_ok_def btc_new_def)

lemma served_from_lookup:
  assumes "cache_ok evs t n c" "fst (btc_resolve inner now c s k) = r"
  shows "r = inner s k \<or> (\<exists>e. from_lookup evs t n s k r e \<and> now < e)"
  using assms by (auto simp: btc_resolve_def Let_def cached_def cache_ok_def split: Option.bind_split_asm if_split_asm option.split_asm)

lemma live_ok_iff:
  "resolve_with_revocation_id r s k rid = Ok key \<longleftrightarrow>
     ltr_inner r s k = Ok key \<and> (case ltr_revocation r of None \<Rightarrow> True | Some revocation \<Rightarrow> revocation rid = Ok StatusNotRevoked)"
proof (cases "ltr_revocation r")
  case (Some revocation)
  then show ?thesis
    by (cases "revocation rid"; cases "projl (revocation rid)"; cases "projr (revocation rid)")
      (auto simp: resolve_with_revocation_id_def result_simps)
qed (auto simp: resolve_with_revocation_id_def result_simps)

lemma saturating_add_mono_left: "a \<le> b \<Longrightarrow> saturating_add a c \<le> saturating_add b c"
  by (auto simp: saturating_add_def sat_i64_def)

section \<open>Invalidation channels\<close>

text \<open>What the cache relies on: an event pushed since the last drain is among the events drained.\<close>

locale invalidation_channel =
  fixes drain :: "'ch drain_fn" and push :: "ustring \<Rightarrow> ustring \<Rightarrow> 'ch \<Rightarrow> 'ch"
  assumes delivered: "\<lparr>ie_signer = s, ie_key_id = k\<rparr> \<in> set (fst (drain (push s k ch)))"
begin

lemma evict_all_gone:
  "btc_cache (snd (evict_all evs n c)) key = (if \<not> btc_poisoned c \<and> key \<in> (\<lambda>e. btc_compose_key (ie_signer e) (ie_key_id e)) ` set evs then None else btc_cache c key) \<and>
   btc_poisoned (snd (evict_all evs n c)) = btc_poisoned c"
  by (induction evs arbitrary: n c) (auto simp: btc_evict_def Let_def)

lemma pushed_is_live:
  "fst (pit_resolve drain inner now (p\<lparr>pit_channel := push s k (pit_channel p)\<rparr>) s k) = inner s k \<or>
   btc_poisoned (pit_cache p) \<and> (\<exists>d. fst (pit_resolve drain inner now (p\<lparr>pit_channel := push s k (pit_channel p)\<rparr>) s k) = Err (ResolverUnavailable d))"
proof -
  obtain evs ch where d: "drain (push s k (pit_channel p)) = (evs, ch)" by fastforce
  obtain m c where e: "evict_all evs 0 (pit_cache p) = (m, c)" by fastforce
  have "\<lparr>ie_signer = s, ie_key_id = k\<rparr> \<in> set evs" using delivered [of s k "pit_channel p"] d by simp
  then have "btc_compose_key s k \<in> (\<lambda>e. btc_compose_key (ie_signer e) (ie_key_id e)) ` set evs"
    by (metis (no_types, lifting) image_eqI invalidation_event.select_convs)
  then have g: "\<not> btc_poisoned c \<Longrightarrow> btc_cache c (btc_compose_key s k) = None" "btc_poisoned c = btc_poisoned (pit_cache p)"
    using evict_all_gone [of evs 0 "pit_cache p" "btc_compose_key s k"] e by simp_all
  have "fst (pit_resolve drain inner now (p\<lparr>pit_channel := push s k (pit_channel p)\<rparr>) s k) = fst (btc_resolve inner now c s k)"
    by (simp add: pit_resolve_def apply_pending_invalidations_def d e split: prod.split)
  then show ?thesis using g by (auto simp: btc_resolve_def Let_def cached_def)
qed

end

interpretation mem_channel: invalidation_channel drain_pending push_revocation
  by unfold_locales (simp add: drain_pending_def push_revocation_def)

section \<open>Key sets\<close>

lemma key_set_entries_Ok:
  "key_set_entries es m = Ok m' \<longleftrightarrow>
     distinct (map ake_key_id es) \<and> (\<forall>e \<in> set es. map_of m (ake_key_id e) = None) \<and>
     m' = fold (\<lambda>e. btree_insert (ake_key_id e) e) es m"
  by (induction es arbitrary: m) (auto simp: image_iff split: if_split_asm)

lemma map_of_fold_insert:
  assumes "distinct (map ake_key_id es)" "\<forall>e \<in> set es. map_of m (ake_key_id e) = None"
  shows "map_of (fold (\<lambda>e. btree_insert (ake_key_id e) e) es m) k = Some e \<longleftrightarrow>
    e \<in> set es \<and> ake_key_id e = k \<or> map_of m k = Some e"
  using assms
proof (induction es arbitrary: m)
  case (Cons a es)
  have "\<forall>e \<in> set es. map_of (btree_insert (ake_key_id a) a m) (ake_key_id e) = None"
    using Cons.prems by (auto simp: image_iff)
  with Cons.IH [of "btree_insert (ake_key_id a) a m"] Cons.prems show ?case by auto
qed simp

lemma key_set_lookup_new:
  assumes "key_set_new es = Ok ks"
  shows "key_set_lookup ks a k = Some e \<longleftrightarrow> e \<in> set es \<and> ake_key_id e = k \<and> ake_audience e = a"
proof -
  from assms have d: "distinct (map ake_key_id es)" and ks: "by_key_id ks = fold (\<lambda>e. btree_insert (ake_key_id e) e) es []"
    by (auto simp: key_set_new_def result_simps key_set_entries_Ok)
  have m: "map_of (by_key_id ks) k = Some e \<longleftrightarrow> e \<in> set es \<and> ake_key_id e = k" for e
    unfolding ks using map_of_fold_insert [OF d, of "[]"] by simp
  have "key_set_lookup ks a k = Some e \<longleftrightarrow> map_of (by_key_id ks) k = Some e \<and> ake_audience e = a"
    by (auto simp: key_set_lookup_def split: Option.bind_split)
  then show ?thesis unfolding m by auto
qed

lemma key_set_new_Ok: "(\<exists>ks. key_set_new es = Ok ks) \<longleftrightarrow> distinct (map ake_key_id es)"
  by (auto simp: key_set_new_def result_simps key_set_entries_Ok)

lemma key_set_resolve_Ok:
  "key_set_resolve r now s k = Ok key \<longleftrightarrow>
     s = kst_audience r \<and>
     (\<exists>e. key_set_lookup (kst_key_set r) s k = Some e \<and> ake_public_key e = key \<and> ake_status e = KeyActive \<and>
        ake_valid_from e \<le> now \<and> (case ake_valid_until e of Some u \<Rightarrow> now \<le> u | None \<Rightarrow> True) \<and>
        (kst_mode r = SharedRemoteSigner \<longrightarrow> kst_shared_key_id r = Some k))"
  by (auto simp: key_set_resolve_def split: option.split option.split_asm if_split_asm)

section \<open>Properties\<close>

text \<open>
  C36: Revocation is enforced within the window: take any run of a cache in which, from some moment on,
  the store stops confirming a key. Once that moment lies the window \<open>T\<close> in the past, no lookup
  yields the key any more, whatever lookups, prunes and evictions the cache went through and
  whatever its clock read.
\<close>

theorem revocation_enforced_within_window:
  assumes "\<forall>t0 inner0. Lookup t0 inner0 s k \<in> set evs \<and> revoked_at \<le> t0 \<longrightarrow> inner0 s k \<noteq> Ok key"
    and "inner s k \<noteq> Ok key" and "saturating_add revoked_at (max t 0) \<le> now"
  shows "fst (btc_resolve inner now (fold trust_step evs (btc_new t n)) s k) \<noteq> Ok key"
proof
  assume "fst (btc_resolve inner now (fold trust_step evs (btc_new t n)) s k) = Ok key"
  from served_from_lookup [OF trust_cache_ok this] assms(2) obtain t0 inner0 where
    l: "Lookup t0 inner0 s k \<in> set evs" "inner0 s k = Ok key" "now < saturating_add t0 (max t 0)"
    by (auto simp: from_lookup_def)
  then have "t0 < revoked_at" using assms(1) by force
  with l(3) assms(3) saturating_add_mono_left [of t0 revoked_at "max t 0"] show False by simp
qed

theorem revocation_enforced_within_window_witness:
  "fst (btc_resolve (\<lambda>s k. Err Revoked) 160
     (fold trust_step [Lookup 90 (\<lambda>s k. Ok \<lparr>vk_inner = replicate 32 0\<rparr>) (lit ''did:a'') (lit ''k1'')] (btc_new 60 5))
     (lit ''did:a'') (lit ''k1'')) \<noteq> Ok \<lparr>vk_inner = replicate 32 0\<rparr>"
  by (rule revocation_enforced_within_window [where revoked_at = 100]) (simp_all add: i64_simps)

text \<open>
  A cache never invents or outlives an answer: what a lookup returns is the store's answer of the
  moment or repeats one the store gave for this very pair, inside the window of its kind; an outage
  is never repeated.
\<close>

theorem cache_repeats_within_window:
  "fst (btc_resolve inner now (fold trust_step evs (btc_new t n)) s k) = inner s k \<or>
   (\<exists>t0 inner0 ttl. Lookup t0 inner0 s k \<in> set evs \<and>
      inner0 s k = fst (btc_resolve inner now (fold trust_step evs (btc_new t n)) s k) \<and>
      answer_ttl (max t 0) (max n 0) (inner0 s k) = Some ttl \<and> now < saturating_add t0 ttl)"
  using served_from_lookup [OF trust_cache_ok refl, of inner now evs t n s k] by (auto simp: from_lookup_def)


text \<open>
  A fleet's key set admits exactly its document: a resolver over a list of entries exists when no
  two entries share a key id, and then resolves a pair to a key exactly when the list has an active
  entry for that identity and key id with that key, inside its validity window.
\<close>

theorem key_set_admits_exactly:
  "(\<exists>ks. key_set_new es = Ok ks \<and> key_set_resolve (per_node_keyset ks audience) now s k = Ok key) \<longleftrightarrow>
     distinct (map ake_key_id es) \<and> s = audience \<and>
     (\<exists>e. e \<in> set es \<and> ake_key_id e = k \<and> ake_audience e = audience \<and> ake_public_key e = key \<and> ake_status e = KeyActive \<and>
        ake_valid_from e \<le> now \<and> (case ake_valid_until e of Some u \<Rightarrow> now \<le> u | None \<Rightarrow> True))"
  unfolding key_set_resolve_Ok using key_set_new_Ok [of es]
  by (auto simp: per_node_keyset_def key_set_lookup_new)

end
