(* ===== verification/Tiers.thy ===== *)
theory Tiers
  imports Transport Trust_Cache
begin

text \<open>
  The declared tiers of a deployment: how durable its replay store is (\<open>replay_tier.rs\<close>), how fast
  a revocation reaches it (\<open>revocation_tier.rs\<close>) and how its nodes sign responses (the mode of
  \<open>authorized_keyset.rs\<close>), with the parsers of their command line values, their names and the
  guarantee each surfaces. Unicode lowercasing is a parameter of the parsers; what is known of it is
  its effect on ASCII text.
\<close>

section \<open>Reading values\<close>

type_synonym lower_fn = "ustring \<Rightarrow> ustring"

definition lowercase_documented :: "lower_fn \<Rightarrow> bool" where
  "lowercase_documented lower \<longleftrightarrow> (\<forall>s. list_all (\<lambda>c. c < 128) s \<longrightarrow> lower s = to_ascii_lowercase s)"

text \<open>\<open>str::parse\<close> into an integer type with the given bounds: an optional sign, a minus only for a signed type,
  and at least one digit.\<close>

definition parse_integer :: "int \<Rightarrow> int \<Rightarrow> ustring \<Rightarrow> int option" where
  "parse_integer lo hi s =
     (let neg = (s \<noteq> [] \<and> hd s = 45 \<and> lo < 0);
          ds = (if neg \<or> s \<noteq> [] \<and> hd s = 43 then tl s else s);
          v = (if neg then - int (digits_value 0 ds) else int (digits_value 0 ds)) in
      if ds = [] \<or> \<not> list_all is_digit ds \<or> v < lo \<or> v > hi then None else Some v)"

definition quoted :: "ustring \<Rightarrow> ustring" where
  "quoted s = [39] @ s @ [39]"

text \<open>\<open>Option::filter\<close> for a value that must be at least one.\<close>

definition positive :: "int option \<Rightarrow> int option" where
  "positive v = Option.bind v (\<lambda>i. if i \<ge> 1 then Some i else None)"

text \<open>The next element of a split, and what is left of it.\<close>

fun next_part :: "ustring list \<Rightarrow> ustring option \<times> ustring list" where
  "next_part [] = (None, [])"
| "next_part (p # ps) = (Some p, ps)"

section \<open>Revocation tiers\<close>

datatype revocation_tier = BoundedCacheTier int | LiveTier | PushTier int

definition parse_window :: "ustring \<Rightarrow> ustring \<Rightarrow> ustring \<Rightarrow> ustring + int" where
  "parse_window rest original tier =
     (let (first, parts1) = next_part (split_char 58 rest) in
      if first \<noteq> Some [] then Err (tier @ lit '' requires '' @ quoted (lit '':<t_secs>'') @ lit '' (got '' @ quoted original @ lit '')'')
      else
        let (second, parts2) = next_part parts1 in
        and_then (ok_or (tier @ lit '' t_secs must be a positive integer (in '' @ quoted original @ lit '')'')
            (positive (Option.bind second (parse_integer i64_min i64_max)))) (\<lambda>t_secs.
          if fst (next_part parts2) \<noteq> None
          then Err (tier @ lit '' takes exactly '' @ quoted (lit '':<t_secs>'') @ lit '' (got '' @ quoted original @ lit '')'')
          else Ok t_secs))"

definition revocation_tier_parse :: "lower_fn \<Rightarrow> ustring \<Rightarrow> ustring + revocation_tier" where
  "revocation_tier_parse lower val =
     (let lowered = lower (trim val) in
      if lowered = lit ''live'' then Ok LiveTier
      else case strip_prefix (lit ''bounded-cache'') lowered of
        Some rest \<Rightarrow> and_then (parse_window rest val (lit ''bounded-cache'')) (\<lambda>t. Ok (BoundedCacheTier t))
      | None \<Rightarrow>
          (case strip_prefix (lit ''push'') lowered of
             Some rest \<Rightarrow> and_then (parse_window rest val (lit ''push'')) (\<lambda>t. Ok (PushTier t))
           | None \<Rightarrow> Err (lit ''unknown revocation tier '' @ quoted val @
               lit '' (expected bounded-cache:<t_secs> | live | push:<t_secs>)'')))"

primrec revocation_tier_wire_name :: "revocation_tier \<Rightarrow> ustring" where
  "revocation_tier_wire_name (BoundedCacheTier t) = lit ''BOUNDED_CACHE''"
| "revocation_tier_wire_name LiveTier = lit ''LIVE''"
| "revocation_tier_wire_name (PushTier t) = lit ''PUSH''"

primrec revocation_tier_guarantee :: "revocation_tier \<Rightarrow> ustring" where
  "revocation_tier_guarantee (BoundedCacheTier t) =
     lit ''revocation enforced fleet-wide within the bounded window T; on '' @
     lit ''store outage cached active state is usable only until T, then '' @
     lit ''fail closed; NOT zero-window / NOT live / NOT push''"
| "revocation_tier_guarantee LiveTier =
     lit ''near-zero revocation window: the store is consulted on every '' @
     lit ''verification with no positive-trust caching, at the cost of a '' @
     lit ''per-request store round-trip and a hard availability dependency '' @
     lit ''(store unavailability fails closed); NOT proven zero-window''"
| "revocation_tier_guarantee (PushTier t) =
     lit ''near-zero revocation window with bounded-T fallback: a pushed '' @
     lit ''revocation evicts affected entries immediately, but on '' @
     lit ''invalidation-channel failure entries fall back to expiry within '' @
     lit ''the bounded window T; NOT zero-window (the reference channel does '' @
     lit ''not prove reliable ordering/delivery)''"

definition revocation_tier_startup_audit_line :: "revocation_tier \<Rightarrow> ustring \<Rightarrow> ustring" where
  "revocation_tier_startup_audit_line tier backend =
     lit ''trust-store backend='' @ backend @ lit '' revocation-tier='' @ revocation_tier_wire_name tier @
     lit '' guarantee='' @ [34] @ revocation_tier_guarantee tier @ [34]"

definition claims_zero_window :: "revocation_tier \<Rightarrow> bool" where
  "claims_zero_window tier = False"

section \<open>Replay durability tiers\<close>

datatype replay_durability_tier = RedisAsyncBounded | RedisWaitQuorum int int | Linearizable | SingleStoreFailClosed

definition parse_quorum :: "ustring \<Rightarrow> ustring \<Rightarrow> ustring + replay_durability_tier" where
  "parse_quorum rest val =
     (let (first, parts1) = next_part (split_char 58 rest) in
      if first \<noteq> Some [] then Err (lit ''redis-wait-quorum requires '' @ quoted (lit '':<quorum>:<timeout_ms>'') @ lit '' (got '' @ quoted val @ lit '')'')
      else
        let (second, parts2) = next_part parts1; (third, parts3) = next_part parts2 in
        and_then (ok_or (lit ''redis-wait-quorum quorum must be a positive integer (in '' @ quoted val @ lit '')'')
            (positive (Option.bind second (parse_integer 0 (2 ^ 32 - 1))))) (\<lambda>quorum.
        and_then (ok_or (lit ''redis-wait-quorum timeout_ms must be a positive integer (in '' @ quoted val @ lit '')'')
            (positive (Option.bind third (parse_integer 0 (2 ^ 64 - 1))))) (\<lambda>timeout_ms.
          if fst (next_part parts3) \<noteq> None
          then Err (lit ''redis-wait-quorum takes exactly '' @ quoted (lit '':<quorum>:<timeout_ms>'') @ lit '' (got '' @ quoted val @ lit '')'')
          else Ok (RedisWaitQuorum quorum timeout_ms))))"

definition replay_tier_parse :: "lower_fn \<Rightarrow> ustring \<Rightarrow> ustring + replay_durability_tier" where
  "replay_tier_parse lower val =
     (let lowered = lower (trim val) in
      if lowered = lit ''redis-async'' then Ok RedisAsyncBounded
      else if lowered = lit ''linearizable'' then Ok Linearizable
      else if lowered = lit ''single-store-fail-closed'' then Ok SingleStoreFailClosed
      else
        and_then (ok_or (lit ''unknown replay durability tier '' @ quoted val @
            lit '' (expected redis-async | redis-wait-quorum:<quorum>:<timeout_ms> | linearizable | single-store-fail-closed)'')
            (strip_prefix (lit ''redis-wait-quorum'') lowered)) (\<lambda>rest. parse_quorum rest val))"

primrec replay_tier_wire_name :: "replay_durability_tier \<Rightarrow> ustring" where
  "replay_tier_wire_name RedisAsyncBounded = lit ''REDIS_ASYNC''"
| "replay_tier_wire_name (RedisWaitQuorum q t) = lit ''REDIS_WAIT_QUORUM''"
| "replay_tier_wire_name Linearizable = lit ''LINEARIZABLE''"
| "replay_tier_wire_name SingleStoreFailClosed = lit ''SINGLE_STORE_FAIL_CLOSED''"

primrec replay_tier_guarantee :: "replay_durability_tier \<Rightarrow> ustring" where
  "replay_tier_guarantee RedisAsyncBounded =
     lit ''replay-safe in steady state; a failover or restart-with-state-loss '' @
     lit ''may reopen a replay window bounded by the freshness window''"
| "replay_tier_guarantee (RedisWaitQuorum q t) =
     lit ''materially reduced failover replay risk; WAIT timeout or insufficient '' @
     lit ''acks fail closed; not linearizable / not unconditional''"
| "replay_tier_guarantee Linearizable =
     lit ''strongest horizontal replay-safety claim, conditional on the store'' @ [39] @ lit ''s '' @
     lit ''durable linearizable write contract and correct freshness enforcement''"
| "replay_tier_guarantee SingleStoreFailClosed =
     lit ''strong only under the fail-closed invariant: the fleet rejects '' @
     lit ''protected requests on store unavailability or possible state loss '' @
     lit ''until the freshness window elapses''"

definition replay_tier_startup_audit_line :: "replay_durability_tier \<Rightarrow> ustring \<Rightarrow> ustring" where
  "replay_tier_startup_audit_line tier backend =
     lit ''replay-store backend='' @ backend @ lit '' tier='' @ replay_tier_wire_name tier @
     lit '' guarantee='' @ [34] @ replay_tier_guarantee tier @ [34]"

fun meets_strict_production_minimum :: "replay_durability_tier \<Rightarrow> bool" where
  "meets_strict_production_minimum (RedisWaitQuorum q t) \<longleftrightarrow> True"
| "meets_strict_production_minimum Linearizable \<longleftrightarrow> True"
| "meets_strict_production_minimum _ \<longleftrightarrow> False"

section \<open>Response-signing identity\<close>

definition identity_mode_parse :: "lower_fn \<Rightarrow> ustring \<Rightarrow> ustring + response_signing_identity_mode" where
  "identity_mode_parse lower val =
     (let lowered = lower (trim val) in
      if lowered = lit ''per-node-keyset'' then Ok PerNodeKeyset
      else if lowered = lit ''shared-remote-signer'' then Ok SharedRemoteSigner
      else Err (lit ''unknown response-signing identity mode '' @ quoted lowered @
        lit '' (expected per-node-keyset | shared-remote-signer)''))"

primrec identity_mode_wire_name :: "response_signing_identity_mode \<Rightarrow> ustring" where
  "identity_mode_wire_name PerNodeKeyset = lit ''PER_NODE_KEYSET''"
| "identity_mode_wire_name SharedRemoteSigner = lit ''SHARED_REMOTE_SIGNER''"

primrec identity_mode_guarantee :: "response_signing_identity_mode \<Rightarrow> ustring" where
  "identity_mode_guarantee PerNodeKeyset =
     lit ''each node signs with its own key; compromise of one node revokes '' @
     lit ''only that node'' @ [39] @ lit ''s key (tight blast radius); no shared private key''"
| "identity_mode_guarantee SharedRemoteSigner =
     lit ''one non-exporting remote signer for the whole audience; higher key '' @
     lit ''custody, not necessarily smaller blast radius (a compromised node '' @
     lit ''credential can sign as the shared identity until revoked)''"

definition identity_mode_startup_audit_line :: "response_signing_identity_mode \<Rightarrow> ustring \<Rightarrow> ustring" where
  "identity_mode_startup_audit_line mode audience =
     lit ''response-signing audience='' @ audience @ lit '' mode='' @ identity_mode_wire_name mode @
     lit '' guarantee='' @ [34] @ identity_mode_guarantee mode @ [34]"

section \<open>What the parsers accept\<close>

lemma positive_None [simp]: "positive None = None"
  by (simp add: positive_def)

lemma strip_prefix_None: "strip_prefix p s = None \<or> (\<exists>rest. s = p @ rest)"
  by (auto simp: strip_prefix_def prefix_def)

lemma tier_names:
  "lit ''bounded-cache'' @ rest \<noteq> lit ''live''" "lit ''push'' @ rest \<noteq> lit ''live''"
  "strip_prefix (lit ''bounded-cache'') (lit ''push'' @ rest) = None"
  by (simp_all add: strip_prefix_def) (simp_all add: lit_def)

lemma positive_Some: "positive v = Some i \<longleftrightarrow> v = Some i \<and> i \<ge> 1"
  by (auto simp: positive_def split: Option.bind_split)

lemma split_char_none: "sep \<notin> set s \<Longrightarrow> split_char sep s = [s]"
  by (induction s) auto

lemma split_char_nonempty: "split_char sep s \<noteq> []"
  by (cases s) auto

lemma split_char_count: "length (split_char sep s) = Suc (count_list s sep)"
  by (induction s) (auto simp: split_char_nonempty)

lemma split_char_one: "split_char sep s = [a] \<longleftrightarrow> s = a \<and> sep \<notin> set a"
proof (cases "sep \<in> set s")
  case True
  then have "count_list s sep \<noteq> 0" by (simp add: count_list_0_iff)
  then have "length (split_char sep s) \<noteq> 1" by (simp add: split_char_count)
  with True show ?thesis by auto
qed (auto simp: split_char_none)

lemma split_char_cons: "split_char sep s = a # p # ps \<longleftrightarrow> sep \<notin> set a \<and> (\<exists>b. s = a @ sep # b \<and> split_char sep b = p # ps)"
proof (induction s arbitrary: a)
  case (Cons c s)
  obtain q qs where q: "split_char sep s = q # qs" using split_char_nonempty [of sep s] by (cases "split_char sep s") auto
  show ?case using Cons.IH [of "tl a"] q by (cases a) (auto simp: Cons_eq_append_conv)
qed auto

lemma parse_integer_dec: "lo \<le> int n \<Longrightarrow> int n \<le> hi \<Longrightarrow> parse_integer lo hi (dec n) = Some (int n)"
proof -
  assume b: "lo \<le> int n" "int n \<le> hi"
  have "list_all is_digit (dec n)" using dec_digits by (auto simp: list_all_iff)
  moreover from this have "hd (dec n) \<noteq> 45" "hd (dec n) \<noteq> 43"
    using dec_nonempty [of n] by (cases "dec n"; auto simp: is_digit_def)+
  ultimately show ?thesis using b by (simp add: parse_integer_def Let_def)
qed

lemma parse_integer_bounds: "parse_integer lo hi s = Some i \<Longrightarrow> lo \<le> i \<and> i \<le> hi"
  by (auto simp: parse_integer_def Let_def split: if_split_asm)

lemma parse_window_Ok:
  "parse_window rest original tier = Ok t \<longleftrightarrow>
     (\<exists>ds. rest = 58 # ds \<and> 58 \<notin> set ds \<and> parse_integer i64_min i64_max ds = Some t \<and> t \<ge> 1)"
proof -
  obtain p ps where p: "split_char 58 rest = p # ps" using split_char_nonempty [of 58 rest] by (cases "split_char 58 rest") auto
  show ?thesis
  proof (cases ps)
    case Nil
    then have "rest = p" "58 \<notin> set p" using p split_char_one by blast+
    then show ?thesis using p Nil by (auto simp: parse_window_def positive_def)
  next
    case (Cons q qs)
    then obtain b where b: "rest = p @ 58 # b" "58 \<notin> set p" "split_char 58 b = q # qs" using p split_char_cons by metis
    have "58 \<notin> set b \<longleftrightarrow> qs = []" "qs = [] \<Longrightarrow> b = q"
      using b(3) split_char_none [of 58 b] split_char_one [of 58 b q] by auto
    then show ?thesis using p Cons b
      by (cases p; cases qs) (auto simp: parse_window_def positive_Some result_simps)
  qed
qed

lemma parse_quorum_Ok:
  "parse_quorum rest val = Ok tier \<longleftrightarrow>
     (\<exists>qs ts q t. rest = 58 # qs @ 58 # ts \<and> 58 \<notin> set qs \<and> 58 \<notin> set ts \<and> tier = RedisWaitQuorum q t \<and>
        parse_integer 0 (2 ^ 32 - 1) qs = Some q \<and> q \<ge> 1 \<and> parse_integer 0 (2 ^ 64 - 1) ts = Some t \<and> t \<ge> 1)"
  (is "?l \<longleftrightarrow> ?r")
proof
  assume ?r
  then obtain qs ts q t where r: "rest = 58 # qs @ 58 # ts" "58 \<notin> set qs" "58 \<notin> set ts" "tier = RedisWaitQuorum q t"
    "parse_integer 0 (2 ^ 32 - 1) qs = Some q" "q \<ge> 1" "parse_integer 0 (2 ^ 64 - 1) ts = Some t" "t \<ge> 1" by blast
  have "split_char 58 rest = [[], qs, ts]"
    using r(1-3) split_char_append [of 58 "[]" "qs @ 58 # ts"] by (simp add: split_char_append split_char_none)
  then show ?l using r(4-) by (simp add: parse_quorum_def positive_def)
next
  assume ?l
  then obtain qs ts q t where s: "split_char 58 rest = [[], qs, ts]" "tier = RedisWaitQuorum q t"
    "parse_integer 0 (2 ^ 32 - 1) qs = Some q" "q \<ge> 1" "parse_integer 0 (2 ^ 64 - 1) ts = Some t" "t \<ge> 1"
    by (cases "split_char 58 rest"; cases "tl (split_char 58 rest)"; cases "tl (tl (split_char 58 rest))";
        cases "tl (tl (tl (split_char 58 rest)))")
      (auto simp: parse_quorum_def result_simps positive_Some split: if_split_asm)
  then show ?r by (auto simp: split_char_cons split_char_one)
qed

section \<open>Properties\<close>

text \<open>
  A revocation tier is read exactly as documented: the value is \<open>live\<close>, or names a cached tier
  and, after one colon, a window of at least one second that fits an \<open>i64\<close>; nothing else is
  accepted, so no value widens or disables the exposure bound.
\<close>

theorem revocation_tier_parses_exactly:
  "revocation_tier_parse lower val = Ok tier \<longleftrightarrow>
     lower (trim val) = lit ''live'' \<and> tier = LiveTier \<or>
     (\<exists>ds t. 58 \<notin> set ds \<and> parse_integer i64_min i64_max ds = Some t \<and> t \<ge> 1 \<and>
        (lower (trim val) = lit ''bounded-cache:'' @ ds \<and> tier = BoundedCacheTier t \<or>
         lower (trim val) = lit ''push:'' @ ds \<and> tier = PushTier t))"
proof -
  let ?v = "lower (trim val)"
  consider (live) "?v = lit ''live''"
    | (bounded) rest where "?v = lit ''bounded-cache'' @ rest"
    | (push) rest where "?v = lit ''push'' @ rest"
    | (other) "?v \<noteq> lit ''live''" "strip_prefix (lit ''bounded-cache'') ?v = None" "strip_prefix (lit ''push'') ?v = None"
    using strip_prefix_None [of "lit ''bounded-cache''" ?v] strip_prefix_None [of "lit ''push''" ?v] by metis
  then show ?thesis
  proof cases
    case live
    then show ?thesis by (simp add: revocation_tier_parse_def) (auto simp: lit_def)
  next
    case bounded
    then have "revocation_tier_parse lower val = and_then (parse_window rest val (lit ''bounded-cache'')) (\<lambda>t. Ok (BoundedCacheTier t))"
      by (simp add: revocation_tier_parse_def Let_def tier_names)
    then show ?thesis using bounded by (auto simp: result_simps parse_window_Ok lit_def)
  next
    case push
    then have "revocation_tier_parse lower val = and_then (parse_window rest val (lit ''push'')) (\<lambda>t. Ok (PushTier t))"
      by (simp add: revocation_tier_parse_def Let_def tier_names)
    then show ?thesis using push by (auto simp: result_simps parse_window_Ok lit_def)
  next
    case other
    then show ?thesis by (auto simp: revocation_tier_parse_def strip_prefix_def lit_def)
  qed
qed

lemma written_tier_lowered:
  assumes "lowercase_documented lower" "list_all (\<lambda>c. 33 \<le> c \<and> c < 127) s"
  shows "lower (trim s) = to_ascii_lowercase s"
proof -
  have "\<not> is_whitespace c" if "c \<in> set s" for c using that assms(2) by (auto simp: list_all_iff is_whitespace_def)
  then have "trim s = s" unfolding trim_id by (cases "s = []") auto
  moreover have "list_all (\<lambda>c. c < 128) s" using assms(2) by (auto simp: list_all_iff)
  ultimately show ?thesis using assms(1) by (simp add: lowercase_documented_def)
qed

lemma dec_range: "c \<in> set (dec n) \<Longrightarrow> 48 \<le> c \<and> c \<le> 57"
  using dec_digits [of c n] by (simp add: is_digit_def)

lemma lowered_dec [simp]: "to_ascii_lowercase (dec n) = dec n"
  unfolding to_ascii_lowercase_def
proof (rule map_idI)
  fix c
  assume "c \<in> set (dec n)"
  from dec_range [OF this] show "(if 65 \<le> c \<and> c \<le> 90 then c + 32 else c) = c" by simp
qed

lemma dec_printable: "list_all (\<lambda>c. 33 \<le> c \<and> c < 127) (dec n)" "58 \<notin> set (dec n)"
proof -
  have "33 \<le> c \<and> c < 127" if "c \<in> set (dec n)" for c using dec_range [OF that] by simp
  then show "list_all (\<lambda>c. 33 \<le> c \<and> c < 127) (dec n)" by (simp add: list_all_iff)
  show "58 \<notin> set (dec n)" using dec_range [of 58 n] by auto
qed

lemma lowercase_append [simp]: "to_ascii_lowercase (a @ b) = to_ascii_lowercase a @ to_ascii_lowercase b"
  by (simp add: to_ascii_lowercase_def)

lemma lowercase_colon [simp]: "to_ascii_lowercase (58 # s) = 58 # to_ascii_lowercase s"
  by (simp add: to_ascii_lowercase_def)

text \<open>
  The written form of a quorum reads back, in any letter case of the name: a quorum and a timeout
  printed in decimal after the tier's name are the ones that are read, and such a tier meets the
  strict production minimum.
\<close>

theorem quorum_tier_reads_back:
  assumes "lowercase_documented lower" "list_all (\<lambda>c. 33 \<le> c \<and> c < 127) name" "to_ascii_lowercase name = lit ''redis-wait-quorum''"
    and "1 \<le> q" "q < 2 ^ 32" "1 \<le> t" "t < 2 ^ 64"
  shows "replay_tier_parse lower (name @ [58] @ dec q @ [58] @ dec t) = Ok (RedisWaitQuorum (int q) (int t)) \<and>
    meets_strict_production_minimum (RedisWaitQuorum (int q) (int t))"
proof -
  let ?v = "name @ [58] @ dec q @ [58] @ dec t"
  have l: "lower (trim ?v) = lit ''redis-wait-quorum'' @ 58 # dec q @ 58 # dec t"
    using written_tier_lowered [OF assms(1), of ?v] assms(2,3) dec_printable(1) [of q] dec_printable(1) [of t] by simp
  have b: "parse_integer 0 (2 ^ 32 - 1) (dec q) = Some (int q)" "parse_integer 0 (2 ^ 64 - 1) (dec t) = Some (int t)"
    using assms(5,7) by (auto intro!: parse_integer_dec)
  have "parse_quorum (58 # dec q @ 58 # dec t) ?v = Ok (RedisWaitQuorum (int q) (int t))"
    unfolding parse_quorum_Ok using b assms(4,6) dec_printable(2) [of q] dec_printable(2) [of t]
    by (intro exI [of _ "dec q"] exI [of _ "dec t"] exI [of _ "int q"] exI [of _ "int t"]) simp
  moreover have "lit ''redis-wait-quorum'' @ s \<noteq> lit ''redis-async''" "lit ''redis-wait-quorum'' @ s \<noteq> lit ''linearizable''"
    "lit ''redis-wait-quorum'' @ s \<noteq> lit ''single-store-fail-closed''" for s by (simp_all add: lit_def)
  ultimately show ?thesis using l by (simp add: replay_tier_parse_def Let_def)
qed

end
