(* ===== verification/Remote_Stores.thy ===== *)
theory Remote_Stores
  imports Shared_Replay Tiers
begin

text \<open>
  The replay stores behind a network: \<open>mcps-proxy/src/redis_store.rs\<close> and \<open>etcd_store.rs\<close>. The
  servers and the client libraries are parameters, functions of a state of the world that return a
  reply and the next state; what the code relies on is collected in \<open>redis_documented\<close> and
  \<open>etcd_documented\<close>. Under these, each store meets the contract \<open>atomic_store\<close>. The clock of a
  store reads the same time as its server expires entries by.
\<close>

section \<open>Redis\<close>

record redis_error =
  re_io :: bool
  re_dropped :: bool
  re_refusal :: bool
  re_unrecoverable :: bool
  re_text :: ustring

text \<open>How a connect ends: in time, with an error, or not before the deadline (rendered for the message).\<close>

datatype connect_outcome = Connected | ConnectFailed replay_store_error | DeadlineElapsed ustring

record 'w redis_driver =
  rd_now :: "'w \<Rightarrow> int"
  rd_set_nx_px :: "'w \<Rightarrow> ustring \<Rightarrow> nat \<Rightarrow> (redis_error + ustring option) \<times> 'w"
  rd_wait :: "'w \<Rightarrow> nat \<Rightarrow> nat \<Rightarrow> (redis_error + int) \<times> 'w"
  rd_connect :: "'w \<Rightarrow> connect_outcome \<times> 'w"

text \<open>The world and the process-wide count of connect threads.\<close>

record 'w redis_state =
  rs_world :: 'w
  rs_inflight_connects :: nat

record wait_quorum =
  wq_quorum :: nat
  wq_timeout_ms :: nat

definition MAX_INFLIGHT_CONNECTS :: nat where
  "MAX_INFLIGHT_CONNECTS = 64"

definition permit_acquire :: "nat \<Rightarrow> replay_store_error + nat" where
  "permit_acquire current =
     (if current \<ge> MAX_INFLIGHT_CONNECTS then
        Err (StoreUnavailable (lit ''redis connect refused: '' @ dec MAX_INFLIGHT_CONNECTS @
          lit '' connect/handshake threads already in flight (backend likely half-open; failing closed '' @
          lit ''to bound stranded-thread/fd accumulation rather than spawn another)''))
      else Ok (current + 1))"

definition permit_drop :: "nat \<Rightarrow> nat" where
  "permit_drop current = current - 1"

definition compute_ttl_ms :: "int \<Rightarrow> int \<Rightarrow> nat" where
  "compute_ttl_ms expires_at_unix now_unix =
     (let ttl_secs = max (saturating_sub expires_at_unix now_unix) 0 in nat (max (min (ttl_secs * 1000) (2 ^ 64 - 1)) 1))"

definition is_nonpositive_ttl :: "int \<Rightarrow> int \<Rightarrow> bool" where
  "is_nonpositive_ttl expires_at_unix now_unix \<longleftrightarrow> saturating_sub expires_at_unix now_unix \<le> 0"

text \<open>A connect takes a permit; it is given back when the worker ends, which it has not when the deadline passes first.\<close>

definition bounded_connect :: "'w redis_driver \<Rightarrow> 'w redis_state \<Rightarrow> (replay_store_error + unit) \<times> 'w redis_state" where
  "bounded_connect drv st =
     (case permit_acquire (rs_inflight_connects st) of
        Inl e \<Rightarrow> (Err e, st)
      | Inr n \<Rightarrow>
          (case rd_connect drv (rs_world st) of
             (Connected, w) \<Rightarrow> (Ok (), \<lparr>rs_world = w, rs_inflight_connects = permit_drop n\<rparr>)
           | (ConnectFailed e, w) \<Rightarrow> (Err e, \<lparr>rs_world = w, rs_inflight_connects = permit_drop n\<rparr>)
           | (DeadlineElapsed deadline, w) \<Rightarrow>
               (Err (StoreUnavailable (lit ''redis connect/handshake did not complete within '' @ deadline @
                  lit '' (backend accepted TCP but never answered the handshake; fail closed)'')),
                \<lparr>rs_world = w, rs_inflight_connects = n\<rparr>)))"

definition wait_quorum_satisfied :: "int \<Rightarrow> nat \<Rightarrow> bool" where
  "wait_quorum_satisfied acked_replicas quorum \<longleftrightarrow> acked_replicas \<ge> int quorum"

datatype 'a op_attempt = Done 'a | Transient replay_store_error | Fatal replay_store_error

definition classify_fresh_insert_wait :: "int \<Rightarrow> nat \<Rightarrow> nat \<Rightarrow> replay_decision op_attempt" where
  "classify_fresh_insert_wait acked quorum timeout_ms =
     (if wait_quorum_satisfied acked quorum then Done Fresh
      else Fatal (StoreUnavailable (lit ''redis WAIT got '' @ write_integer acked @ lit '' replica ack(s), need '' @ dec quorum @
        lit '' within '' @ dec timeout_ms @
        lit ''ms (fail closed; nonce not durably replicated; retry with a FRESH nonce '' @ [8212] @
        lit '' the same signed request may be rejected as replay until the TTL window elapses)'')))"

definition is_transient_connection_error :: "redis_error \<Rightarrow> bool" where
  "is_transient_connection_error e \<longleftrightarrow> re_io e \<or> re_dropped e \<or> re_refusal e \<or> re_unrecoverable e"

definition run_with_reconnect ::
    "('s \<Rightarrow> (replay_store_error + unit) \<times> 's) \<Rightarrow> ('s \<Rightarrow> 'a op_attempt \<times> 's) \<Rightarrow> 's \<Rightarrow> (replay_store_error + 'a) \<times> 's" where
  "run_with_reconnect reconnect op st =
     (case op st of
        (Done v, st1) \<Rightarrow> (Ok v, st1)
      | (Fatal e, st1) \<Rightarrow> (Err e, st1)
      | (Transient _, st1) \<Rightarrow>
          (case reconnect st1 of
             (Inl e, st2) \<Rightarrow> (Err e, st2)
           | (Inr _, st2) \<Rightarrow>
               (case op st2 of
                  (Done v, st3) \<Rightarrow> (Ok v, st3)
                | (Transient e, st3) \<Rightarrow> (Err e, st3)
                | (Fatal e, st3) \<Rightarrow> (Err e, st3))))"

text \<open>One attempt: \<open>SET key 1 NX PX ttl\<close>, and for the quorum tier a \<open>WAIT\<close> after a fresh insert.\<close>

definition set_attempt ::
    "'w redis_driver \<Rightarrow> wait_quorum option \<Rightarrow> ustring \<Rightarrow> nat \<Rightarrow> 'w redis_state \<Rightarrow> replay_decision op_attempt \<times> 'w redis_state" where
  "set_attempt drv wait key ttl_ms st =
     (case rd_set_nx_px drv (rs_world st) key ttl_ms of
        (Inr (Some _), w) \<Rightarrow>
          (case wait of
             None \<Rightarrow> (Done Fresh, st\<lparr>rs_world := w\<rparr>)
           | Some q \<Rightarrow>
               (case rd_wait drv w (wq_quorum q) (wq_timeout_ms q) of
                  (Inr n, w') \<Rightarrow> (classify_fresh_insert_wait n (wq_quorum q) (wq_timeout_ms q), st\<lparr>rs_world := w'\<rparr>)
                | (Inl e, w') \<Rightarrow> (Fatal (StoreUnavailable (lit ''redis WAIT failed: '' @ re_text e)), st\<lparr>rs_world := w'\<rparr>)))
      | (Inr None, w) \<Rightarrow> (Done Replay, st\<lparr>rs_world := w\<rparr>)
      | (Inl e, w) \<Rightarrow>
          (let store_error = StoreUnavailable (lit ''redis SET NX PX failed: '' @ re_text e) in
           (if is_transient_connection_error e then Transient store_error else Fatal store_error, st\<lparr>rs_world := w\<rparr>)))"

definition already_stale :: "int \<Rightarrow> int \<Rightarrow> replay_store_error" where
  "already_stale expires_at_unix now_unix =
     StoreUnavailable (lit ''replay request already stale: retain_until ('' @ write_integer expires_at_unix @
       lit '') is at or before now ('' @ write_integer now_unix @ lit '') '' @ [8212] @
       lit '' rejected pre-store (MCPS-08, fail closed) rather than recorded as Fresh'')"

definition redis_insert_if_absent :: "'w redis_driver \<Rightarrow> wait_quorum option \<Rightarrow> (bool, 'w redis_state) insert_fn" where
  "redis_insert_if_absent drv wait poisoned st key expires_at_unix trait_now =
     (let now_unix = rd_now drv (rs_world st) in
      if is_nonpositive_ttl expires_at_unix now_unix then (Err (already_stale expires_at_unix now_unix), st)
      else if poisoned then
        (Err (StoreUnavailable (lit ''redis connection mutex poisoned: poisoned lock: another task failed inside'')), st)
      else run_with_reconnect (bounded_connect drv) (set_attempt drv wait key (compute_ttl_ms expires_at_unix now_unix)) st)"

definition redis_durability_class :: "'w redis_state \<Rightarrow> replay_durability_class" where
  "redis_durability_class st = Durable"

section \<open>etcd\<close>

definition compute_ttl_secs :: "int \<Rightarrow> int \<Rightarrow> int" where
  "compute_ttl_secs expires_at_unix now_unix = max (saturating_sub expires_at_unix now_unix) 1"

definition build_lease_grant_body :: "int \<Rightarrow> json" where
  "build_lease_grant_body ttl_secs = json_object [(lit ''TTL'', Number (NInt ttl_secs)), (lit ''ID'', Number (NInt 0))]"

definition build_txn_body :: "ustring \<Rightarrow> ustring \<Rightarrow> int \<Rightarrow> json" where
  "build_txn_body key_b64 value_b64 lease_id =
     json_object
       [(lit ''compare'', Arr [json_object
          [(lit ''key'', Str key_b64), (lit ''target'', Str (lit ''CREATE'')), (lit ''result'', Str (lit ''EQUAL'')),
           (lit ''create_revision'', Str (lit ''0''))]]),
        (lit ''success'', Arr [json_object
          [(lit ''request_put'', json_object
             [(lit ''key'', Str key_b64), (lit ''value'', Str value_b64), (lit ''lease'', Str (write_integer lease_id))])]]),
        (lit ''failure'', Arr [])]"

definition parse_lease_id :: "ext \<Rightarrow> json \<Rightarrow> replay_store_error + int" where
  "parse_lease_id x resp =
     and_then (ok_or (StoreUnavailable (lit ''etcd lease/grant response missing ID'')) (json_get resp (lit ''ID''))) (\<lambda>raw.
     and_then (ok_or (StoreUnavailable (lit ''etcd lease/grant ID not an integer: '' @
           (case Option.bind (to_vec x raw) from_utf8 of Some s \<Rightarrow> s | None \<Rightarrow> [])))
         (case raw of Str s \<Rightarrow> parse_integer i64_min i64_max s | Number n \<Rightarrow> as_i64 n | _ \<Rightarrow> None)) (\<lambda>lease_id.
       if lease_id = 0 then Err (StoreUnavailable (lit ''etcd lease/grant returned lease id 0 (unleased put would never expire)''))
       else Ok lease_id))"

definition decision_from_txn :: "json \<Rightarrow> replay_decision" where
  "decision_from_txn resp = (case json_get resp (lit ''succeeded'') of Some (Bool True) \<Rightarrow> Fresh | _ \<Rightarrow> Replay)"

definition build_lease_revoke_body :: "int \<Rightarrow> json" where
  "build_lease_revoke_body lease_id = json_object [(lit ''ID'', Str (write_integer lease_id))]"

definition MAX_RESPONSE_BYTES :: nat where
  "MAX_RESPONSE_BYTES = 256 * 1024"

text \<open>The HTTP agent posts bytes to a URL and yields the body it can read, or the error of the call or of the read.\<close>

datatype http_reply = HttpBody bytes | HttpFailed ustring | HttpReadFailed ustring

definition ureq_post ::
    "ext \<Rightarrow> ('w \<Rightarrow> ustring \<Rightarrow> bytes \<Rightarrow> http_reply \<times> 'w) \<Rightarrow> ustring \<Rightarrow> 'w \<Rightarrow> ustring \<Rightarrow> json \<Rightarrow> (replay_store_error + json) \<times> 'w" where
  "ureq_post x agent base_url w path body =
     (case to_vec x body of
        None \<Rightarrow> (Err (StoreUnavailable (lit ''etcd POST '' @ path @ lit '' request serialize failed'')), w)
      | Some bytes \<Rightarrow>
          (case agent w (base_url @ [47] @ path) bytes of
             (HttpFailed e, w') \<Rightarrow> (Err (StoreUnavailable (lit ''etcd POST '' @ path @ lit '' failed: '' @ e)), w')
           | (HttpReadFailed e, w') \<Rightarrow> (Err (StoreUnavailable (lit ''etcd POST '' @ path @ lit '' read response failed: '' @ e)), w')
           | (HttpBody b, w') \<Rightarrow>
               (ok_or (StoreUnavailable (lit ''etcd POST '' @ path @ lit '' response not JSON''))
                  (from_slice x (take MAX_RESPONSE_BYTES b)), w')))"

text \<open>The transport seam of the store, its clock, and the standard Base64 encoder.\<close>

record 'w etcd_transport =
  et_now :: "'w \<Rightarrow> int"
  et_post :: "'w \<Rightarrow> ustring \<Rightarrow> json \<Rightarrow> (replay_store_error + json) \<times> 'w"
  et_b64 :: "bytes \<Rightarrow> ustring"

definition etcd_insert_if_absent :: "ext \<Rightarrow> 'w etcd_transport \<Rightarrow> (unit, 'w) insert_fn" where
  "etcd_insert_if_absent x et i w key expires_at_unix trait_now =
     (let now_unix = et_now et w in
      if is_stale_pre_store expires_at_unix now_unix then (Err (already_stale expires_at_unix now_unix), w)
      else
        case et_post et w (lit ''v3/lease/grant'') (build_lease_grant_body (compute_ttl_secs expires_at_unix now_unix)) of
          (Inl e, w1) \<Rightarrow> (Err e, w1)
        | (Inr lease_resp, w1) \<Rightarrow>
            (case parse_lease_id x lease_resp of
               Inl e \<Rightarrow> (Err e, w1)
             | Inr lease_id \<Rightarrow>
                 (case et_post et w1 (lit ''v3/kv/txn'') (build_txn_body (et_b64 et (utf8 key)) (et_b64 et [1]) lease_id) of
                    (Inl e, w2) \<Rightarrow> (Err e, w2)
                  | (Inr txn_resp, w2) \<Rightarrow>
                      (let decision = decision_from_txn txn_resp in
                       if decision = Replay
                       then (Ok decision, snd (et_post et w2 (lit ''v3/lease/revoke'') (build_lease_revoke_body lease_id)))
                       else (Ok decision, w2)))))"

definition etcd_durability_class :: "'w \<Rightarrow> replay_durability_class" where
  "etcd_durability_class w = Durable"

section \<open>What the servers promise\<close>

text \<open>
  Redis: \<open>SET NX PX\<close> answers with a value only when it set an absent key, for at least the
  requested time, which is below the limit the command accepts; no command drops a key that is
  held, and time does not run backwards. \<open>held\<close> is the second a key is kept to, \<open>expire\<close> the
  passing of time on the server.
\<close>

definition redis_documented :: "'w redis_driver \<Rightarrow> (int \<Rightarrow> 'w \<Rightarrow> 'w) \<Rightarrow> ('w \<Rightarrow> ustring \<rightharpoonup> int) \<Rightarrow> bool" where
  "redis_documented drv expire held \<longleftrightarrow>
     (\<forall>w key ttl ok w'. rd_set_nx_px drv w key ttl = (Ok (Some ok), w') \<longrightarrow>
        held w key = None \<and> ttl < 2 ^ 63 \<and> (\<exists>e. held w' key = Some e \<and> rd_now drv w + int (ttl div 1000) \<le> e)) \<and>
     (\<forall>w key ttl r w' k e. rd_set_nx_px drv w key ttl = (r, w') \<and> held w k = Some e \<longrightarrow> held w' k = Some e) \<and>
     (\<forall>w q t r w' k e. rd_wait drv w q t = (r, w') \<and> held w k = Some e \<longrightarrow> held w' k = Some e) \<and>
     (\<forall>w r w' k e. rd_connect drv w = (r, w') \<and> held w k = Some e \<longrightarrow> held w' k = Some e) \<and>
     (\<forall>w key ttl. rd_now drv w \<le> rd_now drv (snd (rd_set_nx_px drv w key ttl))) \<and>
     (\<forall>w. rd_now drv w \<le> rd_now drv (snd (rd_connect drv w))) \<and>
     (\<forall>w k e now. held w k = Some e \<and> now \<le> e \<longrightarrow> held (expire now w) k = Some e)"

text \<open>
  etcd: a granted lease is new, so no key is attached to it, and lives at least the requested time;
  a transaction whose compare held put an absent key under the lease, one whose compare failed
  changed nothing; a revoked lease takes only the keys attached to it.
\<close>

definition etcd_documented ::
    "ext \<Rightarrow> 'w etcd_transport \<Rightarrow> (int \<Rightarrow> 'w \<Rightarrow> 'w) \<Rightarrow> ('w \<Rightarrow> ustring \<rightharpoonup> int) \<Rightarrow> ('w \<Rightarrow> ustring \<rightharpoonup> ustring) \<Rightarrow> ('w \<Rightarrow> ustring \<rightharpoonup> int) \<Rightarrow> bool" where
  "etcd_documented x et expire held attached leases \<longleftrightarrow>
     (\<forall>w. 0 \<le> et_now et w) \<and>
     (\<forall>w ttl r w'. et_post et w (lit ''v3/lease/grant'') (build_lease_grant_body ttl) = (r, w') \<longrightarrow>
        held w' = held w \<and> attached w' = attached w \<and>
        (\<forall>resp l. r = Ok resp \<and> parse_lease_id x resp = Ok l \<longrightarrow>
           (\<exists>e. leases w' (write_integer l) = Some e \<and> et_now et w + ttl \<le> e) \<and> (\<forall>k. attached w' k \<noteq> Some (write_integer l)))) \<and>
     (\<forall>w key v l r w'. et_post et w (lit ''v3/kv/txn'') (build_txn_body (et_b64 et (utf8 key)) v l) = (r, w') \<longrightarrow>
        (\<forall>k e. held w k = Some e \<longrightarrow> held w' k = Some e) \<and>
        (\<forall>resp. r = Ok resp \<and> decision_from_txn resp = Fresh \<longrightarrow> held w key = None \<and> held w' key = leases w (write_integer l)) \<and>
        (\<forall>resp. r = Ok resp \<and> decision_from_txn resp = Replay \<longrightarrow> attached w' = attached w)) \<and>
     (\<forall>w l r w' k e. et_post et w (lit ''v3/lease/revoke'') (build_lease_revoke_body l) = (r, w') \<and>
        held w k = Some e \<and> attached w k \<noteq> Some (write_integer l) \<longrightarrow> held w' k = Some e) \<and>
     (\<forall>w k e now. held w k = Some e \<and> now \<le> e \<longrightarrow> held (expire now w) k = Some e)"

section \<open>The Redis store meets the contract\<close>

lemma ttl_covers_window:
  assumes "\<not> is_nonpositive_ttl d now" "compute_ttl_ms d now < 2 ^ 63"
  shows "d \<le> now + int (compute_ttl_ms d now div 1000)"
proof -
  let ?s = "saturating_sub d now"
  have pos: "?s > 0" using assms(1) by (simp add: is_nonpositive_ttl_def)
  have "int (compute_ttl_ms d now) = min (?s * 1000) (2 ^ 64 - 1)" using pos by (simp add: compute_ttl_ms_def)
  moreover have "int (compute_ttl_ms d now) < 2 ^ 63" using assms(2) by (simp add: nat_less_iff)
  ultimately have ms: "int (compute_ttl_ms d now) = ?s * 1000" "?s * 1000 < 2 ^ 63" by (simp_all add: min_def split: if_split_asm)
  then have "?s = d - now" using pos by (auto simp: saturating_sub_def sat_i64_def i64_max_def i64_min_def min_def max_def split: if_split_asm)
  moreover have "int (compute_ttl_ms d now div 1000) = ?s" using ms(1) by (simp add: zdiv_int)
  ultimately show ?thesis by simp
qed

lemma redis_documentedD:
  assumes "redis_documented drv expire held"
  shows "rd_set_nx_px drv w key ttl = (Ok (Some r), w') \<Longrightarrow> held w key = None"
    and "rd_set_nx_px drv w key ttl = (Ok (Some r), w') \<Longrightarrow> ttl < 2 ^ 63"
    and "rd_set_nx_px drv w key ttl = (Ok (Some r), w') \<Longrightarrow> \<exists>e. held w' key = Some e \<and> rd_now drv w + int (ttl div 1000) \<le> e"
    and "held w k = Some e \<Longrightarrow> held (snd (rd_set_nx_px drv w key ttl)) k = Some e"
    and "held w k = Some e \<Longrightarrow> held (snd (rd_wait drv w q t)) k = Some e"
    and "held w k = Some e \<Longrightarrow> held (snd (rd_connect drv w)) k = Some e"
    and "rd_now drv w \<le> rd_now drv (snd (rd_set_nx_px drv w key ttl))"
    and "rd_now drv w \<le> rd_now drv (snd (rd_connect drv w))"
    and "held w k = Some e \<Longrightarrow> now \<le> e \<Longrightarrow> held (expire now w) k = Some e"
  using assms unfolding redis_documented_def by (blast | metis prod.collapse)+

lemma set_attempt_world:
  "rs_world (snd (set_attempt drv wait key ttl st)) = snd (rd_set_nx_px drv (rs_world st) key ttl) \<or>
   (\<exists>q t. rs_world (snd (set_attempt drv wait key ttl st)) = snd (rd_wait drv (snd (rd_set_nx_px drv (rs_world st) key ttl)) q t))"
  by (auto simp: set_attempt_def Let_def split: prod.split sum.split option.split) (metis snd_conv)+

lemma connect_world: "rs_world (snd (bounded_connect drv st)) \<in> {rs_world st, snd (rd_connect drv (rs_world st))}"
  by (auto simp: bounded_connect_def split: prod.split sum.split connect_outcome.split)

lemma redis_keeps:
  assumes "redis_documented drv expire held" "held (rs_world st) k = Some e"
  shows "held (rs_world (snd (set_attempt drv wait key ttl st))) k = Some e"
    and "held (rs_world (snd (bounded_connect drv st))) k = Some e"
proof -
  note set = redis_documentedD(4) [OF assms, of key ttl]
  show "held (rs_world (snd (set_attempt drv wait key ttl st))) k = Some e"
    using set_attempt_world [of drv wait key ttl st] set redis_documentedD(5) [OF assms(1) set] by auto
  show "held (rs_world (snd (bounded_connect drv st))) k = Some e"
    using connect_world [of drv st] assms(2) redis_documentedD(6) [OF assms] by auto
qed

text \<open>An attempt that is fresh set an absent key, and the key is still there afterwards.\<close>

lemma attempt_fresh:
  assumes "redis_documented drv expire held" "set_attempt drv wait key ttl st = (Done Fresh, st')"
  shows "held (rs_world st) key = None" "ttl < 2 ^ 63"
    "\<exists>e. held (rs_world st') key = Some e \<and> rd_now drv (rs_world st) + int (ttl div 1000) \<le> e"
proof -
  from assms(2) obtain ok w where w: "rd_set_nx_px drv (rs_world st) key ttl = (Ok (Some ok), w)"
    "rs_world st' = w \<or> (\<exists>q t. rs_world st' = snd (rd_wait drv w q t))"
    by (auto simp: set_attempt_def Let_def classify_fresh_insert_wait_def split: prod.split_asm sum.split_asm option.split_asm if_split_asm)
      (metis snd_conv)+
  show "held (rs_world st) key = None" "ttl < 2 ^ 63" using redis_documentedD(1,2) [OF assms(1) w(1)] by auto
  from redis_documentedD(3) [OF assms(1) w(1)] obtain e where
    e: "held w key = Some e" "rd_now drv (rs_world st) + int (ttl div 1000) \<le> e" by blast
  then show "\<exists>e. held (rs_world st') key = Some e \<and> rd_now drv (rs_world st) + int (ttl div 1000) \<le> e"
    using w(2) redis_documentedD(5) [OF assms(1) e(1)] by auto
qed

lemma attempt_transient:
  "set_attempt drv wait key ttl st = (Transient e, st') \<Longrightarrow> rs_world st' = snd (rd_set_nx_px drv (rs_world st) key ttl)"
  by (auto simp: set_attempt_def Let_def classify_fresh_insert_wait_def split: prod.split_asm sum.split_asm option.split_asm if_split_asm)

lemma reconnect_cases:
  assumes "run_with_reconnect (bounded_connect drv) op st = (r, st')"
  obtains (one) "st' = snd (op st)" "r = Ok v \<longrightarrow> op st = (Done v, st')"
    | (refused) st1 e where "op st = (Transient e, st1)" "st' = snd (bounded_connect drv st1)" "\<exists>e. r = Err e"
    | (two) st1 e st2 where "op st = (Transient e, st1)" "st2 = snd (bounded_connect drv st1)" "st' = snd (op st2)"
        "r = Ok v \<longrightarrow> op st2 = (Done v, st')"
  using assms unfolding run_with_reconnect_def
  by (auto split: prod.split_asm op_attempt.split_asm sum.split_asm)

lemma redis_insert_cases:
  assumes "redis_insert_if_absent drv wait i st key d t = (r, st')"
  obtains (refused) "st' = st" "\<exists>e. r = Err e"
    | (run) "\<not> is_nonpositive_ttl d (rd_now drv (rs_world st))"
        "run_with_reconnect (bounded_connect drv) (set_attempt drv wait key (compute_ttl_ms d (rd_now drv (rs_world st)))) st = (r, st')"
  using assms by (auto simp: redis_insert_if_absent_def Let_def split: if_split_asm)

lemma redis_insert_keeps:
  assumes doc: "redis_documented drv expire held" and put: "redis_insert_if_absent drv wait i st key d t = (r, st')"
    and held: "held (rs_world st) k = Some e"
  shows "held (rs_world st') k = Some e"
  using put
proof (cases rule: redis_insert_cases)
  case run
  let ?op = "set_attempt drv wait key (compute_ttl_ms d (rd_now drv (rs_world st)))"
  note first = redis_keeps(1) [OF doc held, of wait key "compute_ttl_ms d (rd_now drv (rs_world st))"]
  from run(2) show ?thesis
  proof (cases rule: reconnect_cases [where v = Fresh])
    case one
    then show ?thesis using first by simp
  next
    case (refused st1 e')
    then show ?thesis using first redis_keeps(2) [OF doc, of st1] by simp
  next
    case (two st1 e' st2)
    have "held (rs_world st1) k = Some e" using first two(1) by simp
    from redis_keeps(2) [OF doc this] have "held (rs_world st2) k = Some e" using two(2) by simp
    from redis_keeps(1) [OF doc this] show ?thesis using two(3) by simp
  qed
qed (use held in simp)

lemma redis_insert_fresh:
  assumes doc: "redis_documented drv expire held" and put: "redis_insert_if_absent drv wait i st key d t = (Ok Fresh, st')"
  shows "held (rs_world st) key = None \<and> (\<exists>e. held (rs_world st') key = Some e \<and> d \<le> e)"
  using put
proof (cases rule: redis_insert_cases)
  case run
  let ?now = "rd_now drv (rs_world st)"
  let ?ttl = "compute_ttl_ms d ?now"
  have late: "held (rs_world s) key = None \<and> (\<exists>e. held (rs_world st') key = Some e \<and> d \<le> e)"
    if "set_attempt drv wait key ?ttl s = (Done Fresh, st')" "?now \<le> rd_now drv (rs_world s)" for s
    using attempt_fresh [OF doc that(1)] that(2) ttl_covers_window [OF run(1)] by fastforce
  from run(2) show ?thesis
  proof (cases rule: reconnect_cases [where v = Fresh])
    case one
    then show ?thesis using late by simp
  next
    case (refused st1 e)
    then show ?thesis by simp
  next
    case (two st1 e st2)
    have w1: "rs_world st1 = snd (rd_set_nx_px drv (rs_world st) key ?ttl)" by (rule attempt_transient [OF two(1)])
    have "rd_now drv (rs_world st1) \<le> rd_now drv (rs_world st2)"
      using connect_world [of drv st1] redis_documentedD(8) [OF doc, of "rs_world st1"] two(2) by auto
    then have "?now \<le> rd_now drv (rs_world st2)"
      using redis_documentedD(7) [OF doc, of "rs_world st" key ?ttl] w1 by simp
    with late [of st2] two(4) have l: "held (rs_world st2) key = None" "\<exists>e. held (rs_world st') key = Some e \<and> d \<le> e" by auto
    have "held (rs_world st) key = None"
    proof (rule ccontr)
      assume "held (rs_world st) key \<noteq> None"
      then obtain e' where "held (rs_world st) key = Some e'" by blast
      from redis_keeps(1) [OF doc this, of wait key ?ttl] two(1) have "held (rs_world st1) key = Some e'" by simp
      from redis_keeps(2) [OF doc this] two(2) l(1) show False by simp
    qed
    with l(2) show ?thesis by blast
  qed
qed auto

lemma redis_atomic:
  assumes "redis_documented drv expire held"
  shows "atomic_store (redis_insert_if_absent drv wait) (\<lambda>now st. st\<lparr>rs_world := expire now (rs_world st)\<rparr>) (\<lambda>st. held (rs_world st))"
proof
  show "held (rs_world st) key = None" if "redis_insert_if_absent drv wait i st key d t = (Ok Fresh, st')" for i st key d t st'
    using redis_insert_fresh [OF assms that] by blast
  show "\<exists>e. held (rs_world st') key = Some e \<and> d \<le> e"
    if "redis_insert_if_absent drv wait i st key d t = (Ok Fresh, st')" "d \<le> i64_max" for i st key d t st'
    using redis_insert_fresh [OF assms that(1)] by blast
  show "held (rs_world st') k = Some e"
    if "redis_insert_if_absent drv wait i st key d t = (r, st')" "held (rs_world st) k = Some e" for i st key d t r st' k e
    using redis_insert_keeps [OF assms that] .
  show "held (rs_world (st\<lparr>rs_world := expire now (rs_world st)\<rparr>)) k = Some e"
    if "held (rs_world st) k = Some e" "now \<le> e" for st k e now
    using redis_documentedD(9) [OF assms that] by simp
qed

section \<open>The etcd store meets the contract\<close>

lemma etcd_documentedD:
  assumes "etcd_documented x et expire held attached leases"
  shows "0 \<le> et_now et w"
    and "et_post et w (lit ''v3/lease/grant'') (build_lease_grant_body ttl) = (r, w') \<Longrightarrow> held w' = held w"
    and "et_post et w (lit ''v3/lease/grant'') (build_lease_grant_body ttl) = (Ok resp, w') \<Longrightarrow> parse_lease_id x resp = Ok l \<Longrightarrow>
      (\<exists>e. leases w' (write_integer l) = Some e \<and> et_now et w + ttl \<le> e) \<and> attached w' k \<noteq> Some (write_integer l)"
    and "et_post et w (lit ''v3/kv/txn'') (build_txn_body (et_b64 et (utf8 key)) v l) = (r, w') \<Longrightarrow> held w k = Some e \<Longrightarrow> held w' k = Some e"
    and "et_post et w (lit ''v3/kv/txn'') (build_txn_body (et_b64 et (utf8 key)) v l) = (Ok resp, w') \<Longrightarrow>
      decision_from_txn resp = Fresh \<Longrightarrow> held w key = None \<and> held w' key = leases w (write_integer l)"
    and "et_post et w (lit ''v3/kv/txn'') (build_txn_body (et_b64 et (utf8 key)) v l) = (Ok resp, w') \<Longrightarrow>
      decision_from_txn resp = Replay \<Longrightarrow> attached w' = attached w"
    and "held w k = Some e \<Longrightarrow> attached w k \<noteq> Some (write_integer l) \<Longrightarrow>
      held (snd (et_post et w (lit ''v3/lease/revoke'') (build_lease_revoke_body l))) k = Some e"
    and "held w k = Some e \<Longrightarrow> now \<le> e \<Longrightarrow> held (expire now w) k = Some e"
proof -
  note c = assms [unfolded etcd_documented_def]
  note grant = c [THEN conjunct2, THEN conjunct1, rule_format] and txn = c [THEN conjunct2, THEN conjunct2, THEN conjunct1, rule_format]
    and rest = c [THEN conjunct2, THEN conjunct2, THEN conjunct2]
  show "0 \<le> et_now et w" using c [THEN conjunct1] by simp
  show "held w' = held w" if "et_post et w (lit ''v3/lease/grant'') (build_lease_grant_body ttl) = (r, w')"
    using grant [OF that] by simp
  show "(\<exists>e. leases w' (write_integer l) = Some e \<and> et_now et w + ttl \<le> e) \<and> attached w' k \<noteq> Some (write_integer l)"
    if "et_post et w (lit ''v3/lease/grant'') (build_lease_grant_body ttl) = (Ok resp, w')" "parse_lease_id x resp = Ok l"
    using grant [OF that(1)] that(2) by auto
  show "held w' k = Some e" if "et_post et w (lit ''v3/kv/txn'') (build_txn_body (et_b64 et (utf8 key)) v l) = (r, w')" "held w k = Some e"
    using txn [OF that(1)] that(2) by simp
  show "held w key = None \<and> held w' key = leases w (write_integer l)"
    if "et_post et w (lit ''v3/kv/txn'') (build_txn_body (et_b64 et (utf8 key)) v l) = (Ok resp, w')" "decision_from_txn resp = Fresh"
    using txn [OF that(1)] that(2) by simp
  show "attached w' = attached w"
    if "et_post et w (lit ''v3/kv/txn'') (build_txn_body (et_b64 et (utf8 key)) v l) = (Ok resp, w')" "decision_from_txn resp = Replay"
    using txn [OF that(1)] that(2) by simp
  show "held (snd (et_post et w (lit ''v3/lease/revoke'') (build_lease_revoke_body l))) k = Some e"
    if "held w k = Some e" "attached w k \<noteq> Some (write_integer l)"
    using rest [THEN conjunct1, rule_format, of w l] that by (metis prod.collapse)
  show "held (expire now w) k = Some e" if "held w k = Some e" "now \<le> e"
    using rest [THEN conjunct2, rule_format] that by simp
qed

lemma etcd_insert_cases:
  assumes "etcd_insert_if_absent x et i w key d t = (r, w')"
  obtains (stale) "w' = w" "\<exists>e. r = Err e"
    | (ungranted) g where "et_post et w (lit ''v3/lease/grant'') (build_lease_grant_body (compute_ttl_secs d (et_now et w))) = (g, w')" "\<exists>e. r = Err e"
    | (failed) resp w1 l g where "et_post et w (lit ''v3/lease/grant'') (build_lease_grant_body (compute_ttl_secs d (et_now et w))) = (Ok resp, w1)"
        "et_post et w1 (lit ''v3/kv/txn'') (build_txn_body (et_b64 et (utf8 key)) (et_b64 et [1]) l) = (g, w')" "\<exists>e. r = Err e"
    | (decided) resp w1 l resp' w2 where "\<not> is_stale_pre_store d (et_now et w)"
        "et_post et w (lit ''v3/lease/grant'') (build_lease_grant_body (compute_ttl_secs d (et_now et w))) = (Ok resp, w1)"
        "parse_lease_id x resp = Ok l"
        "et_post et w1 (lit ''v3/kv/txn'') (build_txn_body (et_b64 et (utf8 key)) (et_b64 et [1]) l) = (Ok resp', w2)"
        "r = Ok (decision_from_txn resp')"
        "w' = (if decision_from_txn resp' = Replay then snd (et_post et w2 (lit ''v3/lease/revoke'') (build_lease_revoke_body l)) else w2)"
  using assms unfolding etcd_insert_if_absent_def Let_def
  by (auto split: if_split_asm prod.split_asm sum.split_asm)

lemma etcd_insert_fresh:
  assumes doc: "etcd_documented x et expire held attached leases" and put: "etcd_insert_if_absent x et i w key d t = (Ok Fresh, w')"
    and d: "d \<le> i64_max"
  shows "held w key = None \<and> (\<exists>e. held w' key = Some e \<and> d \<le> e)"
  using put
proof (cases rule: etcd_insert_cases)
  case (decided resp w1 l resp' w2)
  let ?ttl = "compute_ttl_secs d (et_now et w)"
  have "d - et_now et w \<le> i64_max" using d etcd_documentedD(1) [OF doc, of w] by simp
  then have "d \<le> et_now et w + ?ttl" by (auto simp: compute_ttl_secs_def i64_simps)
  moreover obtain e where "leases w1 (write_integer l) = Some e" "et_now et w + ?ttl \<le> e"
    using etcd_documentedD(3) [OF doc decided(2,3)] by blast
  moreover have "held w1 key = None \<and> held w2 key = leases w1 (write_integer l)"
    using etcd_documentedD(5) [OF doc decided(4)] decided(5) by simp
  ultimately show ?thesis using etcd_documentedD(2) [OF doc decided(2)] decided(5,6) by auto
qed auto

lemma etcd_insert_keeps:
  assumes doc: "etcd_documented x et expire held attached leases" and put: "etcd_insert_if_absent x et i w key d t = (r, w')"
    and held: "held w k = Some e"
  shows "held w' k = Some e"
  using put
proof (cases rule: etcd_insert_cases)
  case (ungranted g)
  then show ?thesis using etcd_documentedD(2) [OF doc ungranted(1)] held by simp
next
  case (failed resp w1 l g)
  have "held w1 k = Some e" using etcd_documentedD(2) [OF doc failed(1)] held by simp
  then show ?thesis by (rule etcd_documentedD(4) [OF doc failed(2)])
next
  case (decided resp w1 l resp' w2)
  have "held w1 k = Some e" using etcd_documentedD(2) [OF doc decided(2)] held by simp
  then have h: "held w2 k = Some e" by (rule etcd_documentedD(4) [OF doc decided(4)])
  show ?thesis
  proof (cases "decision_from_txn resp' = Replay")
    case True
    have "attached w2 k \<noteq> Some (write_integer l)"
      using etcd_documentedD(6) [OF doc decided(4) True] etcd_documentedD(3) [OF doc decided(2,3)] by simp
    with etcd_documentedD(7) [OF doc h] show ?thesis using decided(6) True by simp
  next
    case False
    then show ?thesis using h decided(6) by simp
  qed
qed (use held in simp)

lemma etcd_atomic:
  assumes "etcd_documented x et expire held attached leases"
  shows "atomic_store (etcd_insert_if_absent x et) expire held"
proof
  show "held w key = None" if "etcd_insert_if_absent x et i w key d t = (Ok Fresh, w')" for i w key d t w'
    using that
  proof (cases rule: etcd_insert_cases)
    case (decided resp w1 l resp' w2)
    then show ?thesis using etcd_documentedD(2) [OF assms decided(2)] etcd_documentedD(5) [OF assms decided(4)] by simp
  qed auto
  show "\<exists>e. held w' key = Some e \<and> d \<le> e"
    if "etcd_insert_if_absent x et i w key d t = (Ok Fresh, w')" "d \<le> i64_max" for i w key d t w'
    using etcd_insert_fresh [OF assms that] by blast
  show "held w' k = Some e"
    if "etcd_insert_if_absent x et i w key d t = (r, w')" "held w k = Some e" for i w key d t r w' k e
    using etcd_insert_keeps [OF assms that] .
  show "held (expire now w) k = Some e" if "held w k = Some e" "now \<le> e" for w k e now
    using etcd_documentedD(8) [OF assms that] .
qed

section \<open>Instances of the servers\<close>

text \<open>A Redis server with its clock and the keys it holds.\<close>

record sample_redis_world =
  sr_clock :: int
  sr_keys :: "(ustring \<times> int) list"

definition sample_redis :: "sample_redis_world redis_driver" where
  "sample_redis =
     \<lparr>rd_now = sr_clock,
      rd_set_nx_px = (\<lambda>w key ttl.
        if map_of (sr_keys w) key \<noteq> None then (Ok None, w)
        else if ttl < 2 ^ 63 then (Ok (Some (lit ''OK'')), w\<lparr>sr_keys := (key, sr_clock w + int (ttl div 1000)) # sr_keys w\<rparr>)
        else (Err \<lparr>re_io = False, re_dropped = False, re_refusal = False, re_unrecoverable = False, re_text = lit ''expire''\<rparr>, w)),
      rd_wait = (\<lambda>w q t. (Ok 1, w)),
      rd_connect = (\<lambda>w. (Connected, w))\<rparr>"

definition sample_redis_state :: "sample_redis_world redis_state" where
  "sample_redis_state = \<lparr>rs_world = \<lparr>sr_clock = 1000, sr_keys = []\<rparr>, rs_inflight_connects = 0\<rparr>"

definition sample_redis_expire :: "int \<Rightarrow> sample_redis_world \<Rightarrow> sample_redis_world" where
  "sample_redis_expire now w = w\<lparr>sr_keys := filter (\<lambda>(_, e). e \<ge> now) (sr_keys w)\<rparr>"

lemma sample_redis_documented: "redis_documented sample_redis sample_redis_expire (\<lambda>w. map_of (sr_keys w))"
  unfolding redis_documented_def sample_redis_def sample_redis_expire_def
  by (auto simp: map_of_filter_deadline split: if_split_asm)

text \<open>An etcd server: the keys with the lease each is attached to, and the leases.\<close>

record sample_etcd_world =
  se_keys :: "(ustring \<times> ustring) list"
  se_leases :: "(ustring \<times> int) list"

definition sample_etcd_lease :: "sample_etcd_world \<Rightarrow> ustring" where
  "sample_etcd_lease w = dec (Suc (sum_list (map (\<lambda>(k, l). digits_value 0 l) (se_keys w))))"

definition sample_etcd_held :: "sample_etcd_world \<Rightarrow> ustring \<rightharpoonup> int" where
  "sample_etcd_held w k = Option.bind (map_of (se_keys w) (utf8 k)) (map_of (se_leases w))"

definition sample_etcd_attached :: "sample_etcd_world \<Rightarrow> ustring \<rightharpoonup> ustring" where
  "sample_etcd_attached w k = map_of (se_keys w) (utf8 k)"

definition sample_put :: "json \<Rightarrow> json option" where
  "sample_put body =
     (case json_get body (lit ''success'') of Some (Arr [req]) \<Rightarrow> json_get req (lit ''request_put'') | _ \<Rightarrow> None)"

definition sample_str :: "json \<Rightarrow> ustring \<Rightarrow> ustring" where
  "sample_str body name = (case json_get body name of Some (Str s) \<Rightarrow> s | _ \<Rightarrow> [])"

definition sample_etcd_post :: "sample_etcd_world \<Rightarrow> ustring \<Rightarrow> json \<Rightarrow> (replay_store_error + json) \<times> sample_etcd_world" where
  "sample_etcd_post w path body =
     (if path = lit ''v3/lease/grant'' then
        (let l = sample_etcd_lease w; ttl = (case json_get body (lit ''TTL'') of Some (Number (NInt i)) \<Rightarrow> i | _ \<Rightarrow> 0) in
         if map_of (se_leases w) l = None
         then (Ok (Obj [(lit ''ID'', Str l)]), w\<lparr>se_leases := (l, 1000 + ttl) # se_leases w\<rparr>)
         else (Err (StoreUnavailable []), w))
      else if path = lit ''v3/kv/txn'' then
        (case sample_put body of
           None \<Rightarrow> (Err (StoreUnavailable []), w)
         | Some put \<Rightarrow>
             (let key = sample_str put (lit ''key'') in
              if map_of (se_keys w) key \<noteq> None then (Ok (Obj []), w)
              else (Ok (Obj [(lit ''succeeded'', Bool True)]), w\<lparr>se_keys := (key, sample_str put (lit ''lease'')) # se_keys w\<rparr>)))
      else (Ok (Obj []), w\<lparr>se_keys := filter (\<lambda>(k, l). l \<noteq> sample_str body (lit ''ID'')) (se_keys w)\<rparr>))"

definition sample_etcd :: "sample_etcd_world etcd_transport" where
  "sample_etcd = \<lparr>et_now = (\<lambda>w. 1000), et_post = sample_etcd_post, et_b64 = (\<lambda>bs. bs)\<rparr>"

definition sample_etcd_expire :: "int \<Rightarrow> sample_etcd_world \<Rightarrow> sample_etcd_world" where
  "sample_etcd_expire now w =
     w\<lparr>se_keys := filter (\<lambda>(k, l). case map_of (se_leases w) l of Some e \<Rightarrow> e \<ge> now | None \<Rightarrow> False) (se_keys w)\<rparr>"

lemma sample_lease_new: "map_of (se_keys w) k \<noteq> Some (sample_etcd_lease w)"
proof
  assume "map_of (se_keys w) k = Some (sample_etcd_lease w)"
  then have "(k, sample_etcd_lease w) \<in> set (se_keys w)" by (rule map_of_SomeD)
  then have "digits_value 0 (sample_etcd_lease w) \<in> set (map (\<lambda>(k, l). digits_value 0 l) (se_keys w))" by force
  then have "digits_value 0 (sample_etcd_lease w) \<le> sum_list (map (\<lambda>(k, l). digits_value 0 l) (se_keys w))"
    by (rule member_le_sum_list) simp
  then show False by (simp add: sample_etcd_lease_def)
qed

lemma sample_paths: "lit ''v3/kv/txn'' \<noteq> lit ''v3/lease/grant''" "lit ''v3/lease/revoke'' \<noteq> lit ''v3/lease/grant''"
  "lit ''v3/lease/revoke'' \<noteq> lit ''v3/kv/txn''"
  by (simp_all add: lit_def)

lemma sample_bodies:
  "json_get (build_lease_grant_body ttl) (lit ''TTL'') = Some (Number (NInt ttl))"
  "\<exists>put. sample_put (build_txn_body k v l) = Some put \<and> sample_str put (lit ''key'') = k \<and> sample_str put (lit ''lease'') = write_integer l"
  "sample_str (build_lease_revoke_body l) (lit ''ID'') = write_integer l"
  by (simp_all add: build_lease_grant_body_def build_txn_body_def build_lease_revoke_body_def sample_put_def sample_str_def json_object_def)

lemma sample_lease_read: "parse_lease_id x (Obj [(lit ''ID'', Str (dec n))]) = Ok l \<Longrightarrow> write_integer l = dec n"
proof -
  assume "parse_lease_id x (Obj [(lit ''ID'', Str (dec n))]) = Ok l"
  then have p: "parse_integer i64_min i64_max (dec n) = Some l" by (auto simp: parse_lease_id_def result_simps split: if_split_asm)
  have "hd (dec n) \<noteq> 45" "hd (dec n) \<noteq> 43" using dec_range [of "hd (dec n)" n] by auto
  with p show ?thesis by (auto simp: parse_integer_def Let_def write_integer_def split: if_split_asm)
qed

lemma sample_etcd_grant:
  assumes "et_post sample_etcd w (lit ''v3/lease/grant'') (build_lease_grant_body ttl) = (r, w')"
  shows "se_keys w' = se_keys w" "sample_etcd_held w' = sample_etcd_held w"
    "r = Ok resp \<Longrightarrow> parse_lease_id x resp = Ok l \<Longrightarrow> write_integer l = sample_etcd_lease w \<and>
      map_of (se_leases w') (write_integer l) = Some (1000 + ttl)"
proof -
  let ?l = "sample_etcd_lease w"
  from assms have c: "(\<exists>e. r = Err e) \<and> w' = w \<or>
      r = Ok (Obj [(lit ''ID'', Str ?l)]) \<and> w' = w\<lparr>se_leases := (?l, 1000 + ttl) # se_leases w\<rparr>"
    by (auto simp: sample_etcd_def sample_etcd_post_def Let_def sample_bodies split: if_split_asm)
  then show "se_keys w' = se_keys w" by auto
  have "Option.bind (map_of (se_keys w) k) (map_of ((?l, 1000 + ttl) # se_leases w)) = Option.bind (map_of (se_keys w) k) (map_of (se_leases w))" for k
    using sample_lease_new [of w k] by (cases "map_of (se_keys w) k") auto
  then show "sample_etcd_held w' = sample_etcd_held w" using c by (auto simp: sample_etcd_held_def fun_eq_iff)
  show "write_integer l = ?l \<and> map_of (se_leases w') (write_integer l) = Some (1000 + ttl)" if "r = Ok resp" "parse_lease_id x resp = Ok l"
    using c that sample_lease_read [of x _ l] by (auto simp: sample_etcd_lease_def)
qed

lemma sample_etcd_txn:
  assumes "et_post sample_etcd w (lit ''v3/kv/txn'') (build_txn_body (utf8 key) v l) = (r, w')"
  shows "map_of (se_keys w) (utf8 key) \<noteq> None \<and> r = Ok (Obj []) \<and> w' = w \<or>
    map_of (se_keys w) (utf8 key) = None \<and> r = Ok (Obj [(lit ''succeeded'', Bool True)]) \<and>
      w' = w\<lparr>se_keys := (utf8 key, write_integer l) # se_keys w\<rparr>"
  using assms sample_bodies(2) [of "utf8 key" v l]
  by (auto simp: sample_etcd_def sample_etcd_post_def Let_def sample_paths split: if_split_asm)

lemma map_of_filter_value: "map_of al k = Some v \<Longrightarrow> P v \<Longrightarrow> map_of (filter (\<lambda>(k, v). P v) al) k = Some v"
  by (induction al) (auto split: if_split_asm)

lemma sample_etcd_documented:
  "etcd_documented x sample_etcd sample_etcd_expire sample_etcd_held sample_etcd_attached (\<lambda>w. map_of (se_leases w))"
  unfolding etcd_documented_def
proof (intro conjI allI impI; (elim conjE)?)
  show "0 \<le> et_now sample_etcd w" for w by (simp add: sample_etcd_def)
next
  fix w ttl r w'
  assume g: "et_post sample_etcd w (lit ''v3/lease/grant'') (build_lease_grant_body ttl) = (r, w')"
  show "sample_etcd_held w' = sample_etcd_held w" by (rule sample_etcd_grant(2) [OF g])
  show "sample_etcd_attached w' = sample_etcd_attached w" using sample_etcd_grant(1) [OF g] by (simp add: sample_etcd_attached_def fun_eq_iff)
  fix resp l k
  assume "r = Ok resp" "parse_lease_id x resp = Ok l"
  note n = sample_etcd_grant(3) [OF g this]
  show "\<exists>e. map_of (se_leases w') (write_integer l) = Some e \<and> et_now sample_etcd w + ttl \<le> e"
    using n by (auto simp: sample_etcd_def)
  show "sample_etcd_attached w' k \<noteq> Some (write_integer l)"
    using n sample_lease_new [of w "utf8 k"] sample_etcd_grant(1) [OF g] by (simp add: sample_etcd_attached_def)
next
  fix w key v l r w'
  assume "et_post sample_etcd w (lit ''v3/kv/txn'') (build_txn_body (et_b64 sample_etcd (utf8 key)) v l) = (r, w')"
  then have t: "map_of (se_keys w) (utf8 key) \<noteq> None \<and> r = Ok (Obj []) \<and> w' = w \<or>
    map_of (se_keys w) (utf8 key) = None \<and> r = Ok (Obj [(lit ''succeeded'', Bool True)]) \<and>
      w' = w\<lparr>se_keys := (utf8 key, write_integer l) # se_keys w\<rparr>" by (intro sample_etcd_txn) (simp add: sample_etcd_def)
  show "sample_etcd_held w' k = Some e" if "sample_etcd_held w k = Some e" for k e
    using t that by (auto simp: sample_etcd_held_def split: Option.bind_split_asm)
  fix resp
  assume r: "r = Ok resp"
  show "sample_etcd_held w key = None" "sample_etcd_held w' key = map_of (se_leases w) (write_integer l)"
    if "decision_from_txn resp = Fresh" using t r that by (auto simp: sample_etcd_held_def decision_from_txn_def)
  show "sample_etcd_attached w' = sample_etcd_attached w" if "decision_from_txn resp = Replay"
    using t r that by (auto simp: decision_from_txn_def)
next
  fix w l r w' k e
  assume "et_post sample_etcd w (lit ''v3/lease/revoke'') (build_lease_revoke_body l) = (r, w')"
    "sample_etcd_held w k = Some e" "sample_etcd_attached w k \<noteq> Some (write_integer l)"
  then show "sample_etcd_held w' k = Some e"
    by (auto simp: sample_etcd_def sample_etcd_post_def sample_paths sample_bodies sample_etcd_held_def sample_etcd_attached_def
        split: Option.bind_split_asm dest: map_of_filter_value [where P = "\<lambda>s. s \<noteq> write_integer l"])
next
  fix w k e now
  assume "sample_etcd_held w k = Some e" "now \<le> e"
  then show "sample_etcd_held (sample_etcd_expire now w) k = Some e"
    by (auto simp: sample_etcd_held_def sample_etcd_expire_def split: Option.bind_split_asm
        dest: map_of_filter_value [where P = "\<lambda>l. case map_of (se_leases w) l of Some e \<Rightarrow> e \<ge> now | None \<Rightarrow> False"])
qed

section \<open>Properties\<close>




lemma sample_etcd_inserts:
  "\<exists>w. etcd_insert_if_absent sample_ext sample_etcd () \<lparr>se_keys = [], se_leases = []\<rparr> key 1330 0 = (Ok Fresh, w)"
proof -
  let ?w = "\<lparr>se_keys = [], se_leases = []\<rparr>"
  have l: "sample_etcd_lease ?w = dec 1" by (simp add: sample_etcd_lease_def)
  have "et_post sample_etcd ?w (lit ''v3/lease/grant'') (build_lease_grant_body 330) = (Ok (Obj [(lit ''ID'', Str (dec 1))]), ?w\<lparr>se_leases := [(dec 1, 1330)]\<rparr>)"
    using l by (simp add: sample_etcd_def sample_etcd_post_def sample_bodies Let_def)
  moreover have "parse_lease_id sample_ext (Obj [(lit ''ID'', Str (dec 1))]) = Ok 1"
    using parse_integer_dec [of i64_min 1 i64_max] by (simp add: parse_lease_id_def i64_simps)
  moreover have "\<exists>w'. et_post sample_etcd (?w\<lparr>se_leases := [(dec 1, 1330)]\<rparr>) (lit ''v3/kv/txn'') (build_txn_body (utf8 key) (et_b64 sample_etcd [1]) 1) =
      (Ok (Obj [(lit ''succeeded'', Bool True)]), w')"
  proof -
    obtain r w' where t: "et_post sample_etcd (?w\<lparr>se_leases := [(dec 1, 1330)]\<rparr>) (lit ''v3/kv/txn'') (build_txn_body (utf8 key) (et_b64 sample_etcd [1]) 1) = (r, w')"
      by fastforce
    from sample_etcd_txn [OF t] t show ?thesis by auto
  qed
  ultimately show ?thesis
    by (auto simp: etcd_insert_if_absent_def is_stale_pre_store_def compute_ttl_secs_def i64_simps decision_from_txn_def
        sample_etcd_def [THEN arg_cong [of _ _ et_now]] sample_etcd_def [THEN arg_cong [of _ _ et_b64]])
qed


end
