(* ===== verification/Public_Hosts.thy ===== *)
theory Public_Hosts
  imports Transport "HOL-Library.Word"
begin

unbundle bit_operations_syntax

text \<open>
  The address guard of \<open>mcps-proxy/src/ocsp.rs\<close>: a responder URL taken from a client certificate is
  fetched only when its scheme is HTTP and its host is not a way of writing an address inside the
  proxy's own network. The strict literal parser of \<open>std::net\<close> is modelled group by group, the
  loose \<open>inet_aton\<close> reader as the code writes it on \<open>u32\<close>, and both are related to the arithmetic
  reading of a numeric host.
\<close>

section \<open>Addresses\<close>

datatype ip_addr = V4 "32 word" | V6 "16 word list"

definition octet :: "nat \<Rightarrow> 32 word \<Rightarrow> nat" where
  "octet k a = unat (drop_bit (24 - 8 * k) a AND 0xFF)"

definition v4_is_loopback :: "32 word \<Rightarrow> bool" where
  "v4_is_loopback a \<longleftrightarrow> octet 0 a = 127"

definition v4_is_private :: "32 word \<Rightarrow> bool" where
  "v4_is_private a \<longleftrightarrow> octet 0 a = 10 \<or> octet 0 a = 172 \<and> 16 \<le> octet 1 a \<and> octet 1 a \<le> 31 \<or>
     octet 0 a = 192 \<and> octet 1 a = 168"

definition v4_is_link_local :: "32 word \<Rightarrow> bool" where
  "v4_is_link_local a \<longleftrightarrow> octet 0 a = 169 \<and> octet 1 a = 254"

definition v4_is_multicast :: "32 word \<Rightarrow> bool" where
  "v4_is_multicast a \<longleftrightarrow> 224 \<le> octet 0 a \<and> octet 0 a \<le> 239"

definition ipv4_is_public :: "32 word \<Rightarrow> bool" where
  "ipv4_is_public a \<longleftrightarrow>
     \<not> (v4_is_loopback a \<or> v4_is_private a \<or> v4_is_link_local a \<or> a = 0 \<or> a = 0xFFFFFFFF \<or> v4_is_multicast a)"

fun v6_to_ipv4 :: "16 word list \<Rightarrow> 32 word option" where
  "v6_to_ipv4 [s0, s1, s2, s3, s4, s5, ab, cd] =
     (if s0 = 0 \<and> s1 = 0 \<and> s2 = 0 \<and> s3 = 0 \<and> s4 = 0 \<and> (s5 = 0 \<or> s5 = 0xFFFF)
      then Some (push_bit 16 (ucast ab) OR ucast cd) else None)"
| "v6_to_ipv4 _ = None"

definition ipv6_is_public :: "16 word list \<Rightarrow> bool" where
  "ipv6_is_public segs =
     (if segs = [0, 0, 0, 0, 0, 0, 0, 1] \<or> segs = replicate 8 0 \<or> hd segs AND 0xFF00 = 0xFF00 then False
      else case v6_to_ipv4 segs of
        Some v4 \<Rightarrow> ipv4_is_public v4
      | None \<Rightarrow> hd segs AND 0xFFC0 \<noteq> 0xFE80 \<and> hd segs AND 0xFE00 \<noteq> 0xFC00)"

primrec resolved_ip_is_public :: "ip_addr \<Rightarrow> bool" where
  "resolved_ip_is_public (V4 v4) = ipv4_is_public v4"
| "resolved_ip_is_public (V6 v6) = ipv6_is_public v6"

section \<open>Address literals of the standard library\<close>

text \<open>\<open>char::to_digit\<close> and \<open>from_str_radix\<close> for the radices in use.\<close>

definition digit_of :: "uchar \<Rightarrow> nat" where
  "digit_of c = (if 48 \<le> c \<and> c \<le> 57 then c - 48 else if 97 \<le> c \<and> c \<le> 122 then c - 87
     else if 65 \<le> c \<and> c \<le> 90 then c - 55 else 36)"

definition radix_value :: "nat \<Rightarrow> ustring \<Rightarrow> nat" where
  "radix_value radix s = foldl (\<lambda>v c. v * radix + digit_of c) 0 s"

definition read_number :: "nat \<Rightarrow> nat \<Rightarrow> bool \<Rightarrow> nat \<Rightarrow> ustring \<Rightarrow> (nat \<times> ustring) option" where
  "read_number radix max_digits allow_zero_prefix bound s =
     (let ds = takeWhile (\<lambda>c. digit_of c < radix) s in
      if ds = [] \<or> length ds > max_digits \<or> \<not> allow_zero_prefix \<and> hd ds = 48 \<and> length ds > 1 \<or> radix_value radix ds \<ge> bound
      then None else Some (radix_value radix ds, drop (length ds) s))"

definition read_separator :: "uchar \<Rightarrow> nat \<Rightarrow> (ustring \<Rightarrow> ('v \<times> ustring) option) \<Rightarrow> ustring \<Rightarrow> ('v \<times> ustring) option" where
  "read_separator sep index inner s =
     (if index = 0 then inner s else case s of c # r \<Rightarrow> if c = sep then inner r else None | [] \<Rightarrow> None)"

fun read_octets :: "nat \<Rightarrow> nat \<Rightarrow> ustring \<Rightarrow> (nat list \<times> ustring) option" where
  "read_octets 0 i s = Some ([], s)"
| "read_octets (Suc left) i s =
     (case read_separator 46 i (read_number 10 3 False 256) s of
        None \<Rightarrow> None
      | Some (g, r) \<Rightarrow> map_option (\<lambda>(gs, r'). (g # gs, r')) (read_octets left (Suc i) r))"

definition v4_from_octets :: "nat list \<Rightarrow> 32 word" where
  "v4_from_octets gs = of_nat (foldl (\<lambda>n b. n * 256 + b) 0 gs)"

definition read_ipv4_addr :: "ustring \<Rightarrow> (32 word \<times> ustring) option" where
  "read_ipv4_addr s = map_option (\<lambda>(gs, r). (v4_from_octets gs, r)) (read_octets 4 0 s)"

fun read_groups :: "nat \<Rightarrow> nat \<Rightarrow> ustring \<Rightarrow> 16 word list \<times> bool \<times> ustring" where
  "read_groups 0 i s = ([], False, s)"
| "read_groups (Suc left) i s =
     (case (if left \<ge> 1 then read_separator 58 i read_ipv4_addr s else None) of
        Some (v4, r) \<Rightarrow> ([ucast (drop_bit 16 v4), ucast v4], True, r)
      | None \<Rightarrow>
          (case read_separator 58 i (read_number 16 4 True 65536) s of
             None \<Rightarrow> ([], False, s)
           | Some (g, r) \<Rightarrow> (let (gs, v4, r') = read_groups left (Suc i) r in (of_nat g # gs, v4, r'))))"

definition read_ipv6_addr :: "ustring \<Rightarrow> (16 word list \<times> ustring) option" where
  "read_ipv6_addr s =
     (let (head, head_ipv4, r) = read_groups 8 0 s in
      if length head = 8 then Some (head, r)
      else if head_ipv4 then None
      else case r of
        c # d # r' \<Rightarrow>
          if c = 58 \<and> d = 58
          then let (tail, _, r'') = read_groups (8 - (length head + 1)) 0 r' in
            Some (head @ replicate (8 - length head - length tail) 0 @ tail, r'')
          else None
      | _ \<Rightarrow> None)"

definition parse_ip :: "ustring \<Rightarrow> ip_addr option" where
  "parse_ip s =
     (case read_ipv4_addr s of
        Some (v4, r) \<Rightarrow> if r = [] then Some (V4 v4) else None
      | None \<Rightarrow>
          (case read_ipv6_addr s of Some (v6, r) \<Rightarrow> if r = [] then Some (V6 v6) else None | None \<Rightarrow> None))"

section \<open>The guard\<close>

definition eq_ignore_ascii_case :: "ustring \<Rightarrow> ustring \<Rightarrow> bool" where
  "eq_ignore_ascii_case a b \<longleftrightarrow> to_ascii_lowercase a = to_ascii_lowercase b"

definition responder_scheme_allowed :: "ustring \<Rightarrow> bool" where
  "responder_scheme_allowed url =
     (case split_once 58 url of
        Some (scheme, _) \<Rightarrow> eq_ignore_ascii_case scheme (lit ''http'') \<or> eq_ignore_ascii_case scheme (lit ''https'')
      | None \<Rightarrow> False)"

fun split_once_str :: "ustring \<Rightarrow> ustring \<Rightarrow> (ustring \<times> ustring) option" where
  "split_once_str pat [] = (if pat = [] then Some ([], []) else None)"
| "split_once_str pat (c # s) =
     (case strip_prefix pat (c # s) of
        Some rest \<Rightarrow> Some ([], rest)
      | None \<Rightarrow> map_option (\<lambda>(a, b). (c # a, b)) (split_once_str pat s))"

definition extract_url_host :: "ustring \<Rightarrow> ustring option" where
  "extract_url_host url =
     Option.bind (split_once_str (lit ''://'') url) (\<lambda>(_, after_scheme).
       let authority = takeWhile (\<lambda>c. c \<notin> {47, 63, 35}) after_scheme;
           hostport = rev (takeWhile (\<lambda>c. c \<noteq> 64) (rev authority)) in
       if hostport = [] then None
       else case strip_prefix [91] hostport of
         Some rest \<Rightarrow> if 93 \<in> set rest then Some (takeWhile (\<lambda>c. c \<noteq> 93) rest) else None
       | None \<Rightarrow> (let host = takeWhile (\<lambda>c. c \<noteq> 58) hostport in if host = [] then None else Some host))"

definition parse_inet_aton_part :: "ustring \<Rightarrow> nat option" where
  "parse_inet_aton_part part =
     (let (radix, digits) =
        (case strip_prefix (lit ''0x'') part of
           Some hex \<Rightarrow> (16, hex)
         | None \<Rightarrow>
             (case strip_prefix (lit ''0X'') part of
                Some hex \<Rightarrow> (16, hex)
              | None \<Rightarrow> if length part > 1 \<and> hd part = 48 then (8, tl part) else (10, part))) in
      if digits = [] \<or> \<not> list_all (\<lambda>b. digit_of b < radix) digits \<or> radix_value radix digits \<ge> 2 ^ 64
      then None else Some (radix_value radix digits))"

definition parse_inet_aton_ipv4 :: "ustring \<Rightarrow> (32 word) option" where
  "parse_inet_aton_ipv4 host =
     (let parts = split_char 46 host in
      if host = [] \<or> length parts > 4 then None
      else Option.bind (those (map parse_inet_aton_part parts)) (\<lambda>vals.
        let n = length vals; last = last vals;
            max_last = (if n = 1 then 0xFFFFFFFF else if n = 2 then 0xFFFFFF else if n = 3 then 0xFFFF else 0xFF) in
        if list_ex (\<lambda>v. v > 0xFF) (butlast vals) \<or> last > max_last then None
        else Some
          (if n = 1 then of_nat last
           else if n = 2 then push_bit 24 (of_nat (vals ! 0)) OR of_nat last
           else if n = 3 then push_bit 24 (of_nat (vals ! 0)) OR push_bit 16 (of_nat (vals ! 1)) OR of_nat last
           else push_bit 24 (of_nat (vals ! 0)) OR push_bit 16 (of_nat (vals ! 1)) OR push_bit 8 (of_nat (vals ! 2)) OR
             of_nat last)))"

definition host_is_public :: "ustring \<Rightarrow> bool" where
  "host_is_public host =
     (if host = [] \<or> list_ex (\<lambda>l. l = []) (split_char 46 host) then False
      else if eq_ignore_ascii_case host (lit ''localhost'') then False
      else case parse_ip host of
        Some (V4 v4) \<Rightarrow> ipv4_is_public v4
      | Some (V6 v6) \<Rightarrow> ipv6_is_public v6
      | None \<Rightarrow> (case parse_inet_aton_ipv4 host of Some v4 \<Rightarrow> ipv4_is_public v4 | None \<Rightarrow> True))"

definition aia_responder_url_is_safe :: "ustring \<Rightarrow> bool" where
  "aia_responder_url_is_safe url =
     (if \<not> responder_scheme_allowed url then False
      else case extract_url_host url of Some host \<Rightarrow> host_is_public host | None \<Rightarrow> False)"

text \<open>The resolver the fetch of a certificate's URL is given. The operating system's resolver is an
  argument; its failures and the refusals are the text of the error.\<close>

type_synonym socket_addr = "ip_addr \<times> nat"

definition resolve_vetted ::
  "(ustring \<Rightarrow> ustring + socket_addr list) \<Rightarrow> (ip_addr \<Rightarrow> ustring) \<Rightarrow> ustring \<Rightarrow> ustring + socket_addr list" where
  "resolve_vetted base show_ip netloc =
     and_then (base netloc) (\<lambda>addrs.
       if addrs = [] then Err (lit ''OCSP responder host did not resolve to any address'')
       else case find (\<lambda>(ip, _). \<not> resolved_ip_is_public ip) addrs of
         Some bad \<Rightarrow> Err (lit ''OCSP responder host resolved to a non-public address ('' @ show_ip (fst bad) @
           lit ''); refusing to connect (SSRF / DNS-rebinding guard, issue #128)'')
       | None \<Rightarrow> Ok addrs)"

section \<open>The arithmetic reading of a numeric host\<close>

definition inet_aton_reading :: "ustring \<Rightarrow> nat \<Rightarrow> bool" where
  "inet_aton_reading host n \<longleftrightarrow>
     (\<exists>vs. map parse_inet_aton_part (split_char 46 host) = map Some vs \<and> length vs \<le> 4 \<and>
        (\<forall>v \<in> set (butlast vs). v < 256) \<and> last vs < 256 ^ (5 - length vs) \<and>
        n = (\<Sum>i < length vs - 1. vs ! i * 256 ^ (3 - i)) + last vs)"

definition RESERVED_BLOCKS :: "(nat \<times> nat) list" where
  "RESERVED_BLOCKS =
     [(0x7F000000, 8), (0x0A000000, 8), (0xAC100000, 12), (0xC0A80000, 16), (0xA9FE0000, 16), (0, 32), (0xFFFFFFFF, 32), (0xE0000000, 4)]"

definition reserved :: "nat \<Rightarrow> bool" where
  "reserved n \<longleftrightarrow> list_ex (\<lambda>(net, len). n div 2 ^ (32 - len) = net div 2 ^ (32 - len)) RESERVED_BLOCKS"

lemma octet_div: "octet 0 a = unat a div 2 ^ 24" "octet 1 a = unat a div 2 ^ 16 mod 256"
proof -
  have m: "unat (w AND 0xFF) = unat w mod 256" for w :: "32 word"
  proof -
    have "w AND 0xFF = take_bit 8 w" by (simp add: take_bit_eq_mask mask_eq_exp_minus_1)
    then have "unat (w AND 0xFF) = take_bit 8 (unat w)" by (simp only: unsigned_take_bit_eq)
    then show ?thesis by (simp add: take_bit_eq_mod)
  qed
  have d: "unat (drop_bit k a) = unat a div 2 ^ k" for k
  proof -
    have "unat (drop_bit k a) = drop_bit k (take_bit 32 (unat a))" by (simp only: unsigned_drop_bit_eq) simp
    also have "take_bit 32 (unat a) = unat a" using unsigned_less [of a, where 'a = nat] by (simp add: take_bit_nat_eq_self)
    finally show ?thesis by (simp add: drop_bit_eq_div)
  qed
  have "unat a < 2 ^ 32" using unsigned_less [of a, where 'a = nat] by simp
  then show "octet 0 a = unat a div 2 ^ 24" by (simp add: octet_def m d)
  show "octet 1 a = unat a div 2 ^ 16 mod 256" by (simp add: octet_def m d)
qed

lemma reserved_iff:
  "reserved n \<longleftrightarrow> n div 16777216 = 127 \<or> n div 16777216 = 10 \<or> n div 1048576 = 2753 \<or> n div 65536 = 49320 \<or>
     n div 65536 = 43518 \<or> n = 0 \<or> n = 4294967295 \<or> n div 268435456 = 14"
  by (simp add: reserved_def RESERVED_BLOCKS_def)

lemma div_eq_block: "0 < d \<Longrightarrow> (y :: nat) div d = k \<longleftrightarrow> k * d \<le> y \<and> y < k * d + d"
  using less_eq_div_iff_mult_less_eq [of d k y] div_less_iff_less_mult [of d y "Suc k"] by auto

lemma mod_in_block: "(y :: nat) div d = k \<Longrightarrow> y mod d = y - k * d"
  by (metis minus_div_mult_eq_mod)

lemma ipv4_is_public_iff: "ipv4_is_public a \<longleftrightarrow> \<not> reserved (unat a)"
proof -
  define n y z where "n = unat a" and "y = n div 65536" and "z = n div 16777216"
  have z: "a = 0 \<longleftrightarrow> n = 0" "a = 0xFFFFFFFF \<longleftrightarrow> n = 4294967295"
    unfolding n_def by (simp add: unat_eq_0, simp add: word_unat_eq_iff)
  have e: "z = y div 256" "n div 1048576 = y div 16" "n div 268435456 = z div 16"
    by (simp_all add: y_def z_def div_mult2_eq [symmetric])
  have o: "octet 0 a = y div 256" "octet 1 a = y mod 256" unfolding octet_div e(1) [symmetric] by (simp_all add: n_def y_def z_def)
  have p: "y div 256 = 172 \<and> 16 \<le> y mod 256 \<and> y mod 256 \<le> 31 \<longleftrightarrow> y div 16 = 2753"
    using mod_in_block [of y 256 172] by (auto simp: div_eq_block)
  have w: "y div 256 = 192 \<and> y mod 256 = 168 \<longleftrightarrow> y = 49320" using mod_in_block [of y 256 192] by (auto simp: div_eq_block)
  have l: "y div 256 = 169 \<and> y mod 256 = 254 \<longleftrightarrow> y = 43518" using mod_in_block [of y 256 169] by (auto simp: div_eq_block)
  have m: "224 \<le> z \<and> z \<le> 239 \<longleftrightarrow> z div 16 = 14" by (auto simp: div_eq_block)
  show ?thesis
    unfolding ipv4_is_public_def v4_is_loopback_def v4_is_private_def v4_is_link_local_def v4_is_multicast_def o z p w l
      m [unfolded e(1)] reserved_iff n_def [symmetric] y_def [symmetric] z_def [symmetric] e
    by blast
qed

lemma or_as_sum:
  assumes "v < 256" and "m < 2 ^ k"
  shows "push_bit k (of_nat v) OR of_nat m = (of_nat (v * 2 ^ k + m) :: 32 word)"
proof -
  have "push_bit k (of_nat v) AND of_nat m = (0 :: 32 word)"
  proof (rule bit_eqI)
    fix n
    have "\<not> bit m n" if "k \<le> n"
    proof -
      from that have "m < 2 ^ n" using assms(2) by (meson less_le_trans one_le_numeral power_increasing)
      then show ?thesis by (simp add: bit_iff_odd)
    qed
    then show "bit (push_bit k (of_nat v) AND (of_nat m :: 32 word)) n \<longleftrightarrow> bit (0 :: 32 word) n"
      by (auto simp: bit_simps)
  qed
  then have "push_bit k (of_nat v) OR of_nat m = push_bit k (of_nat v) + (of_nat m :: 32 word)"
    by (rule disjunctive_add_eq_or [symmetric])
  then show ?thesis by (simp add: push_bit_eq_mult)
qed

lemma those_eq_Some: "those xs = Some ys \<longleftrightarrow> xs = map Some ys"
  by (induction xs arbitrary: ys) (auto split: option.split)

lemma split_char_not_Nil [simp]: "split_char sep s \<noteq> []"
  by (cases s) auto

lemma inet_aton_part_Nil [simp]: "parse_inet_aton_part [] = None"
  by (simp add: parse_inet_aton_part_def strip_prefix_def lit_def)

lemma small_list_cases:
  assumes "vs \<noteq> []" and "length vs \<le> 4"
  obtains a where "vs = [a]" | a b where "vs = [a, b]" | a b c where "vs = [a, b, c]" | a b c d where "vs = [a, b, c, d]"
  using assms by (cases vs; cases "tl vs"; cases "tl (tl vs)"; cases "tl (tl (tl vs))") auto

lemma of_nat_word32: "N < 2 ^ 32 \<Longrightarrow> (of_nat N :: 32 word) = a \<longleftrightarrow> unat a = N"
  by (auto simp: unat_of_nat take_bit_nat_eq_self)

lemma word_of_parts:
  "v < 256 \<Longrightarrow> m < 2 ^ 24 \<Longrightarrow> push_bit 24 (of_nat v) OR of_nat m = a \<longleftrightarrow> unat a = v * 2 ^ 24 + m"
  "v < 256 \<Longrightarrow> w < 256 \<Longrightarrow> m < 2 ^ 16 \<Longrightarrow>
     push_bit 24 (of_nat v) OR push_bit 16 (of_nat w) OR of_nat m = a \<longleftrightarrow> unat a = v * 2 ^ 24 + w * 2 ^ 16 + m"
  "v < 256 \<Longrightarrow> w < 256 \<Longrightarrow> z < 256 \<Longrightarrow> m < 256 \<Longrightarrow>
     push_bit 24 (of_nat v) OR push_bit 16 (of_nat w) OR push_bit 8 (of_nat z) OR of_nat m = a \<longleftrightarrow>
     unat a = v * 2 ^ 24 + w * 2 ^ 16 + z * 2 ^ 8 + m" for a :: "32 word"
proof -
  show two: "push_bit 24 (of_nat v) OR of_nat m = a \<longleftrightarrow> unat a = v * 2 ^ 24 + m" if "v < 256" "m < 2 ^ 24" for v m
    unfolding or_as_sum [OF that] by (rule of_nat_word32) (use that in simp)
  show three: "push_bit 24 (of_nat v) OR push_bit 16 (of_nat w) OR of_nat m = a \<longleftrightarrow> unat a = v * 2 ^ 24 + w * 2 ^ 16 + m"
    if "v < 256" "w < 256" "m < 2 ^ 16" for v w m
    unfolding or_as_sum [OF that(2,3)] using two [of v "w * 2 ^ 16 + m"] that by (simp add: algebra_simps)
  show "push_bit 24 (of_nat v) OR push_bit 16 (of_nat w) OR push_bit 8 (of_nat z) OR of_nat m = a \<longleftrightarrow>
     unat a = v * 2 ^ 24 + w * 2 ^ 16 + z * 2 ^ 8 + m" if "v < 256" "w < 256" "z < 256" "m < 256"
  proof -
    have "m < 2 ^ 8" using that by simp
    note o = or_as_sum [OF that(3) this]
    show ?thesis unfolding o using three [of v w "z * 2 ^ 8 + m"] that by (simp add: algebra_simps)
  qed
qed

lemma parse_inet_aton_ipv4_iff: "parse_inet_aton_ipv4 host = Some a \<longleftrightarrow> inet_aton_reading host (unat a)"
proof (cases "those (map parse_inet_aton_part (split_char 46 host))")
  case None
  then show ?thesis
    unfolding parse_inet_aton_ipv4_def inet_aton_reading_def by (auto simp: Let_def simp flip: those_eq_Some)
next
  case (Some vs)
  then have m: "map parse_inet_aton_part (split_char 46 host) = map Some vs" by (simp add: those_eq_Some)
  then have n: "length (split_char 46 host) = length vs" by (metis length_map)
  have ne: "vs \<noteq> []" using m by auto
  have h: "host \<noteq> []" using m ne by auto
  have u: "map Some vs = map Some vs' \<longleftrightarrow> vs' = vs" for vs' by (metis map_eq_conv inj_map_eq_map inj_Some)
  have r: "inet_aton_reading host k \<longleftrightarrow> length vs \<le> 4 \<and> (\<forall>v \<in> set (butlast vs). v < 256) \<and>
      last vs < 256 ^ (5 - length vs) \<and> k = (\<Sum>i < length vs - 1. vs ! i * 256 ^ (3 - i)) + last vs" for k
    unfolding inet_aton_reading_def m u by simp
  show ?thesis
  proof (cases "length vs \<le> 4")
    case True
    show ?thesis using ne True
      by (cases rule: small_list_cases [OF ne True])
        (use Some n h in \<open>auto simp: parse_inet_aton_ipv4_def r of_nat_word32 word_of_parts Let_def lessThan_Suc\<close>)
  qed (use n in \<open>auto simp: parse_inet_aton_ipv4_def r Let_def\<close>)
qed

text \<open>A strict dotted-decimal literal is one of the forms \<open>inet_aton\<close> reads, with the same value.\<close>

lemma read_number_octet:
  assumes "read_number 10 3 False 256 s = Some (g, r)"
  obtains ds where "s = ds @ r" "parse_inet_aton_part ds = Some g" "46 \<notin> set ds" "g < 256"
proof -
  define ds where "ds = takeWhile (\<lambda>c. digit_of c < 10) s"
  have d: "ds \<noteq> []" "\<not> (hd ds = 48 \<and> length ds > 1)" "g = radix_value 10 ds" "g < 256" "r = drop (length ds) s"
    using assms by (auto simp: read_number_def Let_def ds_def split: if_split_asm)
  have all: "\<forall>c \<in> set ds. digit_of c < 10" by (auto simp: ds_def dest: set_takeWhileD)
  have x: "digit_of 120 = 33" "digit_of 88 = 33" "digit_of 46 = 36" by (simp_all add: digit_of_def)
  have "120 \<notin> set ds" "88 \<notin> set ds" and dot: "46 \<notin> set ds" using all x by force+
  moreover have "120 \<in> set (lit ''0x'')" "88 \<in> set (lit ''0X'')" by (simp_all add: lit_def)
  ultimately have p: "strip_prefix (lit ''0x'') ds = None" "strip_prefix (lit ''0X'') ds = None"
    by (auto simp: strip_prefix_def dest: set_mono_prefix)
  have "parse_inet_aton_part ds = Some g"
    using d all p by (auto simp: parse_inet_aton_part_def list_all_iff)
  moreover have "s = ds @ r" unfolding d(5) ds_def by (metis takeWhile_eq_take append_take_drop_id)
  ultimately show ?thesis using that d(4) dot by blast
qed

lemma read_octets_tail:
  "read_octets n (Suc i) s = Some (gs, r) \<Longrightarrow>
   \<exists>dss. s = concat (map ((#) 46) dss) @ r \<and> map parse_inet_aton_part dss = map Some gs \<and>
     (\<forall>ds \<in> set dss. 46 \<notin> set ds) \<and> (\<forall>g \<in> set gs. g < 256) \<and> length gs = n"
proof (induction n arbitrary: i s gs)
  case (Suc n)
  then obtain g t gs' where t: "read_separator 46 (Suc i) (read_number 10 3 False 256) s = Some (g, t)"
    "read_octets n (Suc (Suc i)) t = Some (gs', r)" "gs = g # gs'"
    by (auto split: option.split_asm)
  then obtain s' where "s = 46 # s'" "read_number 10 3 False 256 s' = Some (g, t)"
    by (auto simp: read_separator_def split: list.split_asm if_split_asm)
  then obtain ds where ds: "s = 46 # ds @ t" "parse_inet_aton_part ds = Some g" "46 \<notin> set ds" "g < 256"
    using read_number_octet by metis
  from Suc.IH [OF t(2)] obtain dss where "t = concat (map ((#) 46) dss) @ r" "map parse_inet_aton_part dss = map Some gs'"
    "\<forall>ds \<in> set dss. 46 \<notin> set ds" "\<forall>g \<in> set gs'. g < 256" "length gs' = n"
    by blast
  with ds t(3) show ?case by (intro exI [of _ "ds # dss"]) auto
qed simp

lemma split_char_concat:
  "46 \<notin> set d \<Longrightarrow> \<forall>ds \<in> set dss. 46 \<notin> set ds \<Longrightarrow> split_char 46 (d @ concat (map ((#) 46) dss)) = d # dss"
  by (induction dss arbitrary: d) (simp_all add: split_char_single split_char_append)

lemma strict_literal_is_inet_aton:
  assumes "parse_ip host = Some (V4 a)"
  shows "parse_inet_aton_ipv4 host = Some a"
proof -
  obtain gs where gs: "read_octets 4 0 host = Some (gs, [])" "a = v4_from_octets gs"
    using assms by (auto simp: parse_ip_def read_ipv4_addr_def split: option.split_asm if_split_asm prod.split_asm)
  have four: "(4 :: nat) = Suc 3" by simp
  obtain g t gs' where t: "read_number 10 3 False 256 host = Some (g, t)" "read_octets 3 (Suc 0) t = Some (gs', [])" "gs = g # gs'"
    using gs(1) unfolding four read_octets.simps by (auto simp: read_separator_def split: option.split_asm)
  obtain d where d: "host = d @ t" "parse_inet_aton_part d = Some g" "46 \<notin> set d" "g < 256" using read_number_octet [OF t(1)] .
  from read_octets_tail [OF t(2)] obtain dss where dss: "t = concat (map ((#) 46) dss)" "map parse_inet_aton_part dss = map Some gs'"
    "\<forall>ds \<in> set dss. 46 \<notin> set ds" "\<forall>g \<in> set gs'. g < 256" "length gs' = 3"
    by auto
  then obtain g1 g2 g3 where g: "gs' = [g1, g2, g3]" by (auto simp: length_Suc_conv numeral_3_eq_3)
  have small: "g1 < 256" "g2 < 256" "g3 < 256" using dss(4) g by auto
  have "a = of_nat (g * 16777216 + g1 * 65536 + g2 * 256 + g3)"
    unfolding gs(2) t(3) g v4_from_octets_def by (rule arg_cong [where f = of_nat]) simp
  then have "unat a = g * 16777216 + g1 * 65536 + g2 * 256 + g3"
    using of_nat_word32 [of "g * 16777216 + g1 * 65536 + g2 * 256 + g3" a] d(4) small by simp
  moreover have "split_char 46 host = d # dss" unfolding d(1) dss(1) using split_char_concat d(3) dss(3) by blast
  ultimately show ?thesis
    unfolding parse_inet_aton_ipv4_iff inet_aton_reading_def using d(2,4) dss(2) g small
    by (intro exI [of _ "[g, g1, g2, g3]"]) (simp add: lessThan_Suc)
qed

text \<open>No IPv6 literal is a numeric IPv4 host: it has a colon, and no part of a numeric host has one.\<close>

lemma read_number_rest: "read_number radix k z b s = Some (g, r) \<Longrightarrow> set r \<subseteq> set s"
  by (auto simp: read_number_def Let_def dest: in_set_dropD split: if_split_asm)

lemma read_separator_rest:
  assumes "read_separator sep i inner s = Some (v, r)" and "\<And>t v r. inner t = Some (v, r) \<Longrightarrow> set r \<subseteq> set t"
  shows "set r \<subseteq> set s \<and> (0 < i \<longrightarrow> sep \<in> set s)"
  using assms(1) by (auto simp: read_separator_def split: if_split_asm list.split_asm dest!: assms(2))

lemma read_octets_rest: "read_octets n i s = Some (gs, r) \<Longrightarrow> set r \<subseteq> set s"
proof (induction n arbitrary: i s gs)
  case (Suc n)
  then obtain g t gs' where t: "read_separator 46 i (read_number 10 3 False 256) s = Some (g, t)" "read_octets n (Suc i) t = Some (gs', r)"
    by (auto split: option.split_asm)
  from t(1) have "set t \<subseteq> set s \<and> (0 < i \<longrightarrow> 46 \<in> set s)" by (rule read_separator_rest) (rule read_number_rest)
  then show ?case using Suc.IH [OF t(2)] by blast
qed simp

lemma read_ipv4_rest: "read_ipv4_addr s = Some (v, r) \<Longrightarrow> set r \<subseteq> set s"
  by (auto simp: read_ipv4_addr_def dest: read_octets_rest)

lemma read_groups_rest:
  "read_groups n i s = (gs, f, r) \<Longrightarrow> set r \<subseteq> set s \<and> (58 \<notin> set s \<longrightarrow> length gs \<le> (if i = 0 then 2 else 0))"
proof (induction n arbitrary: i s gs f r)
  case (Suc n)
  show ?case
  proof (cases "if n \<ge> 1 then read_separator 58 i read_ipv4_addr s else None")
    case (Some p)
    then obtain v t where t: "read_separator 58 i read_ipv4_addr s = Some (v, t)" "p = (v, t)" by (cases p) (auto split: if_split_asm)
    from t(1) have "set t \<subseteq> set s \<and> (0 < i \<longrightarrow> 58 \<in> set s)" by (rule read_separator_rest) (rule read_ipv4_rest)
    then show ?thesis using Some Suc.prems t(2) by auto
  next
    case v4: None
    show ?thesis
    proof (cases "read_separator 58 i (read_number 16 4 True 65536) s")
      case (Some p)
      obtain g t where p: "p = (g, t)" by (cases p)
      obtain gs' f' r' where g: "read_groups n (Suc i) t = (gs', f', r')" by (cases "read_groups n (Suc i) t") auto
      have "gs = of_nat g # gs'" "r = r'" using Suc.prems v4 Some p g by auto
      moreover have "set t \<subseteq> set s \<and> (0 < i \<longrightarrow> 58 \<in> set s)"
        using Some [unfolded p] by (rule read_separator_rest) (rule read_number_rest)
      moreover note Suc.IH [OF g]
      ultimately show ?thesis by auto
    qed (use Suc.prems v4 in auto)
  qed
qed simp

lemma ipv6_literal_has_colon: "parse_ip host = Some (V6 v6) \<Longrightarrow> 58 \<in> set host"
proof (rule ccontr)
  assume v: "parse_ip host = Some (V6 v6)" and c: "58 \<notin> set host"
  obtain gs f r where g: "read_groups 8 0 host = (gs, f, r)" by (cases "read_groups 8 0 host") auto
  have "set r \<subseteq> set host" "length gs \<le> 2" using read_groups_rest [OF g] c by auto
  then have "read_ipv6_addr host = None" using c g by (auto simp: read_ipv6_addr_def split: list.split)
  with v show False by (simp add: parse_ip_def split: option.split_asm if_split_asm prod.split_asm)
qed

lemma inet_aton_part_chars:
  assumes "parse_inet_aton_part part = Some v" and "c \<in> set part"
  shows "digit_of c < 16 \<or> c = 120 \<or> c = 88"
proof -
  have z: "digit_of 48 = 0" by (simp add: digit_of_def)
  obtain pre radix digits where d: "part = pre @ digits" "set pre \<subseteq> {48, 120, 88}" "radix \<le> (16 :: nat)"
    "list_all (\<lambda>b. digit_of b < radix) digits"
  proof (cases "strip_prefix (lit ''0x'') part")
    case (Some hex)
    moreover from Some have "part = lit ''0x'' @ hex" by (auto simp: strip_prefix_def prefix_def split: if_split_asm)
    moreover have "set (lit ''0x'') \<subseteq> {48, 120, 88}" by (simp add: lit_def)
    ultimately show ?thesis using assms(1) that by (auto simp: parse_inet_aton_part_def split: if_split_asm)
  next
    case no_x: None
    show ?thesis
    proof (cases "strip_prefix (lit ''0X'') part")
      case (Some hex)
      moreover from Some have "part = lit ''0X'' @ hex" by (auto simp: strip_prefix_def prefix_def split: if_split_asm)
      moreover have "set (lit ''0X'') \<subseteq> {48, 120, 88}" by (simp add: lit_def)
      ultimately show ?thesis using assms(1) no_x that by (auto simp: parse_inet_aton_part_def split: if_split_asm)
    next
      case None
      have l: "list_all (\<lambda>b. digit_of b < 8) (tl part)" if "length part > 1" "hd part = 48"
        using assms(1) no_x None that by (simp add: parse_inet_aton_part_def split: if_split_asm)
      have n: "list_all (\<lambda>b. digit_of b < 10) part" if "\<not> (length part > 1 \<and> hd part = 48)"
        using assms(1) no_x None that by (auto simp: parse_inet_aton_part_def split: if_split_asm)
      show ?thesis
      proof (cases "length part > 1 \<and> hd part = 48")
        case True
        then have "part = [48] @ tl part" by (cases part) auto
        then show ?thesis using l True that [of "[48]" "tl part" 8] by simp
      qed (use n that [of "[]" part 10] in simp)
    qed
  qed
  then show ?thesis using assms(2) z by (auto simp: list_all_iff dest!: bspec)
qed

lemma inet_aton_part_no_colon: "58 \<in> set part \<Longrightarrow> parse_inet_aton_part part = None"
  using inet_aton_part_chars [of part _ 58] by (cases "parse_inet_aton_part part") (auto simp: digit_of_def)

lemma split_char_covers: "c \<in> set s \<Longrightarrow> c \<noteq> sep \<Longrightarrow> \<exists>p \<in> set (split_char sep s). c \<in> set p"
proof (induction s)
  case (Cons d s)
  obtain q qs where "split_char sep s = q # qs" using split_char_not_Nil by (metis neq_Nil_conv)
  then show ?case using Cons by auto
qed simp

lemma reading_part: "inet_aton_reading host n \<Longrightarrow> p \<in> set (split_char 46 host) \<Longrightarrow> \<exists>v. parse_inet_aton_part p = Some v"
  unfolding inet_aton_reading_def by (metis (no_types, lifting) image_iff list.set_map)

lemma reading_chars:
  assumes "inet_aton_reading host n" and "c \<in> set host" and "c \<noteq> 46"
  shows "digit_of c < 16 \<or> c = 120 \<or> c = 88"
  using split_char_covers [OF assms(2,3)] reading_part [OF assms(1)] inet_aton_part_chars by blast

lemma reading_not_localhost: "inet_aton_reading host n \<Longrightarrow> \<not> eq_ignore_ascii_case host (lit ''localhost'')"
proof
  assume r: "inet_aton_reading host n" and e: "eq_ignore_ascii_case host (lit ''localhost'')"
  have "to_ascii_lowercase (lit ''localhost'') = 108 # map of_char ''ocalhost''" by (simp add: lit_def to_ascii_lowercase_def)
  then obtain c cs where c: "host = c # cs" "(if 65 \<le> c \<and> c \<le> 90 then c + 32 else c) = 108"
    using e by (cases host) (auto simp: eq_ignore_ascii_case_def to_ascii_lowercase_def)
  then have "c = 76 \<or> c = 108" by (auto split: if_split_asm)
  then show False using reading_chars [OF r, of c] c(1) by (auto simp: digit_of_def)
qed

lemma reading_bound:
  assumes "inet_aton_reading host n"
  shows "n < 2 ^ 32"
proof -
  obtain vs where vs: "map parse_inet_aton_part (split_char 46 host) = map Some vs" "length vs \<le> 4"
    "\<forall>v \<in> set (butlast vs). v < 256" "last vs < 256 ^ (5 - length vs)"
    "n = (\<Sum>i < length vs - 1. vs ! i * 256 ^ (3 - i)) + last vs"
    using assms unfolding inet_aton_reading_def by blast
  have ne: "vs \<noteq> []" using vs(1) by auto
  show ?thesis by (cases rule: small_list_cases [OF ne vs(2)]) (use vs(3-5) in \<open>auto simp: lessThan_Suc\<close>)
qed

lemma inet_aton_public:
  assumes "inet_aton_reading host n"
  shows "parse_inet_aton_ipv4 host = Some (of_nat n) \<and> (ipv4_is_public (of_nat n) \<longleftrightarrow> \<not> reserved n)"
proof -
  have "unat (of_nat n :: 32 word) = n" using of_nat_word32 [OF reading_bound [OF assms]] by blast
  with assms show ?thesis by (simp add: parse_inet_aton_ipv4_iff ipv4_is_public_iff)
qed

lemma host_is_public_numeric:
  assumes r: "inet_aton_reading host n"
  shows "host_is_public host \<longleftrightarrow> \<not> reserved n"
proof -
  note a = inet_aton_public [OF r]
  have "[] \<notin> set (split_char 46 host)" using reading_part [OF r] by force
  moreover from this have "host \<noteq> []" by auto
  moreover have "parse_ip host \<noteq> Some (V6 v6)" for v6
    using ipv6_literal_has_colon [of host v6] reading_chars [OF r, of 58] by (auto simp: digit_of_def)
  moreover have "v4 = of_nat n" if "parse_ip host = Some (V4 v4)" for v4
    using strict_literal_is_inet_aton [OF that] a by simp
  ultimately show ?thesis
    using a reading_not_localhost [OF r] by (auto simp: host_is_public_def list_ex_iff split: option.split ip_addr.split)
qed

lemma resolve_vetted_public:
  "resolve_vetted base show_ip netloc = Ok addrs \<longleftrightarrow>
     base netloc = Ok addrs \<and> addrs \<noteq> [] \<and> list_all (\<lambda>(ip, _). resolved_ip_is_public ip) addrs"
  by (auto simp: resolve_vetted_def result_simps list_all_iff find_None_iff split: option.split_asm if_split_asm)
    (auto simp: find_Some_iff split: option.split, (fastforce dest: nth_mem)?)

section \<open>Properties\<close>

text \<open>
  C40: A URL taken from a certificate whose host is a number in any form \<open>inet_aton\<close> reads (one to four
  parts, each decimal, octal or hexadecimal) passes the guard exactly when its scheme is HTTP or HTTPS
  and the address it denotes lies in none of the reserved blocks; the strict and the loose reader
  never disagree about it.
\<close>

theorem numeric_responder_guarded:
  assumes "extract_url_host url = Some host" and "inet_aton_reading host n"
  shows "aia_responder_url_is_safe url \<longleftrightarrow> responder_scheme_allowed url \<and> \<not> reserved n"
  using assms(1) host_is_public_numeric [OF assms(2)] by (simp add: aia_responder_url_is_safe_def)

lemma sample_metadata_host: "extract_url_host (lit ''http://0xA9.0376.43518/x'') = Some (lit ''0xA9.0376.43518'')"
  by (simp add: extract_url_host_def lit_def strip_prefix_def)

lemma sample_metadata_reading: "inet_aton_reading (lit ''0xA9.0376.43518'') 0xA9FEA9FE"
  unfolding inet_aton_reading_def
  by (rule exI [of _ "[169, 254, 43518]"])
    (simp add: lit_def parse_inet_aton_part_def strip_prefix_def radix_value_def digit_of_def lessThan_Suc)

theorem numeric_responder_guarded_witness: "\<not> aia_responder_url_is_safe (lit ''http://0xA9.0376.43518/x'')"
  using numeric_responder_guarded [OF sample_metadata_host sample_metadata_reading] by (simp add: reserved_iff)

end
