(* ===== verification/Spec2Isabelle.thy ===== *)
theory Spec2Isabelle
  imports Client_Proxy Remote_Stores Public_Hosts
begin

text \<open>
  MCP-S is a security layer over MCP, a JSON-RPC protocol between a client and a tool server. A
  client signs each request with an envelope in \<open>params._meta\<close>; a sidecar proxy in front of the
  server verifies it, refuses replays, evaluates an authorization policy, forwards a scrubbed request
  to the inner server, and signs the answer bound to the hash of the request; the client verifies that
  answer. This development models the Rust crates under \<open>src/\<close> function by function and proves what
  the parts promise and that they fit together.

  \<^bold>\<open>Conventions.\<close> A Rust \<open>Result\<close> is a sum (\<open>Ok\<close> is \<open>Inr\<close>, \<open>Err\<close> is \<open>Inl\<close>), \<open>?\<close> is \<open>and_then\<close>.
  Strings are lists of Unicode scalar values, bytes lists of numbers below 256, an \<open>i64\<close> is an
  integer with the saturating and checked operations written out, a struct is a record, an enum a
  datatype, a trait object a function. An operation with \<open>&mut self\<close> returns the new state; a panic
  is \<open>None\<close> where the code can panic. Base64, SHA-256, Ed25519 and \<open>serde_json\<close> are third-party
  crates: the record \<open>ext\<close> of functions, with what the code relies on as the hypotheses
  \<open>base64_documented\<close>, \<open>sha256_documented\<close>, \<open>ed25519_documented\<close>, \<open>serde_documented\<close>, \<open>serde_prints\<close>;
  \<open>sample_ext\<close> is a concrete instance that satisfies all of them, on which the witnesses run. Clock
  readings, random bytes, the outcome of a write to disk and the state of a mutex are arguments.

  \<^bold>\<open>Core\<close> (crate \<open>mcps-core\<close>).
  \<^item> \<open>Mcps_Prelude\<close>, \<open>Unicode_Text\<close>: results, machine integers, decimal text, UTF-8 and UTF-16.
  \<^item> \<open>Mcps_Error\<close> (\<open>error.rs\<close>, \<open>audit.rs\<close>, \<open>ids.rs\<close>): error codes, frozen tokens, audit events.
  \<^item> \<open>Timestamps\<close> (\<open>time.rs\<close>): the RFC 3339 profile accepts exactly the denoted calendar seconds, the
    day count is the Gregorian calendar, freshness is exactly the skew-widened window.
  \<^item> \<open>Json_Value\<close>, \<open>Canonical\<close>, \<open>Canonical_Parser\<close>, \<open>Canonical_Roundtrip\<close> (\<open>canonical.rs\<close>): values
    and canonical bytes determine each other up to member order, the parser accepts only the safe
    domain. The fuel of the parser is three times the length of the input plus one; \<open>parse_fails_closed\<close>
    shows that it never runs out.
  \<^item> \<open>Crypto\<close> (\<open>hash.rs\<close>, \<open>encoding.rs\<close>, \<open>crypto.rs\<close>), \<open>Envelope\<close> (\<open>envelope.rs\<close>), \<open>Constraints\<close>
    (\<open>constraints.rs\<close>), \<open>Signing\<close> (\<open>signing.rs\<close>): envelopes round trip, each refusal names its cause,
    the signature covers everything outside the published exclusions and nothing of them.
  \<^item> \<open>Resolver\<close> (\<open>resolver.rs\<close>) and \<open>Replay\<close> (\<open>replay.rs\<close>): the reference implementations against the
    locales \<open>trust_store\<close>, \<open>replay_store\<close> and \<open>exact_replay_store\<close>.
  \<^item> \<open>Pipeline\<close> (\<open>pipeline.rs\<close>), \<open>Verdict\<close>, \<open>Unwrap_Wire\<close> (\<open>unwrap.rs\<close>, \<open>wire.rs\<close>): the verifiers accept
    exactly the authentic, fresh, addressed, unreplayed messages; only those touch the replay state;
    a verdict is well typed.

  \<^bold>\<open>Clients.\<close>
  \<^item> \<open>Host\<close> (crate \<open>mcps-host\<close>): the signer and the session with its pending table.
  \<^item> \<open>Client_Policy\<close>, \<open>Client_Request\<close> (crate \<open>mcps-client-core\<close>): audiences, enforcement, audit,
    correlation, discovery; authorization bindings, request building, signer custody, responses.
  \<^item> \<open>Client_Proxy\<close> (crate \<open>mcps-client-proxy\<close>): one call from plain request to plain response. A
    response is earned by evidence, nothing stays pending, and a call through both proxies delivers the
    inner server's answer.

  \<^bold>\<open>Proxy\<close> (crate \<open>mcps-proxy\<close>) and policy (crate \<open>mcps-policy\<close>).
  \<^item> \<open>Policy\<close>, \<open>Reference_Profile\<close>: the evaluator and the reference grant, which is honoured for exactly
    what it was minted for.
  \<^item> \<open>Transport\<close> (\<open>transport.rs\<close>): headers, XFCC, RFC 2253 names, binding policies (locale
    \<open>binding_policy\<close>) and signed ingress assertions.
  \<^item> \<open>Shared_Replay\<close> (\<open>shared_replay.rs\<close>), \<open>Durable_Replay\<close> (\<open>durable_replay.rs\<close>), \<open>Remote_Stores\<close>
    (\<open>redis_store.rs\<close>, \<open>etcd_store.rs\<close>): the replay caches. The locale \<open>atomic_store\<close> is the contract of
    a shared store and a \<open>replay_store\<close> through a \<open>sublocale\<close>. The Redis and etcd servers are
    parameters under \<open>redis_documented\<close> and \<open>etcd_documented\<close>; under these the two clients meet the
    contract, repeated attempts and returned leases included.
  \<^item> \<open>Trust_Cache\<close> (\<open>trust_cache.rs\<close>, \<open>live_trust.rs\<close>, \<open>push_trust.rs\<close>, \<open>authorized_keyset.rs\<close>), \<open>Tiers\<close>
    (\<open>revocation_tier.rs\<close>, \<open>replay_tier.rs\<close>): a revocation is enforced within the window of the cache,
    at once when pushed (locale \<open>invalidation_channel\<close>); a fleet's key set admits exactly its document.
  \<^item> \<open>Sidecar\<close>, \<open>Sidecar_Gate\<close> (\<open>proxy.rs\<close>): one call of the sidecar. The inner server is reached by
    admitted requests only, sees only what the proxy authored, and its answer reaches the client.
  \<^item> \<open>Public_Hosts\<close> (the address guard of \<open>ocsp.rs\<close>): which responder URLs of a certificate and which
    resolved addresses may be fetched. Addresses are 32-bit words and lists of 16-bit groups, and the
    literal parser of the standard library is written out. A numeric host is judged by the address it
    denotes in whatever form it is written.
  \<^item> \<open>Exchange\<close>: session and sidecar together.

  \<^bold>\<open>This theory\<close> holds what spans the verifier and the replay state: the same bytes are accepted at
  most once, and version dispatch is strict.

  \<^bold>\<open>Where the code and its documentation part.\<close> The lemmas \<open>scalar_meta_panics\<close> and
  \<open>sole_value_collides\<close> (\<open>Sidecar_Gate\<close>), \<open>edge_control_passes\<close> (\<open>Transport\<close>) and
  \<open>inner_error_delivered_as_result\<close> (\<open>Client_Proxy\<close>) record behaviour the comments exclude: a panic on
  a scalar \<open>_meta\<close>, an inner object that unwraps as a scalar, a control character at the edge of an
  asserted identity, and an inner error shown to the local client as a result. The liveness theorems
  carry the hypotheses these cases need.

  \<^bold>\<open>Not modelled.\<close> TLS and certificates (sockets, \<open>rustls\<close> callbacks, X.509 parsing by
  third-party crates); of OCSP the requests, the fetch and the checks of a response, which work on the
  values of those crates; HSM and KMS signers (device libraries and cloud services); inner process
  management and sandboxing (processes, pipes, kernel limits); the command line and the binaries
  (argument parsing and wiring); loading of keys from files; framing over sockets; the conformance
  runner, demos, walkthrough and language bindings. Poisoned locks are represented where the code
  branches on them. Threads are represented by sequences of operations, and for connects to Redis by
  the count of permits. Message texts of error values that stay inside a process are modelled where a
  caller sees them.
\<close>

section \<open>Properties across components\<close>

text \<open>
  C4: the same bytes are accepted at most once: after the dispatcher accepted a message on the
  in-memory replay cache, it never accepts those bytes again, under any trust state, policy and
  clock reading, whatever other checks and prunes the cache went through, provided the prunes ran
  at times up to the second verification and the verifier's skew is at most the cache's. A nonce
  the cache has forgotten belongs to a request that is already stale.
\<close>

theorem request_accepted_once:
  assumes "verify_request_dispatch x resolve check_and_insert c config now policy raw = (Ok vr, c')"
    and "skew_secs config' \<le> max_clock_skew_secs c"
    and "not_after (\<lambda>_ :: unit. None) now' evs"
  shows "fst (verify_request_dispatch x resolve' check_and_insert
    (fold (run_event (\<lambda>_. check_and_insert) replay_prune) evs c') config' now' policy' raw) \<noteq> Ok vr'"
  using mem_replay.bytes_accepted_once [OF assms] .

theorem request_accepted_once_witness:
  "\<exists>raw vr c'. verify_request_dispatch sample_ext sample_resolve check_and_insert (replay_new 30) sample_config 1100
     Draft01AndDraft02 raw = (Ok vr, c') \<and>
   fst (verify_request_dispatch sample_ext sample_resolve check_and_insert (replay_prune 1330 c') sample_config 1330
     Draft01AndDraft02 raw) \<noteq> Ok vr"
proof -
  obtain raw vr c' where a: "verify_request_dispatch sample_ext sample_resolve check_and_insert (replay_new 30) sample_config 1100
     Draft01AndDraft02 raw = (Ok vr, c')" using sample_accepted by blast
  have "fst (verify_request_dispatch sample_ext sample_resolve check_and_insert
      (fold (run_event (\<lambda>_ :: unit. check_and_insert) replay_prune) [Prune 1330] c') sample_config 1330 Draft01AndDraft02 raw) \<noteq> Ok vr"
    by (rule request_accepted_once [OF a]) (simp_all add: sample_config_def replay_new_def not_after_def)
  with a show ?thesis by auto
qed

text \<open>
  C13: version dispatch is strict: an accepted request was read with a version the policy admits
  and verified by the profile of exactly that version, a draft-02-only deployment never accepts a
  draft-01 request, and the bytes of an accepted request are refused by the other profile under
  any trust state, cache and clock.
\<close>

theorem dispatch_is_strict:
  assumes "verify_request_dispatch x resolve check c config now policy raw = (Ok vr, c')"
  shows "\<exists>value version. from_slice x raw = Some value \<and> read_request_envelope_version value = Ok version \<and>
    admits policy version \<and>
    (case vr_authorization vr of
       Draft01Hash h \<Rightarrow> version = VERSION_DRAFT_01 \<and> policy = Draft01AndDraft02 \<and> vr_canonicalization_id vr = None \<and>
         fst (verify_request_draft02 x resolve2 check2 c2 config2 now2 raw) \<noteq> Ok vr2
     | Draft02Binding b \<Rightarrow> version = VERSION_DRAFT_02 \<and>
         vr_canonicalization_id vr = Some CANONICALIZATION_ID_INT53_V1 \<and>
         fst (verify_request x resolve2 check2 c2 config2 now2 raw) \<noteq> Ok vr2)"
proof -
  have d: "VERSION_DRAFT_01 \<noteq> VERSION_DRAFT_02" by (simp add: const_defs)
  from assms consider
    (one) "select_version x policy raw = Ok VERSION_DRAFT_01" "verify_request x resolve check c config now raw = (Ok vr, c')" |
    (two) "select_version x policy raw = Ok VERSION_DRAFT_02" "verify_request_draft02 x resolve check c config now raw = (Ok vr, c')"
    unfolding verify_request_dispatch_Ok by blast
  then show ?thesis
  proof cases
    case one
    have "fst (verify_request_draft02 x resolve2 check2 c2 config2 now2 raw) \<noteq> Ok vr2"
      using profiles_disjoint [OF one(2)] by (metis prod.collapse)
    moreover have "policy = Draft01AndDraft02" using one(1) d unfolding select_version_Ok by (cases policy) auto
    ultimately show ?thesis
      using one(1) verify_request_authorization [OF one(2)] unfolding select_version_Ok by auto
  next
    case two
    have "fst (verify_request x resolve2 check2 c2 config2 now2 raw) \<noteq> Ok vr2"
      using profiles_disjoint two(2) by (metis prod.collapse)
    then show ?thesis
      using two(1) verify_request_draft02_authorization [OF two(2)] unfolding select_version_Ok by auto
  qed
qed

theorem dispatch_is_strict_witness:
  "\<exists>raw vr c' value. verify_request_dispatch sample_ext sample_resolve check_and_insert (replay_new 30) sample_config 1100
     Draft01AndDraft02 raw = (Ok vr, c') \<and> from_slice sample_ext raw = Some value"
proof -
  obtain raw vr c' where a: "verify_request_dispatch sample_ext sample_resolve check_and_insert (replay_new 30) sample_config 1100
     Draft01AndDraft02 raw = (Ok vr, c')" using sample_accepted by blast
  from dispatch_is_strict [OF a, where ?resolve2.0 = sample_resolve and ?check2.0 = check_and_insert and
      ?c2.0 = "replay_new 30" and ?config2.0 = sample_config and ?now2.0 = 1100 and ?vr2.0 = vr] a
  show ?thesis by blast
qed

end
